(* ===== verification/Prelude.thy ===== *)
theory Prelude
  imports Main "HOL-Library.Word"
begin

text \<open>
  What every component of the model shares: the machine integers of the C and C++ sources,
  the faults a C program can run into, the sequencing of operations that may fault, blocks of
  memory with \<^verbatim>\<open>memcpy\<close> and \<^verbatim>\<open>memset\<close>, the POSIX mutex, network byte
  order, and the list lemmas the component theories rely on.

  A C function becomes a HOL function; a value of type \<open>'a res\<close> is \<open>Inl f\<close> when the C
  code runs into the fault \<open>f\<close> (a crash, a hang or undefined behaviour) and \<open>Inr v\<close>
  when it returns \<open>v\<close>. A pointer that may be \<^verbatim>\<open>NULL\<close> is an \<open>option\<close>.
\<close>

section \<open>Integers, faults, sequencing\<close>

type_synonym byte = "8 word"
type_synonym u16 = "16 word"
type_synonym u32 = "32 word"

datatype fault =
    NullDeref        \<comment> \<open>a null pointer is dereferenced or called\<close>
  | OutOfBounds      \<comment> \<open>a block of memory is read or written outside its bounds\<close>
  | DivByZero        \<comment> \<open>integer division or remainder by zero\<close>
  | Deadlock         \<comment> \<open>the thread locks a mutex it already holds\<close>
  | UseAfterFree     \<comment> \<open>a freed object is used\<close>
  | AssertFail       \<comment> \<open>an \<^verbatim>\<open>assert\<close> of the source fails\<close>
  | IntOverflow      \<comment> \<open>signed integer arithmetic overflows\<close>
  | ProcessExit      \<comment> \<open>the source calls \<^verbatim>\<open>exit\<close>\<close>
  | Uninitialised    \<comment> \<open>memory that was never set is used as a pointer or as a lock\<close>

type_synonym 'a res = "fault + 'a"

fun rbind :: "'a res \<Rightarrow> ('a \<Rightarrow> 'b res) \<Rightarrow> 'b res" where
  "rbind (Inl e) k = Inl e"
| "rbind (Inr v) k = k v"

lemma rbind_cong [fundef_cong]:
  "m = m' \<Longrightarrow> (\<And>v. m' = Inr v \<Longrightarrow> k v = k' v) \<Longrightarrow> rbind m k = rbind m' k'"
  by (cases m') auto

lemma rbind_eq_Inr [simp]: "rbind m k = Inr v \<longleftrightarrow> (\<exists>u. m = Inr u \<and> k u = Inr v)"
  by (cases m) auto

lemma rbind_eq_Inl: "rbind m k = Inl e \<longleftrightarrow> m = Inl e \<or> (\<exists>u. m = Inr u \<and> k u = Inl e)"
  by (cases m) auto

fun rassert :: "bool \<Rightarrow> unit res" where
  "rassert True = Inr ()"
| "rassert False = Inl AssertFail"

lemma rassert_Inr [simp]: "rassert b = Inr u \<longleftrightarrow> b"
  by (cases b) auto

section \<open>Blocks of memory\<close>

named_theorems mem_simps \<open>reading and writing blocks of memory\<close>

definition blit :: "'a list \<Rightarrow> nat \<Rightarrow> 'a list \<Rightarrow> 'a list" where
  "blit dst off src = take off dst @ src @ drop (off + length src) dst"

definition memcpy :: "'a list \<Rightarrow> nat \<Rightarrow> 'a list \<Rightarrow> nat \<Rightarrow> nat \<Rightarrow> 'a list res" where
  "memcpy dst doff src soff n =
     (if doff + n \<le> length dst \<and> soff + n \<le> length src
      then Inr (blit dst doff (take n (drop soff src)))
      else Inl OutOfBounds)"

definition store :: "'a list \<Rightarrow> nat \<Rightarrow> 'a \<Rightarrow> 'a list res" where
  "store dst i v = (if i < length dst then Inr (dst[i := v]) else Inl OutOfBounds)"

lemma length_blit [mem_simps]:
  "off + length src \<le> length dst \<Longrightarrow> length (blit dst off src) = length dst"
  by (simp add: blit_def)

lemma nth_blit [mem_simps]:
  assumes "off + length src \<le> length dst" "i < length dst"
  shows "blit dst off src ! i =
    (if off \<le> i \<and> i < off + length src then src ! (i - off) else dst ! i)"
  using assms by (auto simp: blit_def nth_append min_def)

lemma take_blit [mem_simps]:
  "off + length src \<le> length dst \<Longrightarrow> take off (blit dst off src) = take off dst"
  by (simp add: blit_def)

lemma take_blit_0 [mem_simps]: "take (length src) (blit dst 0 src) = src"
  by (simp add: blit_def)

lemma take_blit_append:
  "off + length src \<le> length dst \<Longrightarrow>
   take (off + length src) (blit dst off src) = take off dst @ src"
  by (simp add: blit_def)

lemma blit_blit_adjacent:
  assumes "off + length xs + length ys \<le> length dst"
  shows "blit (blit dst off xs) (off + length xs) ys = blit dst off (xs @ ys)"
  using assms by (simp add: blit_def ac_simps)

lemma memcpy_ok [mem_simps]:
  "doff + n \<le> length dst \<Longrightarrow> soff + n \<le> length src \<Longrightarrow>
   memcpy dst doff src soff n = Inr (blit dst doff (take n (drop soff src)))"
  by (simp add: memcpy_def)

text \<open>
  \<^verbatim>\<open>realloc\<close> keeps the old bytes; the new ones are whatever the allocator finds there,
  the function \<open>junk\<close>. Allocations succeed throughout the model.
\<close>

definition realloc :: "(nat \<Rightarrow> 'a) \<Rightarrow> 'a list \<Rightarrow> nat \<Rightarrow> 'a list" where
  "realloc junk b n = take n b @ map junk [length b..<n]"

lemma length_realloc [mem_simps]: "length (realloc junk b n) = n"
  by (simp add: realloc_def)

lemma take_realloc [mem_simps]: "k \<le> n \<Longrightarrow> k \<le> length b \<Longrightarrow> take k (realloc junk b n) = take k b"
  by (simp add: realloc_def min_def)

text \<open>A value of C's \<^verbatim>\<open>int\<close>.\<close>

definition i32_ok :: "int \<Rightarrow> bool" where
  "i32_ok x \<longleftrightarrow> -2147483648 \<le> x \<and> x \<le> 2147483647"

definition i32 :: "int \<Rightarrow> int res" where
  "i32 x = (if i32_ok x then Inr x else Inl IntOverflow)"

lemma i32_Inr [simp]: "i32 x = Inr y \<longleftrightarrow> i32_ok x \<and> y = x"
  by (auto simp: i32_def)

section \<open>The POSIX mutex\<close>

text \<open>
  A default (normal) mutex, as its one thread sees it: locking it while it is held never
  returns.
\<close>

definition mutex_lock :: "bool \<Rightarrow> bool res" where
  "mutex_lock held = (if held then Inl Deadlock else Inr True)"

definition mutex_unlock :: "bool \<Rightarrow> bool" where
  "mutex_unlock held = False"

lemma mutex_lock_simps [simp]:
  "mutex_lock False = Inr True" "mutex_lock True = Inl Deadlock"
  by (simp_all add: mutex_lock_def)

section \<open>Network byte order\<close>

text \<open>
  \<open>htons_bytes w\<close> are the two bytes in memory of \<^verbatim>\<open>htons(w)\<close>, high byte first;
  \<open>ntohs_bytes\<close> reads two such bytes, whatever the byte order of the host.
\<close>

definition htons_bytes :: "u16 \<Rightarrow> byte list" where
  "htons_bytes w = [of_nat (unat w div 256), of_nat (unat w mod 256)]"

definition ntohs_bytes :: "byte \<Rightarrow> byte \<Rightarrow> u16" where
  "ntohs_bytes hi lo = of_nat (unat hi * 256 + unat lo)"

lemma unat_u16_bound: "unat (w :: u16) < 65536"
  by (rule order_less_le_trans [OF unsigned_less]) simp

lemma unat_byte_bound: "unat (w :: byte) < 256"
  by (rule order_less_le_trans [OF unsigned_less]) simp

lemma unat_of_nat_u16: "n < 65536 \<Longrightarrow> unat (of_nat n :: u16) = n"
  by (simp add: unat_of_nat)

lemma unat_of_nat_byte: "n < 256 \<Longrightarrow> unat (of_nat n :: byte) = n"
  by (simp add: unat_of_nat)

lemma unat_ntohs_bytes: "unat (ntohs_bytes hi lo) = unat hi * 256 + unat lo"
proof -
  have "unat hi * 256 + unat lo < 65536"
    using unat_byte_bound [of hi] unat_byte_bound [of lo] by linarith
  then show ?thesis unfolding ntohs_bytes_def by (rule unat_of_nat_u16)
qed

lemma length_htons_bytes [simp]: "length (htons_bytes w) = 2"
  by (simp add: htons_bytes_def)

lemma ntohs_htons_bytes:
  "ntohs_bytes (htons_bytes w ! 0) (htons_bytes w ! 1) = w"
proof -
  have "unat w div 256 < 256" "unat w mod 256 < 256"
    using unat_u16_bound [of w] by auto
  then have "unat (ntohs_bytes (htons_bytes w ! 0) (htons_bytes w ! 1)) = unat w"
    by (simp add: unat_ntohs_bytes htons_bytes_def unat_of_nat_byte del: unat_of_nat)
  then show ?thesis by (simp add: word_unat_eq_iff)
qed

section \<open>Lists\<close>

lemma mod_wrap: "(a::nat) < s \<Longrightarrow> k \<le> s \<Longrightarrow> (a + k) mod s = (if a + k < s then a + k else a + k - s)"
  by (auto simp: mod_if)

lemma map_upt_add:
  "map f [0..<m + n] = map f [0..<m] @ map (\<lambda>i. f (m + i)) [0..<n]"
  by (induction n) simp_all

lemma map_nth_take: "n \<le> length xs \<Longrightarrow> map (\<lambda>i. xs ! i) [0..<n] = take n xs"
  by (rule nth_equalityI) auto

lemma takeWhile_stop: "d \<notin> set w \<Longrightarrow> takeWhile (\<lambda>c. c \<noteq> d) (w @ d # s) = w"
  by (induction w) auto

lemma dropWhile_stop: "d \<notin> set w \<Longrightarrow> dropWhile (\<lambda>c. c \<noteq> d) (w @ d # s) = d # s"
  by (induction w) auto

lemma replicate_snoc: "replicate n x @ [x] = replicate (Suc n) x"
  by (induction n) simp_all

end
