(* ===== verification/ByteBuffer.thy ===== *)
theory ByteBuffer
  imports Prelude
begin

text \<open>
  The circular byte buffer of \<^verbatim>\<open>ByteCircularBuffer.h\<close> and
  \<^verbatim>\<open>ByteCircularBuffer.cpp\<close>: one record for the struct and one definition per function,
  with 16-bit indices, the allocation results as inputs, and the mutex as a flag.
  \<open>contents\<close> is what the buffer holds, oldest byte first; the lemmas show that the buffer is
  a bounded first-in first-out queue of bytes, and the locale \<open>byte_fifo\<close> is the interface
  its clients rely on.
\<close>

section \<open>State and operations\<close>

record bcb =
  bcb_buffer :: "byte list"
  buffer_size :: u16
  front :: u16
  rear :: u16
  current_size :: u16
  lock :: bool

text \<open>\<open>ok1\<close> and \<open>ok2\<close> tell whether the two calls of \<^verbatim>\<open>calloc\<close> succeed.\<close>

definition BCBCreateNew :: "bool \<Rightarrow> bool \<Rightarrow> u16 \<Rightarrow> bcb option" where
  "BCBCreateNew ok1 ok2 n =
     (if \<not> ok1 then None
      else if \<not> ok2 then None
      else Some \<lparr>bcb_buffer = replicate (unat n) 0, buffer_size = n, front = 0, rear = 0,
                 current_size = 0, lock = False\<rparr>)"

definition BCBAvailableSize :: "bcb \<Rightarrow> u16" where
  "BCBAvailableSize b = buffer_size b - current_size b"

definition BCBIsFull :: "bcb \<Rightarrow> bool" where
  "BCBIsFull b \<longleftrightarrow> current_size b = buffer_size b"

definition BCBReset :: "bcb \<Rightarrow> bcb" where
  "BCBReset b = b\<lparr>current_size := 0, front := 0, rear := 0\<rparr>"

fun BCBWrite :: "bcb option \<Rightarrow> byte list option \<Rightarrow> u16 \<Rightarrow> (u16 \<times> bcb option) res" where
  "BCBWrite None d n = Inr (-1, None)"
| "BCBWrite (Some b) None n = Inr (-1, Some b)"
| "BCBWrite (Some b) (Some d) n =
     (if uint n > uint (buffer_size b) - uint (current_size b)
      then Inr (0, Some b)
      else
        rbind (mutex_lock (lock b)) (\<lambda>held.
        let space_till_end = buffer_size b - front b in
        rbind
          (if n \<le> space_till_end
           then memcpy (bcb_buffer b) (unat (front b)) d 0 (unat n)
           else rbind (memcpy (bcb_buffer b) (unat (front b)) d 0 (unat space_till_end))
             (\<lambda>buf. memcpy buf 0 d (unat space_till_end) (unat n - unat space_till_end)))
          (\<lambda>buf.
            if buffer_size b = 0 then Inl DivByZero
            else Inr (n, Some (b\<lparr>bcb_buffer := buf,
                   front := of_nat ((unat (front b) + unat n) mod unat (buffer_size b)),
                   current_size := current_size b + n,
                   lock := mutex_unlock held\<rparr>)))))"

text \<open>
  \<^verbatim>\<open>BCBRead\<close> locks first, and the early return on a short buffer or a null destination
  leaves the mutex locked. The result is the byte count, the buffer and the destination block.
\<close>

fun BCBRead :: "bcb option \<Rightarrow> byte list option \<Rightarrow> u16 \<Rightarrow> bool \<Rightarrow>
    (u16 \<times> bcb option \<times> byte list option) res" where
  "BCBRead None dst n remove_read_bytes = Inl NullDeref"
| "BCBRead (Some b) None n remove_read_bytes =
     rbind (mutex_lock (lock b)) (\<lambda>held. Inr (0, Some (b\<lparr>lock := held\<rparr>), None))"
| "BCBRead (Some b) (Some dst) n remove_read_bytes =
     rbind (mutex_lock (lock b)) (\<lambda>held.
     if n > current_size b then Inr (0, Some (b\<lparr>lock := held\<rparr>), Some dst)
     else
       let data_till_end = buffer_size b - rear b in
       rbind
         (if n \<le> data_till_end
          then memcpy dst 0 (bcb_buffer b) (unat (rear b)) (unat n)
          else rbind (memcpy dst 0 (bcb_buffer b) (unat (rear b)) (unat data_till_end))
            (\<lambda>out. memcpy out (unat data_till_end) (bcb_buffer b) 0
                     (unat n - unat data_till_end)))
         (\<lambda>out.
           if remove_read_bytes then
             if buffer_size b = 0 then Inl DivByZero
             else Inr (n, Some (b\<lparr>
                    rear := of_nat ((unat (rear b) + unat n) mod unat (buffer_size b)),
                    current_size := current_size b - n,
                    lock := mutex_unlock held\<rparr>), Some out)
           else Inr (n, Some (b\<lparr>lock := mutex_unlock held\<rparr>), Some out)))"

definition BCBFree :: "bcb option \<Rightarrow> bcb option" where
  "BCBFree b = None"

section \<open>Invariant and contents\<close>

definition bcb_inv :: "bcb \<Rightarrow> bool" where
  "bcb_inv b \<longleftrightarrow>
     length (bcb_buffer b) = unat (buffer_size b) \<and> 0 < unat (buffer_size b) \<and>
     unat (rear b) < unat (buffer_size b) \<and>
     unat (current_size b) \<le> unat (buffer_size b) \<and>
     unat (front b) = (unat (rear b) + unat (current_size b)) mod unat (buffer_size b)"

definition contents :: "bcb \<Rightarrow> byte list" where
  "contents b =
     map (\<lambda>i. bcb_buffer b ! ((unat (rear b) + i) mod unat (buffer_size b)))
       [0..<unat (current_size b)]"

lemma length_contents [simp]: "length (contents b) = unat (current_size b)"
  by (simp add: contents_def)

lemma contents_lock [simp]: "contents (b\<lparr>lock := l\<rparr>) = contents b"
  by (simp add: contents_def)

lemma bcb_inv_lock [simp]: "bcb_inv (b\<lparr>lock := l\<rparr>) = bcb_inv b"
  by (simp add: bcb_inv_def)

lemma bcb_inv_front: "bcb_inv b \<Longrightarrow> unat (front b) < unat (buffer_size b)"
  by (simp add: bcb_inv_def)

lemma unat_avail:
  "bcb_inv b \<Longrightarrow> unat (BCBAvailableSize b) = unat (buffer_size b) - unat (current_size b)"
  by (simp add: bcb_inv_def BCBAvailableSize_def unat_sub word_le_nat_alt)

section \<open>Writing\<close>

text \<open>Writing a run of bytes that may wrap around the end of the block.\<close>

definition cblit :: "byte list \<Rightarrow> nat \<Rightarrow> byte list \<Rightarrow> byte list" where
  "cblit buf f d =
     (let s = length buf - f in
      if length d \<le> s then blit buf f d else blit (blit buf f (take s d)) 0 (drop s d))"

lemma length_cblit [mem_simps]:
  "f < length buf \<Longrightarrow> length d \<le> length buf \<Longrightarrow> length (cblit buf f d) = length buf"
  by (auto simp: cblit_def Let_def length_blit)

lemma nth_cblit_new:
  assumes "f < length buf" "length d \<le> length buf" "k < length d"
  shows "cblit buf f d ! ((f + k) mod length buf) = d ! k"
proof (cases "length d \<le> length buf - f")
  case True
  with assms show ?thesis by (simp add: cblit_def nth_blit)
next
  case False
  show ?thesis
  proof (cases "f + k < length buf")
    case True
    with assms False show ?thesis by (auto simp: cblit_def Let_def nth_blit length_blit)
  next
    case wrap: False
    with assms have "(f + k) mod length buf = f + k - length buf" by (simp add: mod_wrap)
    with assms False wrap show ?thesis
      by (auto simp: cblit_def Let_def nth_blit length_blit)
  qed
qed

lemma nth_cblit_old:
  assumes "f < length buf" "length d \<le> k" "k < length buf"
  shows "cblit buf f d ! ((f + k) mod length buf) = buf ! ((f + k) mod length buf)"
proof (cases "length d \<le> length buf - f")
  case True
  with assms show ?thesis by (auto simp: cblit_def nth_blit mod_wrap)
next
  case False
  with assms have "(f + k) mod length buf = f + k - length buf" by (simp add: mod_wrap)
  with assms False show ?thesis by (auto simp: cblit_def Let_def nth_blit length_blit)
qed

lemma write_memcpy:
  assumes inv: "bcb_inv b" and len: "unat n \<le> length d"
    and fits: "unat n \<le> unat (buffer_size b)"
  shows "(if n \<le> buffer_size b - front b
       then memcpy (bcb_buffer b) (unat (front b)) d 0 (unat n)
       else rbind (memcpy (bcb_buffer b) (unat (front b)) d 0 (unat (buffer_size b - front b)))
         (\<lambda>buf. memcpy buf 0 d (unat (buffer_size b - front b))
                  (unat n - unat (buffer_size b - front b))))
     = Inr (cblit (bcb_buffer b) (unat (front b)) (take (unat n) d))"
proof -
  have f: "unat (front b) < unat (buffer_size b)" using inv by (rule bcb_inv_front)
  then have s: "unat (buffer_size b - front b) = unat (buffer_size b) - unat (front b)"
    by (simp add: unat_sub word_le_nat_alt)
  have l: "length (bcb_buffer b) = unat (buffer_size b)" using inv by (simp add: bcb_inv_def)
  show ?thesis
  proof (cases "unat n \<le> unat (buffer_size b) - unat (front b)")
    case True
    then show ?thesis
      using f len l by (simp add: word_le_nat_alt s cblit_def memcpy_ok)
  next
    case False
    let ?s = "unat (buffer_size b) - unat (front b)"
    have "length (blit (bcb_buffer b) (unat (front b)) (take ?s d)) = unat (buffer_size b)"
      using f len l False by (simp add: length_blit)
    then show ?thesis
      using f len l False fits
      by (simp add: word_le_nat_alt s cblit_def Let_def memcpy_ok min_def drop_take)
  qed
qed

lemma no_room_iff:
  "uint n > uint (s :: u16) - uint c \<longleftrightarrow> unat s < unat c + unat (n :: u16)"
  unfolding uint_nat by linarith

text \<open>The buffer after \<open>n\<close> bytes of \<open>d\<close> were appended.\<close>

definition written :: "bcb \<Rightarrow> byte list \<Rightarrow> u16 \<Rightarrow> bcb" where
  "written b d n = b\<lparr>bcb_buffer := cblit (bcb_buffer b) (unat (front b)) (take (unat n) d),
     front := of_nat ((unat (front b) + unat n) mod unat (buffer_size b)),
     current_size := current_size b + n, lock := False\<rparr>"

lemma BCBWrite_written:
  assumes "bcb_inv b" "\<not> lock b" "unat n \<le> length d"
    and "unat (current_size b) + unat n \<le> unat (buffer_size b)"
  shows "BCBWrite (Some b) (Some d) n = Inr (n, Some (written b d n))"
proof -
  have "buffer_size b \<noteq> 0" using assms(1) by (auto simp: bcb_inv_def)
  moreover have "unat n \<le> unat (buffer_size b)" using assms(4) by simp
  ultimately show ?thesis
    using assms
    by (simp add: no_room_iff write_memcpy written_def Let_def mutex_unlock_def not_less)
qed

lemma BCBWrite_full:
  assumes "unat (buffer_size b) < unat (current_size b) + unat n"
  shows "BCBWrite (Some b) (Some d) n = Inr (0, Some b)"
  using assms by (simp add: no_room_iff)

lemma unat_add_current:
  "unat (current_size b) + unat n \<le> unat (buffer_size b) \<Longrightarrow>
   unat (current_size b + n) = unat (current_size b) + unat n"
  using unat_u16_bound [of "buffer_size b"] by (simp add: unat_word_ariths)

lemma unat_mod_u16: "unat (of_nat (k mod unat (s :: u16)) :: u16) = (if s = 0 then k mod 65536 else k mod unat s)"
proof (cases "s = 0")
  case True
  then show ?thesis by (simp add: unat_of_nat)
next
  case False
  then have "0 < unat s" by (simp add: unat_gt_0)
  then have "k mod unat s < unat s" by simp
  then have "k mod unat s < 65536" using unat_u16_bound [of s] by linarith
  with False show ?thesis by (simp add: unat_of_nat)
qed

lemma written_inv:
  assumes "bcb_inv b" "unat n \<le> length d"
    and "unat (current_size b) + unat n \<le> unat (buffer_size b)"
  shows "bcb_inv (written b d n)"
proof -
  have "buffer_size b \<noteq> 0" using assms(1) by (auto simp: bcb_inv_def)
  moreover have "((unat (rear b) + unat (current_size b)) mod unat (buffer_size b) + unat n)
      mod unat (buffer_size b)
    = (unat (rear b) + (unat (current_size b) + unat n)) mod unat (buffer_size b)"
    by (simp add: mod_add_left_eq add.assoc)
  ultimately show ?thesis
    using assms bcb_inv_front [OF assms(1)]
    by (simp add: bcb_inv_def written_def length_cblit min_def unat_add_current unat_mod_u16)
qed

lemma written_contents:
  assumes "bcb_inv b" "unat n \<le> length d"
    and "unat (current_size b) + unat n \<le> unat (buffer_size b)"
  shows "contents (written b d n) = contents b @ take (unat n) d"
proof -
  let ?S = "unat (buffer_size b)" and ?r = "unat (rear b)" and ?c = "unat (current_size b)"
  let ?f = "unat (front b)" and ?d = "take (unat n) d"
  let ?buf = "cblit (bcb_buffer b) ?f ?d"
  have S: "length (bcb_buffer b) = ?S" and f: "?f = (?r + ?c) mod ?S"
    using assms(1) by (auto simp: bcb_inv_def)
  have fS: "?f < ?S" using assms(1) by (rule bcb_inv_front)
  have shift: "(?f + k) mod ?S = (?r + (?c + k)) mod ?S" for k
    unfolding f by (simp add: mod_add_left_eq add.assoc)
  have old: "?buf ! ((?r + i) mod ?S) = bcb_buffer b ! ((?r + i) mod ?S)" if "i < ?c" for i
  proof -
    have eq: "(?f + (?S - ?c + i)) mod ?S = (?r + i) mod ?S"
    proof -
      have "?c \<le> ?S" using assms(3) by simp
      then have "?r + (?c + (?S - ?c + i)) = ?r + i + ?S" by simp
      then show ?thesis by (simp only: shift mod_add_self2)
    qed
    have "length ?d \<le> ?S - ?c + i" "?S - ?c + i < ?S" using that assms(2,3) by auto
    then show ?thesis
      using nth_cblit_old [of ?f "bcb_buffer b" ?d "?S - ?c + i"] fS S
      by (simp only: S eq)
  qed
  have new: "?buf ! ((?r + (?c + k)) mod ?S) = d ! k" if "k < unat n" for k
    using nth_cblit_new [of ?f "bcb_buffer b" ?d k] fS S that assms(2,3)
    by (simp add: shift)
  have "contents (written b d n)
      = map (\<lambda>i. ?buf ! ((?r + i) mod ?S)) [0..<?c + unat n]"
    using assms(3) by (simp add: contents_def written_def unat_add_current)
  also have "\<dots> = map (\<lambda>i. ?buf ! ((?r + i) mod ?S)) [0..<?c]
      @ map (\<lambda>k. ?buf ! ((?r + (?c + k)) mod ?S)) [0..<unat n]"
    by (rule map_upt_add)
  also have "\<dots> = contents b @ map (\<lambda>k. d ! k) [0..<unat n]"
    using old new by (simp add: contents_def cong: map_cong)
  finally show ?thesis using assms(2) by (simp add: map_nth_take)
qed

section \<open>Reading\<close>

lemma nth_contents:
  "i < unat (current_size b) \<Longrightarrow>
   contents b ! i = bcb_buffer b ! ((unat (rear b) + i) mod unat (buffer_size b))"
  by (simp add: contents_def)

lemma take_contents:
  assumes "bcb_inv b" "n \<le> unat (current_size b)"
  shows "take n (contents b) =
    (let t = unat (buffer_size b) - unat (rear b) in
     if n \<le> t then take n (drop (unat (rear b)) (bcb_buffer b))
     else drop (unat (rear b)) (bcb_buffer b) @ take (n - t) (bcb_buffer b))"
proof -
  let ?S = "unat (buffer_size b)" and ?r = "unat (rear b)"
  have l: "length (bcb_buffer b) = ?S" "?r < ?S" "unat (current_size b) \<le> ?S"
    using assms(1) by (auto simp: bcb_inv_def)
  show ?thesis
  proof (cases "n \<le> ?S - ?r")
    case True
    then show ?thesis
      using assms(2) l by (auto simp: Let_def nth_contents intro!: nth_equalityI)
  next
    case False
    have "take n (contents b)
        = drop ?r (bcb_buffer b) @ take (n - (?S - ?r)) (bcb_buffer b)"
    proof (rule nth_equalityI)
      show "length (take n (contents b))
          = length (drop ?r (bcb_buffer b) @ take (n - (?S - ?r)) (bcb_buffer b))"
        using assms(2) l False by simp
      fix i assume "i < length (take n (contents b))"
      then have i: "i < n" "i < unat (current_size b)" using assms(2) by auto
      show "take n (contents b) ! i
          = (drop ?r (bcb_buffer b) @ take (n - (?S - ?r)) (bcb_buffer b)) ! i"
      proof (cases "?r + i < ?S")
        case True
        then have "i < ?S - ?r" by simp
        with True i l show ?thesis by (simp add: nth_contents nth_append)
      next
        case wrap: False
        then have "(?r + i) mod ?S = i - (?S - ?r)" using i l by (simp add: mod_wrap)
        with wrap i l show ?thesis by (auto simp: nth_contents nth_append)
      qed
    qed
    with False show ?thesis by (simp add: Let_def)
  qed
qed

lemma read_memcpy:
  assumes inv: "bcb_inv b" and n: "n \<le> current_size b" and room: "unat n \<le> length d"
  shows "(if n \<le> buffer_size b - rear b
       then memcpy d 0 (bcb_buffer b) (unat (rear b)) (unat n)
       else rbind (memcpy d 0 (bcb_buffer b) (unat (rear b)) (unat (buffer_size b - rear b)))
         (\<lambda>out. memcpy out (unat (buffer_size b - rear b)) (bcb_buffer b) 0
                  (unat n - unat (buffer_size b - rear b))))
     = Inr (blit d 0 (take (unat n) (contents b)))"
proof -
  have l: "length (bcb_buffer b) = unat (buffer_size b)" "unat (rear b) < unat (buffer_size b)"
      "unat (current_size b) \<le> unat (buffer_size b)"
    using inv by (auto simp: bcb_inv_def)
  have t: "unat (buffer_size b - rear b) = unat (buffer_size b) - unat (rear b)"
    using l by (simp add: unat_sub word_le_nat_alt)
  have nc: "unat n \<le> unat (current_size b)" using n by (simp add: word_le_nat_alt)
  show ?thesis
  proof (cases "unat n \<le> unat (buffer_size b) - unat (rear b)")
    case True
    then show ?thesis
      using l room nc by (simp add: word_le_nat_alt t take_contents [OF inv nc] memcpy_ok)
  next
    case False
    let ?t = "unat (buffer_size b) - unat (rear b)"
    let ?x = "drop (unat (rear b)) (bcb_buffer b)" and ?y = "take (unat n - ?t) (bcb_buffer b)"
    have "length ?x = ?t" "length ?y = unat n - ?t" using l False nc by auto
    moreover from this have "blit (blit d 0 ?x) ?t ?y = blit d 0 (?x @ ?y)"
      using blit_blit_adjacent [of 0 ?x ?y d] room False by simp
    moreover have "length (blit d 0 ?x) = length d"
      using l room False by (simp add: length_blit)
    ultimately show ?thesis
      using l room nc False
      by (simp add: word_le_nat_alt t take_contents [OF inv nc] memcpy_ok Let_def)
  qed
qed

definition consumed :: "bcb \<Rightarrow> u16 \<Rightarrow> bcb" where
  "consumed b n = b\<lparr>rear := of_nat ((unat (rear b) + unat n) mod unat (buffer_size b)),
     current_size := current_size b - n, lock := False\<rparr>"

lemma BCBRead_ok:
  assumes "bcb_inv b" "\<not> lock b" "n \<le> current_size b" "unat n \<le> length d"
  shows "BCBRead (Some b) (Some d) n rm =
    Inr (n, Some (if rm then consumed b n else b), Some (blit d 0 (take (unat n) (contents b))))"
proof -
  have "buffer_size b \<noteq> 0" using assms(1) by (auto simp: bcb_inv_def)
  moreover have "b\<lparr>lock := False\<rparr> = b" using assms(2) by (cases b) auto
  ultimately show ?thesis
    using assms(2) leD [OF assms(3)]
    by (cases rm) (simp_all add: Let_def consumed_def mutex_unlock_def
        read_memcpy [OF assms(1,3,4)] del: rbind_eq_Inr split del: if_split)
qed

lemma consumed_inv:
  assumes "bcb_inv b" "n \<le> current_size b"
  shows "bcb_inv (consumed b n)"
proof -
  have nz: "buffer_size b \<noteq> 0" using assms(1) by (auto simp: bcb_inv_def)
  have c: "unat (current_size b - n) = unat (current_size b) - unat n"
    and n: "unat n \<le> unat (current_size b)"
    using assms(2) by (simp_all add: unat_sub word_le_nat_alt)
  have "((unat (rear b) + unat n) mod unat (buffer_size b) + (unat (current_size b) - unat n))
      mod unat (buffer_size b)
    = (unat (rear b) + unat n + (unat (current_size b) - unat n)) mod unat (buffer_size b)"
    by (rule mod_add_left_eq)
  also have "\<dots> = (unat (rear b) + unat (current_size b)) mod unat (buffer_size b)"
    using n by simp
  finally have "((unat (rear b) + unat n) mod unat (buffer_size b)
      + (unat (current_size b) - unat n)) mod unat (buffer_size b)
    = (unat (rear b) + unat (current_size b)) mod unat (buffer_size b)" .
  then show ?thesis
    using assms(1) nz by (auto simp: bcb_inv_def consumed_def c unat_mod_u16)
qed

lemma consumed_contents:
  assumes "bcb_inv b" "n \<le> current_size b"
  shows "contents (consumed b n) = drop (unat n) (contents b)"
proof (rule nth_equalityI)
  have nz: "buffer_size b \<noteq> 0" using assms(1) by (auto simp: bcb_inv_def)
  have c: "unat (current_size b - n) = unat (current_size b) - unat n"
    using assms(2) by (simp add: unat_sub)
  then show "length (contents (consumed b n)) = length (drop (unat n) (contents b))"
    by (simp add: consumed_def)
  fix i assume "i < length (contents (consumed b n))"
  then have i: "i < unat (current_size b) - unat n" by (simp add: consumed_def c)
  have "((unat (rear b) + unat n) mod unat (buffer_size b) + i) mod unat (buffer_size b)
      = (unat (rear b) + (unat n + i)) mod unat (buffer_size b)"
    by (simp add: mod_add_left_eq add.assoc)
  with i nz show "contents (consumed b n) ! i = drop (unat n) (contents b) ! i"
    by (simp add: nth_contents consumed_def c unat_mod_u16 )
qed

lemma BCBRead_short:
  assumes "\<not> lock b" "current_size b < n"
  shows "BCBRead (Some b) dst n rm = Inr (0, Some (b\<lparr>lock := True\<rparr>), dst)"
  using assms by (cases dst) simp_all

declare BCBWrite.simps(3) [simp del] BCBRead.simps(3) [simp del]

section \<open>The interface of a byte queue\<close>

text \<open>
  What the message demarcators rely on: a bounded queue of bytes whose writes append and whose
  reads take from the front. \<open>put\<close> and \<open>get\<close> have the signatures of
  \<^verbatim>\<open>BCBWrite\<close> and \<^verbatim>\<open>BCBRead\<close> on buffers that exist.
\<close>

locale byte_fifo =
  fixes ok :: "'q \<Rightarrow> bool"
    and cap :: "'q \<Rightarrow> nat"
    and avail :: "'q \<Rightarrow> u16"
    and queue :: "'q \<Rightarrow> byte list"
    and put :: "'q \<Rightarrow> byte list \<Rightarrow> u16 \<Rightarrow> (u16 \<times> 'q option) res"
    and get :: "'q \<Rightarrow> byte list \<Rightarrow> u16 \<Rightarrow> bool \<Rightarrow> (u16 \<times> 'q option \<times> byte list option) res"
  assumes queue_cap: "ok q \<Longrightarrow> length (queue q) \<le> cap q"
    and avail_room: "ok q \<Longrightarrow> unat (avail q) = cap q - length (queue q)"
    and put_fits: "ok q \<Longrightarrow> unat n \<le> length d \<Longrightarrow> length (queue q) + unat n \<le> cap q \<Longrightarrow>
      \<exists>q'. put q d n = Inr (n, Some q') \<and> ok q' \<and> cap q' = cap q \<and>
           queue q' = queue q @ take (unat n) d"
    and put_full: "ok q \<Longrightarrow> cap q < length (queue q) + unat n \<Longrightarrow> put q d n = Inr (0, Some q)"
    and get_some: "ok q \<Longrightarrow> unat n \<le> length (queue q) \<Longrightarrow> unat n \<le> length d \<Longrightarrow>
      \<exists>q'. get q d n rm = Inr (n, Some q', Some (blit d 0 (take (unat n) (queue q)))) \<and>
           ok q' \<and> cap q' = cap q \<and>
           queue q' = (if rm then drop (unat n) (queue q) else queue q)"
begin

text \<open>What is written to an empty queue is read back, and the queue is empty again.\<close>

lemma put_get_roundtrip:
  assumes "ok q" "queue q = []" "length d = unat n" "unat n \<le> cap q" "unat n \<le> length out"
  shows "\<exists>q1 q2. put q d n = Inr (n, Some q1) \<and>
    get q1 out n True = Inr (n, Some q2, Some (blit out 0 d)) \<and> ok q2 \<and> queue q2 = []"
proof -
  obtain q1 where q1: "put q d n = Inr (n, Some q1)" "ok q1" "queue q1 = d"
    using put_fits [of q n d] assms by auto
  then show ?thesis using get_some [of q1 n out True] assms by auto
qed

text \<open>A read without removal changes neither the queue nor what the next read returns.\<close>

lemma peek_then_get:
  assumes "ok q" "unat n \<le> length (queue q)" "unat n \<le> length d" "unat n \<le> length e"
  shows "\<exists>q1 q2. get q d n False = Inr (n, Some q1, Some (blit d 0 (take (unat n) (queue q)))) \<and>
    get q1 e n True = Inr (n, Some q2, Some (blit e 0 (take (unat n) (queue q)))) \<and>
    ok q2 \<and> queue q2 = drop (unat n) (queue q)"
proof -
  obtain q1 where q1: "get q d n False = Inr (n, Some q1, Some (blit d 0 (take (unat n) (queue q))))"
      "ok q1" "queue q1 = queue q"
    using get_some [of q n d False] assms by auto
  then show ?thesis using get_some [of q1 n e True] assms by auto
qed

text \<open>Reading the two header bytes into a 16-bit variable.\<close>

lemma get_header:
  assumes "ok q" "queue q = h # l # rest"
  shows "\<exists>q'. get q [x, y] 2 rm = Inr (2, Some q', Some [h, l]) \<and> ok q' \<and> cap q' = cap q \<and>
    queue q' = (if rm then rest else h # l # rest)"
  using get_some [of q 2 "[x, y]" rm] assms by (auto simp: blit_def)

lemma get_empties:
  assumes "ok q" "unat n = length (queue q)" "unat n \<le> length d"
  shows "\<exists>q'. get q d n True = Inr (n, Some q', Some (blit d 0 (queue q))) \<and> ok q' \<and> queue q' = []"
  using get_some [of q n d True] assms by auto

end

definition bcb_ok :: "bcb \<Rightarrow> bool" where
  "bcb_ok b \<longleftrightarrow> bcb_inv b \<and> \<not> lock b"

lemma bcb_inv_length_le: "bcb_inv b \<Longrightarrow> unat (current_size b) \<le> unat (buffer_size b)"
  by (simp add: bcb_inv_def)

lemma written_frame [simp]: "buffer_size (written b d n) = buffer_size b" "lock (written b d n) = False"
  by (simp_all add: written_def)

lemma consumed_frame [simp]: "buffer_size (consumed b n) = buffer_size b" "lock (consumed b n) = False"
  by (simp_all add: consumed_def)

interpretation bq: byte_fifo bcb_ok "\<lambda>b. unat (buffer_size b)" BCBAvailableSize contents
  "\<lambda>b d n. BCBWrite (Some b) (Some d) n" "\<lambda>b d n rm. BCBRead (Some b) (Some d) n rm"
proof unfold_locales
  fix b :: bcb and d :: "byte list" and n :: u16 and rm :: bool
  assume ok: "bcb_ok b"
  show "length (contents b) \<le> unat (buffer_size b)"
    using ok by (simp add: bcb_ok_def bcb_inv_length_le)
  show "unat (BCBAvailableSize b) = unat (buffer_size b) - length (contents b)"
    using ok by (simp add: bcb_ok_def unat_avail)
  show "\<exists>b'. BCBWrite (Some b) (Some d) n = Inr (n, Some b') \<and> bcb_ok b' \<and>
      unat (buffer_size b') = unat (buffer_size b) \<and>
      contents b' = contents b @ take (unat n) d"
    if "unat n \<le> length d" "length (contents b) + unat n \<le> unat (buffer_size b)"
    using ok that by (intro exI [of _ "written b d n"])
      (simp add: bcb_ok_def BCBWrite_written written_inv written_contents)
  show "BCBWrite (Some b) (Some d) n = Inr (0, Some b)"
    if "unat (buffer_size b) < length (contents b) + unat n"
    using that by (simp add: BCBWrite_full)
  show "\<exists>b'. BCBRead (Some b) (Some d) n rm
        = Inr (n, Some b', Some (blit d 0 (take (unat n) (contents b)))) \<and>
      bcb_ok b' \<and> unat (buffer_size b') = unat (buffer_size b) \<and>
      contents b' = (if rm then drop (unat n) (contents b) else contents b)"
    if "unat n \<le> length (contents b)" "unat n \<le> length d"
  proof -
    have n: "n \<le> current_size b" using that by (simp add: word_le_nat_alt)
    show ?thesis
      using ok that n
      by (intro exI [of _ "if rm then consumed b n else b"])
        (simp add: bcb_ok_def BCBRead_ok consumed_inv consumed_contents)
  qed
qed

lemma BCBCreateNew_ok:
  "BCBCreateNew ok1 ok2 n = Some b \<Longrightarrow> n \<noteq> 0 \<Longrightarrow>
   bcb_ok b \<and> buffer_size b = n \<and> contents b = []"
  by (auto simp: BCBCreateNew_def bcb_ok_def bcb_inv_def contents_def unat_gt_0
      split: if_splits)

section \<open>Running a sequence of operations\<close>

text \<open>
  A client that writes blocks and reads into a block of the size it asks for, on the ring and on
  its specification, a bounded queue of bytes. A read of more than the queue holds has no outcome
  in the specification.
\<close>

datatype ring_op = Put "byte list" | Get u16 bool

datatype ring_out = Stored u16 | Got "byte list"

fun ring_run :: "bcb \<Rightarrow> ring_op list \<Rightarrow> (ring_out list \<times> bcb) res" where
  "ring_run b [] = Inr ([], b)"
| "ring_run b (Put d # ops) =
     rbind (BCBWrite (Some b) (Some d) (of_nat (length d))) (\<lambda>(n, bo).
       case bo of None \<Rightarrow> Inl NullDeref
       | Some b \<Rightarrow> rbind (ring_run b ops) (\<lambda>(outs, b). Inr (Stored n # outs, b)))"
| "ring_run b (Get n rm # ops) =
     rbind (BCBRead (Some b) (Some (replicate (unat n) 0)) n rm) (\<lambda>(r, bo, dst).
       case (bo, dst) of
         (Some b, Some out) \<Rightarrow> rbind (ring_run b ops) (\<lambda>(outs, b). Inr (Got out # outs, b))
       | _ \<Rightarrow> Inl NullDeref)"

fun fifo_run :: "nat \<Rightarrow> byte list \<Rightarrow> ring_op list \<Rightarrow> (ring_out list \<times> byte list) option" where
  "fifo_run cap q [] = Some ([], q)"
| "fifo_run cap q (Put d # ops) =
     (if length q + length d \<le> cap
      then map_option (\<lambda>(outs, q). (Stored (of_nat (length d)) # outs, q)) (fifo_run cap (q @ d) ops)
      else map_option (\<lambda>(outs, q). (Stored 0 # outs, q)) (fifo_run cap q ops))"
| "fifo_run cap q (Get n rm # ops) =
     (if unat n \<le> length q
      then map_option (\<lambda>(outs, q'). (Got (take (unat n) q) # outs, q'))
             (fifo_run cap (if rm then drop (unat n) q else q) ops)
      else None)"

lemma ring_run_refines:
  "bcb_ok b \<Longrightarrow> \<forall>d. Put d \<in> set ops \<longrightarrow> length d < 65536 \<Longrightarrow>
   fifo_run (unat (buffer_size b)) (contents b) ops = Some (outs, q) \<Longrightarrow>
   \<exists>b'. ring_run b ops = Inr (outs, b') \<and> bcb_ok b' \<and> contents b' = q"
proof (induction ops arbitrary: b outs)
  case (Cons op ops)
  show ?case
  proof (cases op)
    case (Put d)
    then have n: "unat (of_nat (length d) :: u16) = length d"
      using Cons.prems(2) by (simp add: unat_of_nat_u16 del: unat_of_nat)
    show ?thesis
    proof (cases "length (contents b) + length d \<le> unat (buffer_size b)")
      case True
      then obtain b1 where b1: "BCBWrite (Some b) (Some d) (of_nat (length d)) = Inr (of_nat (length d), Some b1)"
          "bcb_ok b1" "unat (buffer_size b1) = unat (buffer_size b)" "contents b1 = contents b @ d"
        using bq.put_fits [OF Cons.prems(1), of "of_nat (length d)" d] n by auto
      from Cons.prems(3) True Put b1 obtain os where os: "outs = Stored (of_nat (length d)) # os"
          "fifo_run (unat (buffer_size b1)) (contents b1) ops = Some (os, q)" by auto
      with Cons.IH [OF b1(2) _ os(2)] Cons.prems(2) Put b1(1) show ?thesis by auto
    next
      case False
      with bq.put_full [OF Cons.prems(1), of "of_nat (length d)" d] n
      have w: "BCBWrite (Some b) (Some d) (of_nat (length d)) = Inr (0, Some b)" by simp
      from Cons.prems(3) False Put obtain os where os: "outs = Stored 0 # os"
          "fifo_run (unat (buffer_size b)) (contents b) ops = Some (os, q)" by auto
      with Cons.IH [OF Cons.prems(1) _ os(2)] Cons.prems(2) Put w show ?thesis by auto
    qed
  next
    case (Get n rm)
    with Cons.prems(3) have le: "unat n \<le> length (contents b)" by (auto split: if_splits)
    obtain b1 where b1: "BCBRead (Some b) (Some (replicate (unat n) 0)) n rm
          = Inr (n, Some b1, Some (blit (replicate (unat n) 0) 0 (take (unat n) (contents b))))"
        "bcb_ok b1" "unat (buffer_size b1) = unat (buffer_size b)"
        "contents b1 = (if rm then drop (unat n) (contents b) else contents b)"
      using bq.get_some [OF Cons.prems(1) le, of "replicate (unat n) 0" rm] by auto
    have out: "blit (replicate (unat n) 0) 0 (take (unat n) (contents b)) = take (unat n) (contents b)"
      using le by (simp add: blit_def)
    from Cons.prems(3) le Get b1 obtain os where os: "outs = Got (take (unat n) (contents b)) # os"
        "fifo_run (unat (buffer_size b1)) (contents b1) ops = Some (os, q)" by auto
    with Cons.IH [OF b1(2) _ os(2)] Cons.prems(2) Get b1(1) out show ?thesis by auto
  qed
qed simp

end
