(* ===== verification/Demarcar.thy ===== *)
theory Demarcar
  imports ByteBuffer
begin

text \<open>
  The message demarcators (\<^verbatim>\<open>TcpMsgDemarcar\<close>, \<^verbatim>\<open>TcpMsgFixedSizeDemarcar\<close>,
  \<^verbatim>\<open>TcpMsgVariabSizeDemarcar\<close>) that cut the byte stream of a connection into messages,
  and the framing a client puts on the wire (\<^verbatim>\<open>send_msg\<close>).

  The class hierarchy is the datatype \<open>demarcar_class\<close>: the virtual methods branch on it.
  The application callback \<^verbatim>\<open>client_msg_recvd\<close> is a pointer that may not be set yet
  (\<open>cb\<close>); a call of it is recorded as the message it was given. A loop of the source that
  need not end is a \<^theory_text>\<open>partial_function\<close>: \<open>None\<close> is a loop that never ends.
\<close>

section \<open>State\<close>

datatype demarcar_class = FixedSize u16 | VariabSize

record demarcar =
  dm_class :: demarcar_class
  dm_bcb :: "bcb option"
  dm_buffer :: "byte list option"

definition DEFAULT_CBC_SIZE :: u16 where
  "DEFAULT_CBC_SIZE = 256"

definition MAX_CLIENT_BUFFER_SIZE :: nat where
  "MAX_CLIENT_BUFFER_SIZE = 8192"

definition HDR_MSG_SIZE :: u16 where
  "HDR_MSG_SIZE = 2"

lemmas dm_consts [simp] = DEFAULT_CBC_SIZE_def MAX_CLIENT_BUFFER_SIZE_def HDR_MSG_SIZE_def

text \<open>The constructor: \<open>ok1 ok2 ok3\<close> are the results of its three allocations.\<close>

definition TcpMsgDemarcar :: "bool \<Rightarrow> bool \<Rightarrow> bool \<Rightarrow> demarcar_class \<Rightarrow> u16 \<Rightarrow> demarcar" where
  "TcpMsgDemarcar ok1 ok2 ok3 c circular_buffer_len =
     \<lparr>dm_class = c, dm_bcb = BCBCreateNew ok1 ok2 circular_buffer_len,
      dm_buffer = (if ok3 then Some (replicate MAX_CLIENT_BUFFER_SIZE 0) else None)\<rparr>"

definition TcpMsgFixedSizeDemarcar :: "bool \<Rightarrow> bool \<Rightarrow> bool \<Rightarrow> u16 \<Rightarrow> demarcar" where
  "TcpMsgFixedSizeDemarcar ok1 ok2 ok3 n =
     TcpMsgDemarcar ok1 ok2 ok3 (FixedSize n) DEFAULT_CBC_SIZE"

definition TcpMsgVariabSizeDemarcar :: "bool \<Rightarrow> bool \<Rightarrow> bool \<Rightarrow> demarcar" where
  "TcpMsgVariabSizeDemarcar ok1 ok2 ok3 =
     TcpMsgDemarcar ok1 ok2 ok3 VariabSize DEFAULT_CBC_SIZE"

definition Destroy :: "demarcar \<Rightarrow> demarcar" where
  "Destroy d = d\<lparr>dm_bcb := BCBFree (dm_bcb d), dm_buffer := None\<rparr>"

text \<open>The destructor of the base class asserts that \<^verbatim>\<open>Destroy\<close> was called.\<close>

definition demarcar_destructor :: "demarcar \<Rightarrow> unit res" where
  "demarcar_destructor d =
     rbind (rassert (dm_bcb d = None)) (\<lambda>_. rassert (dm_buffer d = None))"

definition CanAcceptMoreData :: "demarcar \<Rightarrow> bool res" where
  "CanAcceptMoreData d =
     (case dm_bcb d of None \<Rightarrow> Inl NullDeref
      | Some b \<Rightarrow> Inr (0 < BCBAvailableSize b))"

section \<open>Is a message complete?\<close>

text \<open>
  \<^verbatim>\<open>msg_len_net\<close> is an uninitialised local of two bytes; the read before its use is only
  made when the buffer holds a header, and then overwrites it.
\<close>

definition fixed_IsBufferReadyToFlush :: "u16 \<Rightarrow> demarcar \<Rightarrow> (bool \<times> demarcar) res" where
  "fixed_IsBufferReadyToFlush msg_fixed_size d =
     (case dm_bcb d of None \<Rightarrow> Inl NullDeref
      | Some b \<Rightarrow>
          if msg_fixed_size = 0 then Inl DivByZero
          else Inr (0 < unat (current_size b) div unat msg_fixed_size, d))"

definition variab_IsBufferReadyToFlush :: "demarcar \<Rightarrow> (bool \<times> demarcar) res" where
  "variab_IsBufferReadyToFlush d =
     (case dm_bcb d of None \<Rightarrow> Inl NullDeref
      | Some b \<Rightarrow>
          if current_size b < HDR_MSG_SIZE then Inr (False, d)
          else rbind (BCBRead (Some b) (Some [0, 0]) 2 False) (\<lambda>(r, b', hdr).
            case hdr of
              Some [h, l] \<Rightarrow>
                (let msg_len = ntohs_bytes h l in
                 Inr (\<not> unat (current_size b) < 2 + unat msg_len, d\<lparr>dm_bcb := b'\<rparr>))
            | _ \<Rightarrow> Inl OutOfBounds))"

text \<open>The virtual call.\<close>

definition IsBufferReadyToFlush :: "demarcar \<Rightarrow> (bool \<times> demarcar) res" where
  "IsBufferReadyToFlush d =
     (case dm_class d of
        FixedSize m \<Rightarrow> fixed_IsBufferReadyToFlush m d
      | VariabSize \<Rightarrow> variab_IsBufferReadyToFlush d)"

lemmas flush_defs =
  IsBufferReadyToFlush_def fixed_IsBufferReadyToFlush_def variab_IsBufferReadyToFlush_def

section \<open>Handing messages to the application\<close>

text \<open>
  One message: the flush buffer gets the terminating zero byte, then the callback gets the
  flush buffer and the count, that is the first \<open>n\<close> bytes.
\<close>

definition client_msg_recvd :: "bool \<Rightarrow> demarcar \<Rightarrow> u16 \<Rightarrow> (demarcar \<times> byte list) res" where
  "client_msg_recvd cb d n =
     (case dm_buffer d of None \<Rightarrow> Inl NullDeref
      | Some buf \<Rightarrow>
        rbind (store buf (unat n) 0) (\<lambda>buf.
          if cb then Inr (d\<lparr>dm_buffer := Some buf\<rparr>, take (unat n) buf) else Inl NullDeref))"

text \<open>The body of the loop of the variable-size demarcator: header, payload, callback.\<close>

definition variab_flush_one :: "bool \<Rightarrow> demarcar \<Rightarrow> (demarcar \<times> byte list) res" where
  "variab_flush_one cb d =
     rbind (BCBRead (dm_bcb d) (Some [0, 0]) HDR_MSG_SIZE True) (\<lambda>(r, b1, hdr).
     case hdr of
       Some [h, l] \<Rightarrow>
         (let msg_len = ntohs_bytes h l in
          rbind (BCBRead b1 (dm_buffer d) msg_len True) (\<lambda>(bytes_read, b2, buf).
            client_msg_recvd cb (d\<lparr>dm_bcb := b2, dm_buffer := buf\<rparr>) bytes_read))
     | _ \<Rightarrow> Inl OutOfBounds)"

partial_function (option) variab_loop ::
  "bool \<Rightarrow> demarcar \<Rightarrow> byte list list \<Rightarrow> (demarcar \<times> byte list list) res option" where [code]:
  "variab_loop cb d out =
     (case IsBufferReadyToFlush d of
        Inl e \<Rightarrow> Some (Inl e)
      | Inr (ready, d1) \<Rightarrow>
          if \<not> ready then Some (Inr (d1, out))
          else (case variab_flush_one cb d1 of
                  Inl e \<Rightarrow> Some (Inl e)
                | Inr (d2, m) \<Rightarrow> variab_loop cb d2 (out @ [m])))"

partial_function (option) fixed_loop ::
  "bool \<Rightarrow> u16 \<Rightarrow> demarcar \<Rightarrow> byte list list \<Rightarrow> (demarcar \<times> byte list list) res option" where [code]:
  "fixed_loop cb m d out =
     (case BCBRead (dm_bcb d) (dm_buffer d) m True of
        Inl e \<Rightarrow> Some (Inl e)
      | Inr (bytes_read, b, buf) \<Rightarrow>
          if bytes_read = 0 then Some (Inr (d\<lparr>dm_bcb := b, dm_buffer := buf\<rparr>, out))
          else (case client_msg_recvd cb (d\<lparr>dm_bcb := b, dm_buffer := buf\<rparr>) bytes_read of
                  Inl e \<Rightarrow> Some (Inl e)
                | Inr (d2, msg) \<Rightarrow> fixed_loop cb m d2 (out @ [msg])))"

definition variab_ProcessClientMsg :: "bool \<Rightarrow> demarcar \<Rightarrow> (demarcar \<times> byte list list) res option" where
  "variab_ProcessClientMsg cb d = variab_loop cb d []"

definition fixed_ProcessClientMsg ::
  "bool \<Rightarrow> u16 \<Rightarrow> demarcar \<Rightarrow> (demarcar \<times> byte list list) res option" where
  "fixed_ProcessClientMsg cb msg_fixed_size d =
     (case IsBufferReadyToFlush d of
        Inl e \<Rightarrow> Some (Inl e)
      | Inr (ready, d1) \<Rightarrow>
          if \<not> ready then Some (Inr (d1, [])) else fixed_loop cb msg_fixed_size d1 [])"

text \<open>The virtual call.\<close>

definition ProcessClientMsg :: "bool \<Rightarrow> demarcar \<Rightarrow> (demarcar \<times> byte list list) res option" where
  "ProcessClientMsg cb d =
     (case dm_class d of
        FixedSize m \<Rightarrow> fixed_ProcessClientMsg cb m d
      | VariabSize \<Rightarrow> variab_ProcessClientMsg cb d)"

lemmas process_defs =
  ProcessClientMsg_def fixed_ProcessClientMsg_def variab_ProcessClientMsg_def

section \<open>Receiving bytes\<close>

text \<open>
  The loop of \<^verbatim>\<open>TcpMsgDemarcar::ProcessMsg\<close> with the pointer \<^verbatim>\<open>ptr\<close> as the
  rest of the received bytes. It returns early, without looking for messages, when the buffer
  is full; \<open>True\<close> in the result says that the loop ran to its end.
\<close>

partial_function (option) feed_loop ::
  "demarcar \<Rightarrow> byte list \<Rightarrow> u16 \<Rightarrow> (bool \<times> demarcar) res option" where [code]:
  "feed_loop d ptr remaining =
     (if remaining = 0 then Some (Inr (True, d))
      else (case dm_bcb d of
              None \<Rightarrow> Some (Inl NullDeref)
            | Some b \<Rightarrow>
                let space = BCBAvailableSize b in
                if space = 0 then Some (Inr (False, d))
                else
                  let to_write = (if remaining < space then remaining else space) in
                  (case BCBWrite (Some b) (Some ptr) to_write of
                     Inl e \<Rightarrow> Some (Inl e)
                   | Inr (n, b') \<Rightarrow>
                       feed_loop (d\<lparr>dm_bcb := b'\<rparr>) (drop (unat n) ptr) (remaining - n))))"

definition ProcessMsg ::
  "bool \<Rightarrow> demarcar \<Rightarrow> byte list \<Rightarrow> u16 \<Rightarrow> (demarcar \<times> byte list list) res option" where
  "ProcessMsg cb d msg_recvd msg_size =
     (case feed_loop d msg_recvd msg_size of
        None \<Rightarrow> None
      | Some (Inl e) \<Rightarrow> Some (Inl e)
      | Some (Inr (done_all, d1)) \<Rightarrow>
          if done_all then ProcessClientMsg cb d1 else Some (Inr (d1, [])))"

section \<open>The sender's framing\<close>

text \<open>
  \<^verbatim>\<open>send_msg\<close>: the total length is computed in 16 bits, and it sizes the block the
  header and the payload are copied to. The result is what is handed to \<^verbatim>\<open>send\<close>;
  \<open>ok\<close> is the result of \<^verbatim>\<open>malloc\<close>.
\<close>

definition send_msg :: "bool \<Rightarrow> byte list \<Rightarrow> u16 \<Rightarrow> byte list res" where
  "send_msg ok payload payload_len =
     (let total_len = 2 + payload_len in
      if \<not> ok then Inl NullDeref
      else rbind (memcpy (replicate (unat total_len) 0) 0 (htons_bytes payload_len) 0 2)
        (\<lambda>send_buf. memcpy send_buf 2 payload 0 (unat payload_len)))"

end
