(* ===== verification/TcpClient.thy ===== *)
theory TcpClient
  imports Demarcar
begin

unbundle bit_operations_syntax

text \<open>
  One connection: the class \<^verbatim>\<open>TcpClient\<close> and the flag words that the client and the
  controller keep. A heap maps addresses to the client objects that are alive; an address that
  is not mapped was freed, and using it is the fault \<open>UseAfterFree\<close>.
\<close>

section \<open>Flag words\<close>

definition flag_set :: "u32 \<Rightarrow> u32 \<Rightarrow> u32" where
  "flag_set w b = w OR b"

definition flag_unset :: "u32 \<Rightarrow> u32 \<Rightarrow> u32" where
  "flag_unset w b = w AND NOT b"

definition flag_is_set :: "u32 \<Rightarrow> u32 \<Rightarrow> bool" where
  "flag_is_set w b \<longleftrightarrow> w AND b \<noteq> 0"

named_theorems flag_simps \<open>setting and testing flag bits\<close>

lemma flag_is_set_set [flag_simps]:
  "flag_is_set (flag_set w b) c \<longleftrightarrow> flag_is_set w c \<or> b AND c \<noteq> 0"
  by (auto simp: flag_is_set_def flag_set_def word_ao_dist or_eq_0_iff)

lemma flag_is_set_unset_same [flag_simps]: "\<not> flag_is_set (flag_unset w b) b"
  by (simp add: flag_is_set_def flag_unset_def word_bw_assocs)

lemma flag_is_set_unset_other [flag_simps]:
  "b AND c = 0 \<Longrightarrow> flag_is_set (flag_unset w b) c = flag_is_set w c"
proof -
  assume bc: "b AND c = 0"
  have "c = (b OR NOT b) AND c" by simp
  also have "\<dots> = (b AND c) OR (NOT b AND c)" by (simp only: word_ao_dist)
  finally have "NOT b AND c = c" using bc by simp
  then have "(w AND NOT b) AND c = w AND c" by (simp only: and.assoc)
  then show ?thesis by (simp add: flag_is_set_def flag_unset_def)
qed

lemma flag_is_set_0 [flag_simps]: "\<not> flag_is_set 0 b"
  by (simp add: flag_is_set_def)

section \<open>Client objects\<close>

type_synonym addr = nat

text \<open>
  The pointer to the demarcator. \<open>WildMsgd\<close> is a value that was never set and is not null:
  whatever it points to, it is not a demarcator of this client, and using it is the fault
  \<open>Uninitialised\<close>.
\<close>

datatype msgd_ptr = NullMsgd | WildMsgd | Msgd demarcar

definition msgd_left :: "msgd_ptr \<Rightarrow> msgd_ptr" where
  "msgd_left p = (case p of Msgd d \<Rightarrow> WildMsgd | _ \<Rightarrow> p)"

record tcp_client =
  cl_ip_addr :: u32
  cl_port_no :: u16
  cl_server_ip_addr :: u32
  cl_server_port_no :: u32
  cl_state_flags :: u32
  comm_fd :: int
  cl_tcp_ctrlr :: bool
  msgd :: msgd_ptr

definition TCP_CLIENT_STATE_CONNECT_IN_PROGRESS :: u32 where "TCP_CLIENT_STATE_CONNECT_IN_PROGRESS = 1"
definition TCP_CLIENT_STATE_CONNECTED :: u32 where "TCP_CLIENT_STATE_CONNECTED = 2"
definition TCP_CLIENT_STATE_PASSIVE_OPENER :: u32 where "TCP_CLIENT_STATE_PASSIVE_OPENER = 8"
definition TCP_CLIENT_STATE_ACTIVE_OPENER :: u32 where "TCP_CLIENT_STATE_ACTIVE_OPENER = 16"
definition TCP_CLIENT_STATE_MULTIPLEX_LISTEN :: u32 where "TCP_CLIENT_STATE_MULTIPLEX_LISTEN = 32"
definition TCP_CLIENT_STATE_THREADED :: u32 where "TCP_CLIENT_STATE_THREADED = 64"

lemmas client_state_defs =
  TCP_CLIENT_STATE_CONNECT_IN_PROGRESS_def TCP_CLIENT_STATE_CONNECTED_def
  TCP_CLIENT_STATE_PASSIVE_OPENER_def TCP_CLIENT_STATE_ACTIVE_OPENER_def
  TCP_CLIENT_STATE_MULTIPLEX_LISTEN_def TCP_CLIENT_STATE_THREADED_def

text \<open>
  The constructor sets three fields; the others keep what the memory held before (\<open>junk\<close>). A
  pointer that the memory held is not a demarcator of the new object: it is null or wild.
\<close>

definition TcpClient_new :: "tcp_client \<Rightarrow> u32 \<Rightarrow> u16 \<Rightarrow> tcp_client" where
  "TcpClient_new junk ip port =
     junk\<lparr>cl_ip_addr := ip, cl_port_no := port, cl_state_flags := 0, msgd := msgd_left (msgd junk)\<rparr>"

definition SetState :: "u32 \<Rightarrow> tcp_client \<Rightarrow> tcp_client" where
  "SetState b c = c\<lparr>cl_state_flags := flag_set (cl_state_flags c) b\<rparr>"

definition UnSetState :: "u32 \<Rightarrow> tcp_client \<Rightarrow> tcp_client" where
  "UnSetState b c = c\<lparr>cl_state_flags := flag_unset (cl_state_flags c) b\<rparr>"

definition IsStateSet :: "u32 \<Rightarrow> tcp_client \<Rightarrow> bool" where
  "IsStateSet b c = flag_is_set (cl_state_flags c) b"

lemma SetState_msgd [simp]: "msgd (SetState b c) = msgd c"
  by (simp add: SetState_def)

lemma TcpClient_new_msgd [simp]: "msgd (TcpClient_new junk ip port) \<noteq> Msgd d"
  by (simp add: TcpClient_new_def msgd_left_def split: msgd_ptr.split)

text \<open>The flags \<^verbatim>\<open>TcpClient::Display\<close> prints, in its order.\<close>

definition client_flag_lines :: "tcp_client \<Rightarrow> string list" where
  "client_flag_lines c =
     (if IsStateSet TCP_CLIENT_STATE_ACTIVE_OPENER c then [''TCP_CLIENT_STATE_ACTIVE_OPENER''] else [])
   @ (if IsStateSet TCP_CLIENT_STATE_CONNECT_IN_PROGRESS c
      then [''TCP_CLIENT_STATE_CONNECT_IN_PROGRESS''] else [])
   @ (if IsStateSet TCP_CLIENT_STATE_CONNECTED c then [''TCP_CLIENT_STATE_CONNECTED''] else [])
   @ (if IsStateSet TCP_CLIENT_STATE_MULTIPLEX_LISTEN c
      then [''TCP_CLIENT_STATE_MULTIPLEX_LISTEN''] else [])
   @ (if IsStateSet TCP_CLIENT_STATE_PASSIVE_OPENER c
      then [''TCP_CLIENT_STATE_PASSIVE_OPENER''] else [])
   @ (if IsStateSet TCP_CLIENT_STATE_THREADED c then [''TCP_CLIENT_STATE_THREADED''] else [])"

text \<open>
  \<^verbatim>\<open>TcpClient::Abort\<close>: the descriptors it closes, and the fault of the demarcator's
  destructor if there is one; a pointer that was never set is followed and freed. The object is
  freed at the end.
\<close>

definition Abort_client :: "tcp_client \<Rightarrow> int list res" where
  "Abort_client c =
     (let closed = (if comm_fd c \<noteq> 0 then [comm_fd c] else []) in
      case msgd c of
        NullMsgd \<Rightarrow> Inr closed
      | WildMsgd \<Rightarrow> Inl Uninitialised
      | Msgd d \<Rightarrow> rbind (demarcar_destructor (Destroy d)) (\<lambda>_. Inr closed))"

lemma Abort_client_cases:
  "Abort_client c = (if msgd c = WildMsgd then Inl Uninitialised
     else Inr (if comm_fd c \<noteq> 0 then [comm_fd c] else []))"
  by (simp add: Abort_client_def demarcar_destructor_def Destroy_def BCBFree_def
      split: option.split msgd_ptr.split)

section \<open>The heap of clients\<close>

type_synonym client_heap = "addr \<rightharpoonup> tcp_client"

definition deref :: "client_heap \<Rightarrow> addr \<Rightarrow> tcp_client res" where
  "deref h a = (case h a of None \<Rightarrow> Inl UseAfterFree | Some c \<Rightarrow> Inr c)"

lemma deref_Inr [simp]: "deref h a = Inr c \<longleftrightarrow> h a = Some c"
  by (simp add: deref_def split: option.split)

lemma deref_None: "h a = None \<Longrightarrow> deref h a = Inl UseAfterFree"
  by (simp add: deref_def)

lemma deref_Some: "h a = Some c \<Longrightarrow> deref h a = Inr c"
  by simp

end
