(* ===== verification/SvcManager.thy ===== *)
theory SvcManager
  imports TcpClient
begin

text \<open>
  The service that reads the connected clients (\<^verbatim>\<open>TcpClientServiceManager\<close>): its list
  of clients, its epoll set, the ready handshake with the acceptor, and the receive loop of one
  epoll event. The kernel's side of a socket is the record \<open>sock\<close>; \<open>recv\<close> returns at
  most as many bytes as it is asked for, and how many it returns is chosen by a schedule.
  The source compiles with \<^verbatim>\<open>EPOLL\<close> set, so the select branch is not modelled.
\<close>

section \<open>Sockets\<close>

record sock =
  pending :: "byte list"
  peer_closed :: bool
  sock_error :: bool

datatype recv_result = RecvData "byte list" sock | RecvClosed | RecvAgain | RecvError

definition recv :: "sock \<Rightarrow> nat \<Rightarrow> nat \<Rightarrow> recv_result" where
  "recv s space k =
     (if sock_error s then RecvError
      else if pending s = [] then (if peer_closed s then RecvClosed else RecvAgain)
      else let n = min space (Suc k) in
        RecvData (take n (pending s)) (s\<lparr>pending := drop n (pending s)\<rparr>))"

section \<open>The service manager\<close>

text \<open>
  The threads created for the manager, oldest first: one that has not reached its endless loop
  is \<open>SvcStarted\<close>. The manager's handle is the newest thread's.
\<close>

datatype svc_thread = SvcStarted | SvcRunning

record svc_mgr =
  max_fd :: int
  epfd :: "int option"
  epoll_set :: "int list"
  svc_threads :: "svc_thread list"
  svc_db :: "addr list"
  is_ready :: bool

definition TcpClientServiceManager_new :: svc_mgr where
  "TcpClientServiceManager_new =
     \<lparr>max_fd = 0, epfd = None, epoll_set = [], svc_threads = [], svc_db = [], is_ready = False\<rparr>"

definition StartTcpClientServiceManagerThread :: "svc_mgr \<Rightarrow> svc_mgr" where
  "StartTcpClientServiceManagerThread m = m\<lparr>svc_threads := svc_threads m @ [SvcStarted]\<rparr>"

fun GetMaxFd_loop :: "client_heap \<Rightarrow> addr list \<Rightarrow> int \<Rightarrow> int res" where
  "GetMaxFd_loop h [] m = Inr m"
| "GetMaxFd_loop h (a # as) m =
     rbind (deref h a) (\<lambda>c. GetMaxFd_loop h as (if comm_fd c > m then comm_fd c else m))"

definition GetMaxFd :: "client_heap \<Rightarrow> svc_mgr \<Rightarrow> int res" where
  "GetMaxFd h m = GetMaxFd_loop h (svc_db m) 0"

fun CopyClientFDtoFDSet :: "client_heap \<Rightarrow> addr list \<Rightarrow> int set \<Rightarrow> int set res" where
  "CopyClientFDtoFDSet h [] fds = Inr fds"
| "CopyClientFDtoFDSet h (a # as) fds =
     rbind (deref h a) (\<lambda>c. CopyClientFDtoFDSet h as (insert (comm_fd c) fds))"

definition epoll_add :: "int \<Rightarrow> svc_mgr \<Rightarrow> svc_mgr" where
  "epoll_add fd m =
     (case epfd m of None \<Rightarrow> m
      | Some _ \<Rightarrow> if fd \<in> set (epoll_set m) then m else m\<lparr>epoll_set := epoll_set m @ [fd]\<rparr>)"

definition epoll_del :: "int \<Rightarrow> svc_mgr \<Rightarrow> svc_mgr" where
  "epoll_del fd m = m\<lparr>epoll_set := removeAll fd (epoll_set m)\<rparr>"

fun epoll_add_clients :: "client_heap \<Rightarrow> addr list \<Rightarrow> svc_mgr \<Rightarrow> svc_mgr res" where
  "epoll_add_clients h [] m = Inr m"
| "epoll_add_clients h (a # as) m =
     rbind (deref h a) (\<lambda>c. epoll_add_clients h as (epoll_add (comm_fd c) m))"

text \<open>
  The service thread up to its endless loop (thread \<open>i\<close>): create the epoll descriptor, raise the ready flag
  under the mutex and signal, compute \<^verbatim>\<open>max_fd\<close>, register the clients known so far.
\<close>

definition svc_thread_begin :: "nat \<Rightarrow> client_heap \<Rightarrow> int \<Rightarrow> svc_mgr \<Rightarrow> svc_mgr res" where
  "svc_thread_begin i h new_epfd m =
     (let m = m\<lparr>epfd := Some new_epfd, epoll_set := [], is_ready := True\<rparr> in
      rbind (GetMaxFd h m) (\<lambda>mx.
        let m = m\<lparr>max_fd := mx\<rparr> in
        rbind (epoll_add_clients h (svc_db m) m) (\<lambda>m.
          Inr (m\<lparr>svc_threads := (svc_threads m)[i := SvcRunning]\<rparr>))))"

definition WaitUntilReady :: "svc_mgr \<Rightarrow> bool" where
  "WaitUntilReady m = is_ready m"

definition AddClientToDB :: "addr \<Rightarrow> svc_mgr \<Rightarrow> svc_mgr" where
  "AddClientToDB a m = m\<lparr>svc_db := svc_db m @ [a]\<rparr>"

definition ClientFDStartListen :: "addr \<Rightarrow> svc_mgr \<Rightarrow> svc_mgr" where
  "ClientFDStartListen a m = AddClientToDB a m"

definition AddClientToEpoll :: "client_heap \<Rightarrow> addr \<Rightarrow> svc_mgr \<Rightarrow> svc_mgr res" where
  "AddClientToEpoll h a m = rbind (deref h a) (\<lambda>c. Inr (epoll_add (comm_fd c) m))"

fun GetClientByFd :: "client_heap \<Rightarrow> addr list \<Rightarrow> int \<Rightarrow> addr option res" where
  "GetClientByFd h [] fd = Inr None"
| "GetClientByFd h (a # as) fd =
     rbind (deref h a) (\<lambda>c. if comm_fd c = fd then Inr (Some a) else GetClientByFd h as fd)"

definition RemoveClient :: "addr \<Rightarrow> client_heap \<Rightarrow> svc_mgr \<Rightarrow> (client_heap \<times> svc_mgr) res" where
  "RemoveClient a h m =
     (let m = m\<lparr>svc_db := removeAll a (svc_db m)\<rparr> in
      rbind (deref h a) (\<lambda>_. Inr (h(a := None), m)))"

text \<open>
  The loops over a \<^verbatim>\<open>std::list\<close> that remove the current element after stepping to the
  next one: removing by value also removes the next element when it is the same pointer, and
  then the iterator dangles. (Both loops also read the end iterator's value; it is not used.)
\<close>

function svc_clear_loop :: "addr list \<Rightarrow> addr list res" where
  "svc_clear_loop [] = Inr []"
| "svc_clear_loop (a # as) =
     (if as \<noteq> [] \<and> hd as = a then Inl UseAfterFree else svc_clear_loop (removeAll a as))"
  by pat_completeness auto
termination
  by (relation "measure length") (auto simp: le_imp_less_Suc length_removeAll_less_eq)

text \<open>
  \<^verbatim>\<open>Stop\<close> cancels and joins the thread whose handle it has, the last one started (a
  handle that was never set is followed to address 0), empties the list and deletes the object.
\<close>

definition StopTcpClientServiceManagerThread :: "svc_mgr \<Rightarrow> svc_mgr res" where
  "StopTcpClientServiceManagerThread m =
     (if svc_threads m = [] then Inl NullDeref
      else Inr (m\<lparr>svc_threads := butlast (svc_threads m)\<rparr>))"

definition svc_stop :: "svc_mgr \<Rightarrow> unit res" where
  "svc_stop m =
     rbind (StopTcpClientServiceManagerThread m) (\<lambda>m. rbind (svc_clear_loop (svc_db m)) (\<lambda>_. Inr ()))"

section \<open>The receive loop of one event\<close>

datatype recv_status = BackPressure | PeerGone | WouldBlock | RecvFailed

record rx =
  rx_heap :: client_heap
  rx_svc :: svc_mgr
  rx_socks :: "int \<Rightarrow> sock"
  rx_out :: "(addr \<times> byte list) list"
  rx_closed :: "int list"

definition drop_client :: "addr \<Rightarrow> int \<Rightarrow> int \<Rightarrow> rx \<Rightarrow> rx res" where
  "drop_client a close_fd fd w =
     rbind (RemoveClient a (rx_heap w) (epoll_del fd (rx_svc w))) (\<lambda>(h, m).
       Inr (w\<lparr>rx_heap := h, rx_svc := m, rx_closed := rx_closed w @ [close_fd]\<rparr>))"

text \<open>
  \<^verbatim>\<open>while (1)\<close> over one readable client: it is left by its three breaks only. The list
  of numbers is the kernel's schedule, one number for every turn; a schedule that ends before the
  loop does gives \<open>None\<close>, a loop that has not returned.
\<close>

fun recv_loop :: "bool \<Rightarrow> addr \<Rightarrow> int \<Rightarrow> nat list \<Rightarrow> rx \<Rightarrow> (recv_status \<times> rx) res option" where
  "recv_loop cb a fd [] w = None"
| "recv_loop cb a fd (k # ks) w =
     (case deref (rx_heap w) a of
        Inl e \<Rightarrow> Some (Inl e)
      | Inr c \<Rightarrow>
        (case msgd c of
           NullMsgd \<Rightarrow> Some (Inl NullDeref)
         | WildMsgd \<Rightarrow> Some (Inl Uninitialised)
         | Msgd d \<Rightarrow>
           (case dm_bcb d of
              None \<Rightarrow> Some (Inl NullDeref)
            | Some b \<Rightarrow>
                let space = BCBAvailableSize b in
                if space = 0 then Some (Inr (BackPressure, w))
                else
                  (case recv (rx_socks w (comm_fd c)) (unat space) k of
                     RecvData bs sk \<Rightarrow>
                       (case ProcessMsg cb d bs (of_nat (length bs)) of
                          None \<Rightarrow> None
                        | Some (Inl e) \<Rightarrow> Some (Inl e)
                        | Some (Inr (d', ms)) \<Rightarrow>
                            recv_loop cb a fd ks
                              (w\<lparr>rx_heap := (rx_heap w)(a \<mapsto> c\<lparr>msgd := Msgd d'\<rparr>),
                                 rx_socks := (rx_socks w)(comm_fd c := sk),
                                 rx_out := rx_out w @ map (Pair a) ms\<rparr>))
                   | RecvClosed \<Rightarrow>
                       Some (rbind (drop_client a (comm_fd c) fd w) (\<lambda>w. Inr (PeerGone, w)))
                   | RecvAgain \<Rightarrow> Some (Inr (WouldBlock, w))
                   | RecvError \<Rightarrow>
                       Some (rbind (drop_client a fd fd w) (\<lambda>w. Inr (RecvFailed, w)))))))"

text \<open>One return of \<^verbatim>\<open>epoll_wait\<close>: the readable descriptors, each with its schedule.\<close>

fun epoll_round :: "bool \<Rightarrow> (int \<times> nat list) list \<Rightarrow> rx \<Rightarrow> rx res option" where
  "epoll_round cb [] w = Some (Inr w)"
| "epoll_round cb ((fd, ks) # evs) w =
     (case GetClientByFd (rx_heap w) (svc_db (rx_svc w)) fd of
        Inl e \<Rightarrow> Some (Inl e)
      | Inr None \<Rightarrow> epoll_round cb evs w
      | Inr (Some a) \<Rightarrow>
          (case recv_loop cb a fd ks w of
             None \<Rightarrow> None
           | Some (Inl e) \<Rightarrow> Some (Inl e)
           | Some (Inr (st, w')) \<Rightarrow> epoll_round cb evs w'))"

end
