(* ===== verification/Controller.thy ===== *)
theory Controller
  imports SvcManager
begin

text \<open>
  The server: the client database (\<^verbatim>\<open>TcpClientDbManager\<close>), the acceptor
  (\<^verbatim>\<open>TcpNewConnectionAcceptor\<close>) and the controller that owns both and the service
  manager (\<^verbatim>\<open>TcpServerController\<close>). One record holds the controller's fields, the heap
  of clients, the acceptor threads that run, the kernel's sockets and what the application sees.

  Function pointers of the controller are not initialised by its constructor: \<open>GarbageFn\<close> is
  such a value. Nor is the lock of the client database ever initialised: \<open>db_rwlock_ok\<close> says
  whether the memory it lies in happens to be that of a lock nobody holds. Reading an end iterator
  without using the value is not modelled as a fault.
\<close>

section \<open>State\<close>

definition TCP_SERVER_INITIALIZED :: u32 where "TCP_SERVER_INITIALIZED = 1"
definition TCP_SERVER_RUNNING :: u32 where "TCP_SERVER_RUNNING = 2"
definition TCP_SERVER_NOT_ACCEPTING_NEW_CONNECTIONS :: u32 where
  "TCP_SERVER_NOT_ACCEPTING_NEW_CONNECTIONS = 4"
definition TCP_SERVER_NOT_LISTENING_CLIENTS :: u32 where "TCP_SERVER_NOT_LISTENING_CLIENTS = 8"
definition TCP_SERVER_CREATE_MULTI_THREAD_CLIENT :: u32 where
  "TCP_SERVER_CREATE_MULTI_THREAD_CLIENT = 16"

lemmas server_flag_defs =
  TCP_SERVER_INITIALIZED_def TCP_SERVER_RUNNING_def TCP_SERVER_NOT_ACCEPTING_NEW_CONNECTIONS_def
  TCP_SERVER_NOT_LISTENING_CLIENTS_def TCP_SERVER_CREATE_MULTI_THREAD_CLIENT_def

datatype fn_ptr = NullFn | GarbageFn | AppFn

record acceptor =
  accept_fd :: int
  acc_has_thread :: bool

datatype acc_pc = AccWaiting | AccListening

record server =
  ctrl_ip_addr :: u32
  ctrl_port_no :: u16
  ctrl_name :: string
  state_flags :: u32
  tcp_new_conn_acc :: "acceptor option"
  tcp_client_db_mgr :: "addr list option"
  tcp_client_svc_mgr :: "svc_mgr option"
  client_connected_fn :: fn_ptr
  client_disconected_fn :: fn_ptr
  client_msg_recvd_fn :: fn_ptr
  heap :: client_heap
  next_addr :: addr
  acc_threads :: "(int \<times> acc_pc) list"
  socks :: "int \<Rightarrow> sock"
  connected :: "addr list"
  delivered :: "(addr \<times> byte list) list"
  closed_fds :: "int list"
  ctrl_alive :: bool
  db_rwlock_ok :: bool

definition SetBit :: "u32 \<Rightarrow> server \<Rightarrow> server" where
  "SetBit b s = s\<lparr>state_flags := flag_set (state_flags s) b\<rparr>"

definition UnSetBit :: "u32 \<Rightarrow> server \<Rightarrow> server" where
  "UnSetBit b s = s\<lparr>state_flags := flag_unset (state_flags s) b\<rparr>"

definition IsBitSet :: "u32 \<Rightarrow> server \<Rightarrow> bool" where
  "IsBitSet b s = flag_is_set (state_flags s) b"

section \<open>Client database\<close>

definition AddClienttoDb :: "addr \<Rightarrow> server \<Rightarrow> server res" where
  "AddClienttoDb a s =
     (case tcp_client_db_mgr s of None \<Rightarrow> Inl NullDeref
      | Some db \<Rightarrow> Inr (s\<lparr>tcp_client_db_mgr := Some (db @ [a])\<rparr>))"

fun DisplayClientDb :: "client_heap \<Rightarrow> addr list \<Rightarrow> string list list res" where
  "DisplayClientDb h [] = Inr []"
| "DisplayClientDb h (a # as) =
     rbind (deref h a) (\<lambda>c. rbind (DisplayClientDb h as) (\<lambda>ls. Inr (client_flag_lines c # ls)))"

text \<open>
  \<^verbatim>\<open>Purge\<close>: it takes the lock of the database, which no code initialises, and removes and
  aborts every client in the list. The result is the heap and the descriptors closed.
\<close>

function purge_loop :: "addr list \<Rightarrow> client_heap \<Rightarrow> int list \<Rightarrow> (client_heap \<times> int list) res" where
  "purge_loop [] h fds = Inr (h, fds)"
| "purge_loop (a # as) h fds =
     (if as \<noteq> [] \<and> hd as = a then Inl UseAfterFree
      else case deref h a of
          Inl e \<Rightarrow> Inl e
        | Inr c \<Rightarrow>
          (case Abort_client c of
             Inl e \<Rightarrow> Inl e
           | Inr closed \<Rightarrow> purge_loop (removeAll a as) (h(a := None)) (fds @ closed)))"
  by pat_completeness auto
termination
  by (relation "measure (\<lambda>(as, h, fds). length as)")
    (auto simp: le_imp_less_Suc length_removeAll_less_eq)

definition Purge :: "server \<Rightarrow> server res" where
  "Purge s =
     (case tcp_client_db_mgr s of None \<Rightarrow> Inl NullDeref
      | Some db \<Rightarrow>
        if \<not> db_rwlock_ok s then Inl Uninitialised
        else rbind (purge_loop db (heap s) []) (\<lambda>(h, fds).
          Inr (s\<lparr>tcp_client_db_mgr := Some [], heap := h, closed_fds := closed_fds s @ fds\<rparr>)))"

section \<open>The acceptor\<close>

text \<open>\<open>fd\<close> is the result of \<^verbatim>\<open>socket()\<close>.\<close>

definition TcpNewConnectionAcceptor_new :: "int \<Rightarrow> acceptor res" where
  "TcpNewConnectionAcceptor_new fd =
     (if fd < 0 then Inl ProcessExit else Inr \<lparr>accept_fd = fd, acc_has_thread = True\<rparr>)"

definition StartTcpConnectionAcceptorThread :: "bool \<Rightarrow> server \<Rightarrow> server res" where
  "StartTcpConnectionAcceptorThread created s =
     (case tcp_new_conn_acc s of None \<Rightarrow> Inl NullDeref
      | Some acc \<Rightarrow>
          if \<not> created then Inl ProcessExit
          else Inr (s\<lparr>acc_threads := acc_threads s @ [(accept_fd acc, AccWaiting)]\<rparr>))"

definition StopTcpNewConnectionAcceptorThread :: "server \<Rightarrow> acceptor \<Rightarrow> server \<times> acceptor" where
  "StopTcpNewConnectionAcceptorThread s acc =
     (if \<not> acc_has_thread acc then (s, acc)
      else (s\<lparr>acc_threads := filter (\<lambda>t. fst t \<noteq> accept_fd acc) (acc_threads s)\<rparr>,
            acc\<lparr>acc_has_thread := False\<rparr>))"

definition acceptor_Stop :: "server \<Rightarrow> acceptor \<Rightarrow> server" where
  "acceptor_Stop s acc =
     (let (s, acc) = StopTcpNewConnectionAcceptorThread s acc in
      s\<lparr>closed_fds := closed_fds s @ [accept_fd acc]\<rparr>)"

text \<open>
  The acceptor thread up to its endless loop: wait for the service, then the set-up calls.
  \<open>None\<close> is a thread that still waits.
\<close>

definition acceptor_thread_begin :: "int \<Rightarrow> bool \<Rightarrow> server \<Rightarrow> server option res" where
  "acceptor_thread_begin fd setup_ok s =
     (case tcp_client_svc_mgr s of None \<Rightarrow> Inl NullDeref
      | Some m \<Rightarrow>
          if \<not> WaitUntilReady m then Inr None
          else if \<not> setup_ok then Inl ProcessExit
          else Inr (Some (s\<lparr>acc_threads :=
                 map (\<lambda>(f, pc). if f = fd then (f, AccListening) else (f, pc)) (acc_threads s)\<rparr>)))"

section \<open>The controller\<close>

definition ProcessNewClient :: "addr \<Rightarrow> server \<Rightarrow> server res" where
  "ProcessNewClient a s =
     rbind (AddClienttoDb a s) (\<lambda>s.
     rbind (deref (heap s) a) (\<lambda>c.
       let s = s\<lparr>heap := (heap s)(a \<mapsto> SetState TCP_CLIENT_STATE_MULTIPLEX_LISTEN c)\<rparr> in
       case tcp_client_svc_mgr s of None \<Rightarrow> Inl NullDeref
       | Some m \<Rightarrow>
         rbind (AddClientToEpoll (heap s) a (ClientFDStartListen a m)) (\<lambda>m.
           Inr (s\<lparr>tcp_client_svc_mgr := Some m\<rparr>))))"

text \<open>
  One accepted connection: descriptor \<open>fd\<close>, peer address and port, the allocation results
  of the demarcator, and the memory \<open>junk\<close> the new object is built on.
\<close>

definition accept_client ::
  "int \<Rightarrow> u32 \<Rightarrow> u16 \<Rightarrow> bool \<times> bool \<times> bool \<Rightarrow> tcp_client \<Rightarrow> server \<Rightarrow> server res" where
  "accept_client fd ip port oks junk s =
     (let a = next_addr s;
          c = TcpClient_new junk ip port;
          c = c\<lparr>cl_server_ip_addr := ctrl_ip_addr s, cl_server_port_no := ucast (ctrl_port_no s),
                cl_tcp_ctrlr := True, comm_fd := fd\<rparr>;
          c = SetState TCP_CLIENT_STATE_CONNECTED (SetState TCP_CLIENT_STATE_PASSIVE_OPENER c);
          s = s\<lparr>heap := (heap s)(a \<mapsto> c), next_addr := Suc a\<rparr> in
      rbind
        (if client_connected_fn s \<noteq> NullFn
         then if client_connected_fn s = AppFn then Inr (s\<lparr>connected := connected s @ [a]\<rparr>)
              else Inl NullDeref
         else Inr s)
        (\<lambda>s.
          let d = (case oks of (ok1, ok2, ok3) \<Rightarrow> TcpMsgVariabSizeDemarcar ok1 ok2 ok3);
              s = s\<lparr>heap := (heap s)(a \<mapsto> c\<lparr>msgd := Msgd d\<rparr>)\<rparr>
          in ProcessNewClient a s))"

definition TcpServerController_new :: "server \<Rightarrow> u32 \<Rightarrow> u16 \<Rightarrow> string \<Rightarrow> int \<Rightarrow> server res" where
  "TcpServerController_new junk ip port name fd =
     rbind (TcpNewConnectionAcceptor_new fd) (\<lambda>acc.
       Inr (SetBit TCP_SERVER_INITIALIZED
         (junk\<lparr>state_flags := 0, ctrl_ip_addr := ip, ctrl_port_no := port, ctrl_name := name,
              tcp_new_conn_acc := Some acc, tcp_client_db_mgr := Some [],
              tcp_client_svc_mgr := Some TcpClientServiceManager_new, ctrl_alive := True\<rparr>)))"

definition TcpServerController_destructor :: "server \<Rightarrow> unit res" where
  "TcpServerController_destructor s =
     rbind (rassert (tcp_client_db_mgr s = None)) (\<lambda>_.
     rbind (rassert (tcp_client_svc_mgr s = None)) (\<lambda>_.
       rassert (tcp_new_conn_acc s = None)))"

definition Start :: "bool \<Rightarrow> server \<Rightarrow> server res" where
  "Start created s =
     (case tcp_client_svc_mgr s of None \<Rightarrow> Inl NullDeref
      | Some m \<Rightarrow>
        rbind (StartTcpConnectionAcceptorThread created
                 (s\<lparr>tcp_client_svc_mgr := Some (StartTcpClientServiceManagerThread m)\<rparr>)) (\<lambda>s.
          if tcp_client_db_mgr s = None then Inl NullDeref
          else Inr (SetBit TCP_SERVER_RUNNING s)))"

definition SetServerNotifCallbacks :: "fn_ptr \<Rightarrow> fn_ptr \<Rightarrow> fn_ptr \<Rightarrow> server \<Rightarrow> server" where
  "SetServerNotifCallbacks c d m s =
     s\<lparr>client_connected_fn := c, client_disconected_fn := d, client_msg_recvd_fn := m\<rparr>"

text \<open>\<^verbatim>\<open>Display\<close>: the flags it prints and the lines of the database.\<close>

definition Display :: "server \<Rightarrow> (string list \<times> string list list) res" where
  "Display s =
     (if \<not> IsBitSet TCP_SERVER_RUNNING s then Inr ([''Tcp Server Not Running''], [])
      else
        let fl =
          [if IsBitSet TCP_SERVER_INITIALIZED s then ''I'' else ''Un-I'',
           if IsBitSet TCP_SERVER_RUNNING s then '' R'' else '' Not-R'',
           if IsBitSet TCP_SERVER_NOT_ACCEPTING_NEW_CONNECTIONS s then '' Not-Acc'' else '' Acc'',
           if IsBitSet TCP_SERVER_NOT_LISTENING_CLIENTS s then '' Not-L'' else '' L'',
           if IsBitSet TCP_SERVER_CREATE_MULTI_THREAD_CLIENT s then '' M'' else '' Not-M''] in
        case tcp_client_db_mgr s of None \<Rightarrow> Inl NullDeref
        | Some db \<Rightarrow> rbind (DisplayClientDb (heap s) db) (\<lambda>ls. Inr (fl, ls)))"

text \<open>The names keep the source's spelling. \<open>fd\<close> is the result of \<^verbatim>\<open>socket()\<close>.\<close>

definition StartConectionAcceptionSvc :: "int \<Rightarrow> bool \<Rightarrow> server \<Rightarrow> server res" where
  "StartConectionAcceptionSvc fd created s =
     (if \<not> IsBitSet TCP_SERVER_NOT_ACCEPTING_NEW_CONNECTIONS s then Inr s
      else rbind (TcpNewConnectionAcceptor_new fd) (\<lambda>acc.
        StartTcpConnectionAcceptorThread created
          ((UnSetBit TCP_SERVER_NOT_ACCEPTING_NEW_CONNECTIONS s)\<lparr>tcp_new_conn_acc := Some acc\<rparr>)))"

definition StopConnectionAcceptingSvc :: "server \<Rightarrow> server" where
  "StopConnectionAcceptingSvc s =
     (if IsBitSet TCP_SERVER_NOT_ACCEPTING_NEW_CONNECTIONS s then s
      else (SetBit TCP_SERVER_NOT_ACCEPTING_NEW_CONNECTIONS s)\<lparr>tcp_new_conn_acc := None\<rparr>)"

definition StopClientSvcMgr :: "server \<Rightarrow> server res" where
  "StopClientSvcMgr s =
     (if IsBitSet TCP_SERVER_NOT_LISTENING_CLIENTS s then Inr s
      else case tcp_client_svc_mgr s of None \<Rightarrow> Inl NullDeref
        | Some m \<Rightarrow> rbind (svc_stop m) (\<lambda>_.
            Inr ((SetBit TCP_SERVER_NOT_LISTENING_CLIENTS s)\<lparr>tcp_client_svc_mgr := None\<rparr>)))"

definition StartClientSvcMgr :: "server \<Rightarrow> server" where
  "StartClientSvcMgr s = s"

definition Stop :: "server \<Rightarrow> server res" where
  "Stop s =
     (let s = (if tcp_new_conn_acc s \<noteq> None
               then SetBit TCP_SERVER_NOT_ACCEPTING_NEW_CONNECTIONS (StopConnectionAcceptingSvc s)
               else s) in
      rbind (if tcp_client_svc_mgr s \<noteq> None
             then rbind (StopClientSvcMgr s) (\<lambda>s. Inr (SetBit TCP_SERVER_NOT_LISTENING_CLIENTS s))
             else Inr s) (\<lambda>s.
      rbind (Purge s) (\<lambda>s.
        let s = UnSetBit TCP_SERVER_RUNNING (s\<lparr>tcp_client_db_mgr := None\<rparr>) in
        rbind (TcpServerController_destructor s) (\<lambda>_. Inr (s\<lparr>ctrl_alive := False\<rparr>)))))"

text \<open>
  \<^verbatim>\<open>CreateActiveAClient\<close> connects a socket of its own, but stores neither the descriptor
  nor a demarcator nor the controller in the client: those fields keep \<open>junk\<close>, the pointer to
  the demarcator null or wild.
\<close>

definition CreateActiveAClient :: "u32 \<Rightarrow> u16 \<Rightarrow> bool \<Rightarrow> tcp_client \<Rightarrow> server \<Rightarrow> server res" where
  "CreateActiveAClient ip port host_found junk s =
     (let a = next_addr s;
          c = TcpClient_new junk (ctrl_ip_addr s) (ctrl_port_no s);
          c = SetState TCP_CLIENT_STATE_CONNECTED (SetState TCP_CLIENT_STATE_ACTIVE_OPENER c);
          c = c\<lparr>cl_server_ip_addr := ip, cl_server_port_no := ucast port\<rparr>
      in if \<not> host_found then Inl NullDeref
         else AddClienttoDb a (s\<lparr>heap := (heap s)(a \<mapsto> c), next_addr := Suc a\<rparr>))"

section \<open>The service thread on the whole state\<close>

definition serve_round :: "(int \<times> nat list) list \<Rightarrow> server \<Rightarrow> server res option" where
  "serve_round evs s =
     (case tcp_client_svc_mgr s of None \<Rightarrow> Some (Inl NullDeref)
      | Some m \<Rightarrow>
        (case epoll_round (client_msg_recvd_fn s = AppFn) evs
                \<lparr>rx_heap = heap s, rx_svc = m, rx_socks = socks s, rx_out = [], rx_closed = []\<rparr> of
           None \<Rightarrow> None
         | Some (Inl e) \<Rightarrow> Some (Inl e)
         | Some (Inr w) \<Rightarrow>
             Some (Inr (s\<lparr>heap := rx_heap w, tcp_client_svc_mgr := Some (rx_svc w),
                          socks := rx_socks w, delivered := delivered s @ rx_out w,
                          closed_fds := closed_fds s @ rx_closed w\<rparr>))))"

section \<open>The server as a transition system\<close>

text \<open>
  The application's thread, the acceptor threads and the service thread interleave; every step
  is one call or one turn of a thread's loop that runs into no fault. \<open>junk\<close> values, kernel
  results and schedules are arbitrary.
\<close>

inductive server_step :: "server \<Rightarrow> server \<Rightarrow> bool" where
  start: "ctrl_alive s \<Longrightarrow> Start created s = Inr s' \<Longrightarrow> server_step s s'"
| set_callbacks: "ctrl_alive s \<Longrightarrow> server_step s (SetServerNotifCallbacks c d m s)"
| stop_accept: "ctrl_alive s \<Longrightarrow> server_step s (StopConnectionAcceptingSvc s)"
| start_accept: "ctrl_alive s \<Longrightarrow> StartConectionAcceptionSvc fd created s = Inr s' \<Longrightarrow>
    server_step s s'"
| stop_listen: "ctrl_alive s \<Longrightarrow> StopClientSvcMgr s = Inr s' \<Longrightarrow> server_step s s'"
| connect: "ctrl_alive s \<Longrightarrow> CreateActiveAClient ip port found junk s = Inr s' \<Longrightarrow>
    server_step s s'"
| stop: "ctrl_alive s \<Longrightarrow> Stop s = Inr s' \<Longrightarrow> server_step s s'"
| svc_begin: "tcp_client_svc_mgr s = Some m \<Longrightarrow> i < length (svc_threads m) \<Longrightarrow>
    svc_threads m ! i = SvcStarted \<Longrightarrow> svc_thread_begin i (heap s) efd m = Inr m' \<Longrightarrow>
    server_step s (s\<lparr>tcp_client_svc_mgr := Some m'\<rparr>)"
| svc_turn: "tcp_client_svc_mgr s = Some m \<Longrightarrow> SvcRunning \<in> set (svc_threads m) \<Longrightarrow>
    serve_round evs s = Some (Inr s') \<Longrightarrow> server_step s s'"
| acc_begin: "ctrl_alive s \<Longrightarrow> (fd, AccWaiting) \<in> set (acc_threads s) \<Longrightarrow>
    acceptor_thread_begin fd setup_ok s = Inr (Some s') \<Longrightarrow> server_step s s'"
| acc_turn: "ctrl_alive s \<Longrightarrow> (afd, AccListening) \<in> set (acc_threads s) \<Longrightarrow>
    accept_client fd ip port oks junk s = Inr s' \<Longrightarrow> server_step s s'"
| peer: "server_step s (s\<lparr>socks := sk\<rparr>)"

inductive reachable :: "server \<Rightarrow> bool" where
  init: "TcpServerController_new junk ip port name fd = Inr s \<Longrightarrow>
    heap junk = Map.empty \<Longrightarrow> acc_threads junk = [] \<Longrightarrow> reachable s"
| step: "reachable s \<Longrightarrow> server_step s s' \<Longrightarrow> reachable s'"

end
