(* ===== verification/Framing.thy ===== *)
theory Framing
  imports Demarcar
begin

text \<open>
  What the demarcators promise: the variable-size one delivers the parse of the byte stream by
  length-prefixed frames (\<open>parse_frames\<close>), however the stream is cut into pieces, and the
  sender's frames (\<open>frame\<close>) parse back to the payloads; the fixed-size one delivers pieces
  of the fixed size (\<open>parse_fixed\<close>), and leaves the buffer's mutex held.
\<close>

section \<open>The stream as frames\<close>

definition frame :: "byte list \<Rightarrow> byte list" where
  "frame p = htons_bytes (of_nat (length p)) @ p"

fun parse_frames :: "byte list \<Rightarrow> byte list list \<times> byte list" where
  "parse_frames (h # l # rest) =
     (let n = unat (ntohs_bytes h l) in
      if length rest < n then ([], h # l # rest)
      else (case parse_frames (drop n rest) of (ms, r) \<Rightarrow> (take n rest # ms, r)))"
| "parse_frames xs = ([], xs)"

declare parse_frames.simps(1) [simp del]

lemma parse_frames_incomplete:
  "length rest < unat (ntohs_bytes h l) \<Longrightarrow> parse_frames (h # l # rest) = ([], h # l # rest)"
  by (simp add: parse_frames.simps(1))

lemma parse_frames_complete:
  "unat (ntohs_bytes h l) \<le> length rest \<Longrightarrow>
   parse_frames (h # l # rest) =
     (take (unat (ntohs_bytes h l)) rest # fst (parse_frames (drop (unat (ntohs_bytes h l)) rest)),
      snd (parse_frames (drop (unat (ntohs_bytes h l)) rest)))"
  by (simp add: parse_frames.simps(1) Let_def split: prod.split)

text \<open>Parsing is incremental: the rest of a parse is a prefix of what is parsed next.\<close>

lemma parse_frames_append:
  "parse_frames (xs @ ys) =
     (fst (parse_frames xs) @ fst (parse_frames (snd (parse_frames xs) @ ys)),
      snd (parse_frames (snd (parse_frames xs) @ ys)))"
proof (induction xs rule: parse_frames.induct)
  case (1 h l rest)
  show ?case
  proof (cases "length rest < unat (ntohs_bytes h l)")
    case True
    then show ?thesis by (simp add: parse_frames_incomplete)
  next
    case False
    with 1 [OF refl False] show ?thesis by (simp add: parse_frames_complete)
  qed
qed simp_all

lemma parse_frames_bytes:
  "length (concat (map frame (fst (parse_frames xs)))) + length (snd (parse_frames xs)) = length xs"
proof (induction xs rule: parse_frames.induct)
  case (1 h l rest)
  then show ?case
    by (cases "length rest < unat (ntohs_bytes h l)")
      (simp_all add: parse_frames_incomplete parse_frames_complete frame_def)
qed simp_all

text \<open>The rest of a parse holds no complete frame.\<close>

lemma parse_frames_rest:
  "parse_frames (snd (parse_frames xs)) = ([], snd (parse_frames xs))"
proof (induction xs rule: parse_frames.induct)
  case (1 h l rest)
  then show ?case
    by (cases "length rest < unat (ntohs_bytes h l)")
      (simp_all add: parse_frames_incomplete parse_frames_complete)
qed simp_all

lemma parse_frames_frame:
  assumes "length p < 65536"
  shows "parse_frames (frame p @ xs) = (p # fst (parse_frames xs), snd (parse_frames xs))"
proof -
  have n: "unat (of_nat (length p) :: u16) = length p"
    using assms by (rule unat_of_nat_u16)
  have "ntohs_bytes (htons_bytes (of_nat (length p)) ! 0) (htons_bytes (of_nat (length p)) ! 1)
      = of_nat (length p)"
    by (rule ntohs_htons_bytes)
  then have "ntohs_bytes (of_nat (unat (of_nat (length p) :: u16) div 256))
      (of_nat (unat (of_nat (length p) :: u16) mod 256)) = of_nat (length p)"
    by (simp add: htons_bytes_def)
  then show ?thesis
    using n unfolding frame_def htons_bytes_def
    by (simp add: parse_frames_complete del: unat_of_nat)
qed

lemma parse_frames_concat:
  assumes "\<forall>p \<in> set ps. length p < 65536"
  shows "parse_frames (concat (map frame ps) @ xs) = (ps @ fst (parse_frames xs), snd (parse_frames xs))"
  using assms by (induction ps) (simp_all add: parse_frames_frame)

section \<open>Well-formed demarcators\<close>

definition dm_ok :: "demarcar \<Rightarrow> bool" where
  "dm_ok d \<longleftrightarrow> (case (dm_bcb d, dm_buffer d) of
      (Some b, Some buf) \<Rightarrow>
        bcb_ok b \<and> unat (buffer_size b) \<le> MAX_CLIENT_BUFFER_SIZE \<and>
        length buf = MAX_CLIENT_BUFFER_SIZE
    | _ \<Rightarrow> False)"

definition dm_contents :: "demarcar \<Rightarrow> byte list" where
  "dm_contents d = (case dm_bcb d of None \<Rightarrow> [] | Some b \<Rightarrow> contents b)"

definition dm_cap :: "demarcar \<Rightarrow> nat" where
  "dm_cap d = (case dm_bcb d of None \<Rightarrow> 0 | Some b \<Rightarrow> unat (buffer_size b))"

lemma dm_okE:
  assumes "dm_ok d"
  obtains b buf where "dm_bcb d = Some b" "dm_buffer d = Some buf" "bcb_ok b"
    "unat (buffer_size b) \<le> 8192" "length buf = 8192"
  using assms by (auto simp: dm_ok_def split: option.splits)

lemma dm_contents_le: "dm_ok d \<Longrightarrow> length (dm_contents d) \<le> dm_cap d"
  by (erule dm_okE) (simp only: dm_contents_def dm_cap_def option.case bq.queue_cap)

lemma new_demarcar_ok:
  assumes "ok1" "ok2" "ok3" "n \<noteq> 0" "unat n \<le> 8192"
  shows "dm_ok (TcpMsgDemarcar ok1 ok2 ok3 c n) \<and> dm_contents (TcpMsgDemarcar ok1 ok2 ok3 c n) = []
    \<and> dm_cap (TcpMsgDemarcar ok1 ok2 ok3 c n) = unat n"
proof -
  obtain b where b: "BCBCreateNew True True n = Some b" by (simp add: BCBCreateNew_def)
  from BCBCreateNew_ok [OF b assms(4)] show ?thesis
    using assms b by (simp add: TcpMsgDemarcar_def dm_ok_def dm_contents_def dm_cap_def)
qed

section \<open>The variable-size demarcator\<close>

lemma ready_variab:
  assumes "dm_ok d" "dm_class d = VariabSize"
  shows "\<exists>d'. IsBufferReadyToFlush d = Inr (fst (parse_frames (dm_contents d)) \<noteq> [], d') \<and>
    dm_ok d' \<and> dm_class d' = VariabSize \<and> dm_cap d' = dm_cap d \<and> dm_contents d' = dm_contents d"
proof -
  obtain b buf where d: "dm_bcb d = Some b" "dm_buffer d = Some buf" "bcb_ok b"
      "unat (buffer_size b) \<le> 8192" "length buf = 8192"
    using assms(1) by (rule dm_okE)
  have len: "unat (current_size b) = length (contents b)" by simp
  consider (short) "length (contents b) < 2"
    | (hdr) h l rest where "contents b = h # l # rest"
    by (cases "contents b"; cases "tl (contents b)") auto
  then show ?thesis
  proof cases
    case short
    then have "parse_frames (contents b) = ([], contents b)"
      by (cases "contents b"; cases "tl (contents b)") auto
    with short assms d show ?thesis
      by (simp add: flush_defs word_less_nat_alt dm_contents_def)
  next
    case (hdr h l rest)
    then have c: "unat (current_size b) = 2 + length rest" using len by simp
    obtain b' where b': "BCBRead (Some b) (Some [0, 0]) 2 False = Inr (2, Some b', Some [h, l])"
        "bcb_ok b'" "unat (buffer_size b') = unat (buffer_size b)" "contents b' = h # l # rest"
      using bq.get_header [OF d(3) hdr, of 0 0 False] by auto
    have "fst (parse_frames (h # l # rest)) \<noteq> [] \<longleftrightarrow> unat (ntohs_bytes h l) \<le> length rest"
      by (cases "length rest < unat (ntohs_bytes h l)")
        (simp_all add: parse_frames_incomplete parse_frames_complete)
    with hdr c b' assms d show ?thesis
      by (simp add: flush_defs word_less_nat_alt dm_contents_def dm_ok_def dm_cap_def
          Let_def not_less)
  qed
qed

lemma variab_flush_one_complete:
  assumes "dm_ok d" "dm_class d = VariabSize"
    and xs: "dm_contents d = h # l # rest" and n: "unat (ntohs_bytes h l) \<le> length rest"
  shows "\<exists>d'. variab_flush_one True d = Inr (d', take (unat (ntohs_bytes h l)) rest) \<and>
    dm_ok d' \<and> dm_class d' = VariabSize \<and> dm_cap d' = dm_cap d \<and>
    dm_contents d' = drop (unat (ntohs_bytes h l)) rest"
proof -
  let ?n = "ntohs_bytes h l"
  obtain b buf where d: "dm_bcb d = Some b" "dm_buffer d = Some buf" "bcb_ok b"
      "unat (buffer_size b) \<le> 8192" "length buf = 8192"
    using assms(1) by (rule dm_okE)
  have q: "contents b = h # l # rest" using xs d by (simp add: dm_contents_def)
  obtain b1 where b1: "BCBRead (Some b) (Some [0, 0]) 2 True = Inr (2, Some b1, Some [h, l])"
      "bcb_ok b1" "unat (buffer_size b1) = unat (buffer_size b)" "contents b1 = rest"
    using bq.get_header [OF d(3) q, of 0 0 True] by auto
  have small: "unat ?n \<le> 8190"
    using n bq.queue_cap [OF d(3)] q d(4) by simp
  then have fits: "unat ?n \<le> length buf" using d(5) by simp
  obtain b2 where b2: "BCBRead (Some b1) (Some buf) ?n True
        = Inr (?n, Some b2, Some (blit buf 0 (take (unat ?n) rest)))"
      "bcb_ok b2" "unat (buffer_size b2) = unat (buffer_size b)" "contents b2 = drop (unat ?n) rest"
    using bq.get_some [OF b1(2), of ?n buf True] n fits b1 by auto
  let ?m = "take (unat ?n) rest"
  have m: "length ?m = unat ?n" using n by simp
  have "take (unat ?n) ((blit buf 0 ?m)[unat ?n := 0]) = ?m"
    using take_blit_0 [of ?m buf] m by (simp add: take_update_cancel)
  moreover have "length (blit buf 0 ?m) = 8192"
    using small d(5) m by (simp add: length_blit)
  ultimately show ?thesis
    using b1 b2 d assms(2) small
    by (simp add: variab_flush_one_def client_msg_recvd_def store_def Let_def
        dm_ok_def dm_contents_def dm_cap_def)
qed

lemma variab_loop_parses:
  assumes "dm_ok d" "dm_class d = VariabSize"
  shows "\<exists>d'. variab_loop True d out
      = Some (Inr (d', out @ fst (parse_frames (dm_contents d)))) \<and>
    dm_ok d' \<and> dm_class d' = VariabSize \<and> dm_cap d' = dm_cap d \<and>
    dm_contents d' = snd (parse_frames (dm_contents d))"
  using assms
proof (induction "length (dm_contents d)" arbitrary: d out rule: less_induct)
  case less
  obtain d1 where d1: "IsBufferReadyToFlush d = Inr (fst (parse_frames (dm_contents d)) \<noteq> [], d1)"
      "dm_ok d1" "dm_class d1 = VariabSize" "dm_cap d1 = dm_cap d" "dm_contents d1 = dm_contents d"
    using ready_variab [OF less.prems] by blast
  show ?case
  proof (cases "fst (parse_frames (dm_contents d)) = []")
    case True
    then have "snd (parse_frames (dm_contents d)) = dm_contents d"
      by (cases "dm_contents d" rule: parse_frames.cases)
        (auto simp: parse_frames.simps(1) Let_def split: if_splits prod.splits)
    with True d1 show ?thesis by (subst variab_loop.simps) simp
  next
    case False
    then obtain h l rest where xs: "dm_contents d = h # l # rest"
        and n: "unat (ntohs_bytes h l) \<le> length rest"
      by (cases "dm_contents d" rule: parse_frames.cases)
        (auto simp: parse_frames.simps(1) Let_def not_less split: if_splits)
    let ?n = "unat (ntohs_bytes h l)"
    obtain d2 where d2: "variab_flush_one True d1 = Inr (d2, take ?n rest)"
        "dm_ok d2" "dm_class d2 = VariabSize" "dm_cap d2 = dm_cap d"
        "dm_contents d2 = drop ?n rest"
      using variab_flush_one_complete [of d1 h l rest] d1 xs n by auto
    have "length (dm_contents d2) < length (dm_contents d)" using d2(5) xs by simp
    from less.hyps [OF this d2(2,3), of "out @ [take ?n rest]"] d1 d2 False xs n
    show ?thesis
      by (subst variab_loop.simps) (simp add: parse_frames_complete)
  qed
qed

section \<open>Receiving\<close>

lemma feed_loop_fits:
  assumes "dm_ok d" "length (dm_contents d) + unat n \<le> dm_cap d" "unat n \<le> length ptr"
  shows "\<exists>d'. feed_loop d ptr n = Some (Inr (True, d')) \<and> dm_ok d' \<and>
    dm_class d' = dm_class d \<and> dm_cap d' = dm_cap d \<and>
    dm_contents d' = dm_contents d @ take (unat n) ptr"
proof (cases "n = 0")
  case True
  with assms show ?thesis by (subst feed_loop.simps) simp
next
  case False
  obtain b buf where d: "dm_bcb d = Some b" "dm_buffer d = Some buf" "bcb_ok b"
      "unat (buffer_size b) \<le> 8192" "length buf = 8192"
    using assms(1) by (rule dm_okE)
  have fits: "length (contents b) + unat n \<le> unat (buffer_size b)"
    using assms(2) d by (simp add: dm_contents_def dm_cap_def)
  have space: "n \<le> BCBAvailableSize b" "BCBAvailableSize b \<noteq> 0"
    using bq.avail_room [OF d(3)] fits False
    by (auto simp: word_le_nat_alt unat_gt_0 [symmetric] word_neq_0_conv)
  then have tw: "(if n < BCBAvailableSize b then n else BCBAvailableSize b) = n" by auto
  obtain b' where b': "BCBWrite (Some b) (Some ptr) n = Inr (n, Some b')" "bcb_ok b'"
      "unat (buffer_size b') = unat (buffer_size b)"
      "contents b' = contents b @ take (unat n) ptr"
    using bq.put_fits [OF d(3) assms(3) fits] by auto
  let ?d = "d\<lparr>dm_bcb := Some b'\<rparr>"
  have "feed_loop d ptr n = feed_loop ?d (drop (unat n) ptr) 0"
    using False space tw b'(1) d(1) by (subst feed_loop.simps) (simp add: Let_def)
  also have "\<dots> = Some (Inr (True, ?d))" by (subst feed_loop.simps) simp
  finally show ?thesis
    using b' d by (intro exI [of _ ?d]) (simp add: dm_ok_def dm_contents_def dm_cap_def)
qed

text \<open>
  More bytes than the buffer has room for: the loop fills the buffer and gives up, the rest of
  the bytes is lost and no message is looked for.
\<close>

lemma feed_loop_overflow:
  assumes "dm_ok d" "dm_cap d < length (dm_contents d) + unat n" "unat n \<le> length ptr"
  shows "\<exists>d'. feed_loop d ptr n = Some (Inr (False, d')) \<and> dm_ok d' \<and>
    dm_class d' = dm_class d \<and> dm_cap d' = dm_cap d \<and>
    dm_contents d' = dm_contents d @ take (dm_cap d - length (dm_contents d)) ptr"
proof -
  obtain b buf where d: "dm_bcb d = Some b" "dm_buffer d = Some buf" "bcb_ok b"
      "unat (buffer_size b) \<le> 8192" "length buf = 8192"
    using assms(1) by (rule dm_okE)
  let ?a = "BCBAvailableSize b"
  have a: "unat ?a = dm_cap d - length (dm_contents d)" "dm_cap d = unat (buffer_size b)"
      "dm_contents d = contents b"
    using bq.avail_room [OF d(3)] d by (simp_all add: dm_cap_def dm_contents_def)
  have le: "length (dm_contents d) \<le> dm_cap d" using assms(1) by (rule dm_contents_le)
  have lt: "?a < n" using a le assms(2) by (simp add: word_less_nat_alt)
  then have n0: "n \<noteq> 0" by auto
  show ?thesis
  proof (cases "?a = 0")
    case True
    then have "dm_cap d - length (dm_contents d) = 0" using a by simp
    then show ?thesis using True n0 d assms(1) by (subst feed_loop.simps) simp
  next
    case False
    obtain b' where b': "BCBWrite (Some b) (Some ptr) ?a = Inr (?a, Some b')" "bcb_ok b'"
        "unat (buffer_size b') = unat (buffer_size b)"
        "contents b' = contents b @ take (unat ?a) ptr"
      using bq.put_fits [OF d(3), of ?a ptr] a le lt assms(3) by (auto simp: word_less_nat_alt)
    let ?d = "d\<lparr>dm_bcb := Some b'\<rparr>"
    have "BCBAvailableSize b' = 0"
      using bq.avail_room [OF b'(2)] b' a le assms(2,3) lt
      by (simp add: word_less_nat_alt unat_eq_zero min_def)
    moreover have "n - ?a \<noteq> 0" using lt by auto
    ultimately have "feed_loop ?d (drop (unat ?a) ptr) (n - ?a) = Some (Inr (False, ?d))"
      by (subst feed_loop.simps) simp
    moreover have "feed_loop d ptr n = feed_loop ?d (drop (unat ?a) ptr) (n - ?a)"
      using n0 False b'(1) d(1) less_not_sym [OF lt] by (simp add: feed_loop.simps [of d] Let_def)
    ultimately show ?thesis
      using b' d a by (intro exI [of _ ?d]) (simp add: dm_ok_def dm_contents_def dm_cap_def)
  qed
qed

lemma ProcessMsg_variab:
  assumes "dm_ok d" "dm_class d = VariabSize"
    and "length (dm_contents d) + unat n \<le> dm_cap d" "unat n \<le> length msg"
  shows "\<exists>d'. ProcessMsg True d msg n
      = Some (Inr (d', fst (parse_frames (dm_contents d @ take (unat n) msg)))) \<and>
    dm_ok d' \<and> dm_class d' = VariabSize \<and> dm_cap d' = dm_cap d \<and>
    dm_contents d' = snd (parse_frames (dm_contents d @ take (unat n) msg))"
proof -
  obtain d1 where d1: "feed_loop d msg n = Some (Inr (True, d1))" "dm_ok d1"
      "dm_class d1 = VariabSize" "dm_cap d1 = dm_cap d"
      "dm_contents d1 = dm_contents d @ take (unat n) msg"
    using feed_loop_fits [OF assms(1,3,4)] assms(2) by auto
  from variab_loop_parses [OF d1(2,3), of "[]"] d1 show ?thesis
    by (auto simp: ProcessMsg_def process_defs)
qed

section \<open>The sender\<close>

lemma send_msg_frame:
  assumes "unat n \<le> length p" "unat n \<le> 65533"
  shows "send_msg True p n = Inr (frame (take (unat n) p))"
proof -
  have t: "unat (2 + n) = 2 + unat n" using assms(2) by (simp add: unat_word_ariths)
  have "blit (blit (replicate (2 + unat n) 0) 0 (htons_bytes n)) 2 (take (unat n) p)
      = htons_bytes n @ take (unat n) p"
    using assms(1) by (simp add: blit_def)
  moreover have "length (blit (replicate (2 + unat n) 0) 0 (htons_bytes n)) = 2 + unat n"
    by (simp add: length_blit)
  ultimately show ?thesis
    using assms by (simp add: send_msg_def t memcpy_def frame_def)
qed

lemma send_msg_overflow:
  assumes "65534 \<le> unat n"
  shows "send_msg True p n = Inl OutOfBounds"
proof -
  have "unat (2 + n) = (2 + unat n) mod 65536" by (simp add: unat_word_ariths)
  also have "\<dots> = unat n - 65534" using assms unat_u16_bound [of n] by (simp add: mod_if)
  finally have "unat (2 + n) < 2" using unat_u16_bound [of n] by simp
  then show ?thesis by (simp add: send_msg_def memcpy_def)
qed

section \<open>The fixed-size demarcator\<close>

function parse_fixed :: "nat \<Rightarrow> byte list \<Rightarrow> byte list list \<times> byte list" where
  "parse_fixed m xs =
     (if m = 0 \<or> length xs < m then ([], xs)
      else (take m xs # fst (parse_fixed m (drop m xs)), snd (parse_fixed m (drop m xs))))"
  by pat_completeness auto
termination
  by (relation "measure (\<lambda>(m, xs). length xs)") auto

declare parse_fixed.simps [simp del]

definition dm_locked :: "demarcar \<Rightarrow> bool" where
  "dm_locked d \<longleftrightarrow> (case dm_bcb d of None \<Rightarrow> False | Some b \<Rightarrow> bcb_inv b \<and> lock b)"

lemma fixed_loop_parses:
  assumes "dm_ok d" "m \<noteq> 0" "unat m < 8192"
  shows "\<exists>d'. fixed_loop True m d out
      = Some (Inr (d', out @ fst (parse_fixed (unat m) (dm_contents d)))) \<and>
    dm_locked d' \<and> dm_class d' = dm_class d \<and> dm_cap d' = dm_cap d \<and>
    dm_contents d' = snd (parse_fixed (unat m) (dm_contents d))"
  using assms(1)
proof (induction "length (dm_contents d)" arbitrary: d out rule: less_induct)
  case less
  obtain b buf where d: "dm_bcb d = Some b" "dm_buffer d = Some buf" "bcb_ok b"
      "unat (buffer_size b) \<le> 8192" "length buf = 8192"
    using less.prems by (rule dm_okE)
  have q: "dm_contents d = contents b" using d by (simp add: dm_contents_def)
  show ?case
  proof (cases "length (contents b) < unat m")
    case True
    then have "BCBRead (Some b) (Some buf) m True = Inr (0, Some (b\<lparr>lock := True\<rparr>), Some buf)"
      using d(3) by (intro BCBRead_short) (simp_all add: bcb_ok_def word_less_nat_alt)
    with True d q show ?thesis
      by (subst fixed_loop.simps)
        (simp add: parse_fixed.simps dm_locked_def bcb_ok_def dm_contents_def dm_cap_def)
  next
    case False
    let ?m = "take (unat m) (contents b)"
    obtain b2 where b2: "BCBRead (Some b) (Some buf) m True
          = Inr (m, Some b2, Some (blit buf 0 ?m))" "bcb_ok b2"
        "unat (buffer_size b2) = unat (buffer_size b)" "contents b2 = drop (unat m) (contents b)"
      using bq.get_some [OF d(3), of m buf True] False d(5) assms(3) by auto
    have m: "length ?m = unat m" using False by simp
    let ?d = "d\<lparr>dm_bcb := Some b2, dm_buffer := Some ((blit buf 0 ?m)[unat m := 0])\<rparr>"
    have "take (unat m) ((blit buf 0 ?m)[unat m := 0]) = ?m"
      using take_blit_0 [of ?m buf] m by (simp add: take_update_cancel)
    moreover have l: "length (blit buf 0 ?m) = 8192"
      using assms(3) d(5) m by (simp add: length_blit)
    ultimately have one: "client_msg_recvd True (d\<lparr>dm_bcb := Some b2, dm_buffer := Some (blit buf 0 ?m)\<rparr>) m
        = Inr (?d, ?m)"
      using assms(3) by (simp add: client_msg_recvd_def store_def)
    have ok: "dm_ok ?d" using b2 l d(4) by (simp add: dm_ok_def)
    have c: "dm_contents ?d = drop (unat m) (contents b)" using b2 by (simp add: dm_contents_def)
    moreover have "0 < unat m" using assms(2) by (simp add: unat_gt_0)
    ultimately have "length (dm_contents ?d) < length (dm_contents d)" using False q by simp
    from less.hyps [OF this ok, of "out @ [?m]"] show ?thesis
      using b2(1,3) d one c q False assms(2)
      by (subst fixed_loop.simps)
        (simp add: parse_fixed.simps [of "unat m" "contents b"] unat_eq_zero dm_cap_def)
  qed
qed

lemma ProcessClientMsg_fixed:
  assumes "dm_ok d" "dm_class d = FixedSize m" "m \<noteq> 0" "unat m < 8192"
  shows "\<exists>d'. ProcessClientMsg True d
      = Some (Inr (d', fst (parse_fixed (unat m) (dm_contents d)))) \<and>
    dm_contents d' = snd (parse_fixed (unat m) (dm_contents d)) \<and>
    dm_class d' = FixedSize m \<and> dm_cap d' = dm_cap d \<and>
    (if length (dm_contents d) < unat m then dm_ok d' else dm_locked d')"
proof -
  obtain b buf where d: "dm_bcb d = Some b" "bcb_ok b"
    using assms(1) by (rule dm_okE)
  have q: "dm_contents d = contents b" using d by (simp add: dm_contents_def)
  have m: "0 < unat m" using assms(3) by (simp add: unat_gt_0)
  show ?thesis
  proof (cases "length (dm_contents d) < unat m")
    case True
    then show ?thesis
      using assms d q by (simp add: process_defs flush_defs parse_fixed.simps)
  next
    case False
    then have "0 < unat (current_size b) div unat m"
      using q m by (simp add: div_greater_zero_iff)
    then show ?thesis
      using fixed_loop_parses [OF assms(1,3,4), of "[]"] assms(2,3) d False
      by (auto simp: process_defs flush_defs)
  qed
qed

lemma locked_write_deadlocks:
  assumes "dm_locked d" "n \<noteq> 0" "length (dm_contents d) < dm_cap d"
  shows "ProcessMsg cb d msg n = Some (Inl Deadlock)"
proof -
  obtain b where b: "dm_bcb d = Some b" "bcb_inv b" "lock b"
    using assms(1) by (auto simp: dm_locked_def split: option.splits)
  have lt: "unat (current_size b) < unat (buffer_size b)"
    using assms(3) b by (simp add: dm_contents_def dm_cap_def)
  let ?a = "BCBAvailableSize b" and ?w = "if n < BCBAvailableSize b then n else BCBAvailableSize b"
  have a: "unat ?a = unat (buffer_size b) - unat (current_size b)"
    using b(2) by (rule unat_avail)
  then have "?a \<noteq> 0" using lt by auto
  moreover have "unat ?w \<le> unat ?a" by (auto simp: word_less_nat_alt)
  then have "unat (current_size b) + unat ?w \<le> unat (buffer_size b)" using a lt by linarith
  then have "BCBWrite (Some b) (Some msg) ?w = Inl Deadlock"
    using b(3) by (simp add: BCBWrite.simps(3) no_room_iff not_less)
  ultimately show ?thesis
    using assms(2) b(1) by (simp add: ProcessMsg_def feed_loop.simps [of d] Let_def)
qed

end
