(* ===== verification/Delivery.thy ===== *)
theory Delivery
  imports SvcManager Framing
begin

text \<open>
  End to end: what a client sends as length-prefixed frames is handed to the application as the
  same payloads in the same order, whatever sizes the kernel returns the bytes in, as long as no
  payload exceeds 254 bytes; a longer payload fills the circular buffer, and from then on the
  connection makes no progress.
\<close>

section \<open>Cutting a sequence of frames\<close>

definition MAX_PAYLOAD :: nat where
  "MAX_PAYLOAD = 254"

lemma length_frame [simp]: "length (frame p) = 2 + length p"
  by (simp add: frame_def)

lemma parse_frames_short:
  assumes "length xs < length (frame p)" "xs @ ys = frame p @ zs" "length p < 65536"
  shows "parse_frames xs = ([], xs)"
proof (cases xs rule: parse_frames.cases)
  case (1 h l rest)
  have hl: "[h, l] = htons_bytes (of_nat (length p))" and "rest @ ys = p @ zs"
    using assms(2) 1 by (auto simp: frame_def htons_bytes_def)
  have "ntohs_bytes (htons_bytes (of_nat (length p)) ! 0) (htons_bytes (of_nat (length p)) ! 1)
      = of_nat (length p)"
    by (rule ntohs_htons_bytes)
  then have "ntohs_bytes h l = of_nat (length p)" by (simp flip: hl)
  then have "unat (ntohs_bytes h l) = length p" using assms(3) by (simp only: unat_of_nat_u16)
  then show ?thesis using assms(1) 1 by (simp add: parse_frames_incomplete)
qed simp_all

lemma frames_split:
  assumes "xs @ ys = concat (map frame ps)" "\<forall>p \<in> set ps. length p \<le> MAX_PAYLOAD"
  shows "\<exists>ps2. ps = fst (parse_frames xs) @ ps2 \<and> snd (parse_frames xs) @ ys = concat (map frame ps2) \<and>
    length (snd (parse_frames xs)) < 256"
  using assms
proof (induction ps arbitrary: xs)
  case Nil
  then show ?case by simp
next
  case (Cons p ps)
  have p: "length p \<le> 254" using Cons.prems(2) by (simp add: MAX_PAYLOAD_def)
  show ?case
  proof (cases "length xs < length (frame p)")
    case True
    with Cons.prems(1) p have "parse_frames xs = ([], xs)"
      by (intro parse_frames_short [of xs p ys "concat (map frame ps)"]) simp_all
    with True Cons.prems(1) p show ?thesis by simp
  next
    case False
    obtain xs' where xs: "xs = frame p @ xs'" "xs' @ ys = concat (map frame ps)"
    proof
      have "take (length (frame p)) (xs @ ys) = frame p" using Cons.prems(1) by simp
      then have "take (length (frame p)) xs = frame p" using False by simp
      then show "xs = frame p @ drop (length (frame p)) xs" by (metis append_take_drop_id)
      have "drop (length (frame p)) (xs @ ys) = concat (map frame ps)" using Cons.prems(1) by simp
      then show "drop (length (frame p)) xs @ ys = concat (map frame ps)" using False by simp
    qed
    then show ?thesis
      using Cons.IH [of xs'] Cons.prems(2) p by (simp add: parse_frames_frame)
  qed
qed

section \<open>The receive loop delivers the frames\<close>

text \<open>A client of the service whose demarcator is well formed and has the default capacity.\<close>

definition conn_ok :: "client_heap \<Rightarrow> addr \<Rightarrow> bool" where
  "conn_ok h a \<longleftrightarrow> (case h a of None \<Rightarrow> False | Some c \<Rightarrow>
     (case msgd c of NullMsgd \<Rightarrow> False | WildMsgd \<Rightarrow> False | Msgd d \<Rightarrow>
        dm_ok d \<and> dm_class d = VariabSize \<and> dm_cap d = 256))"

definition conn_fd :: "client_heap \<Rightarrow> addr \<Rightarrow> int" where
  "conn_fd h a = (case h a of None \<Rightarrow> 0 | Some c \<Rightarrow> comm_fd c)"

definition conn_buffered :: "client_heap \<Rightarrow> addr \<Rightarrow> byte list" where
  "conn_buffered h a = (case h a of None \<Rightarrow> [] | Some c \<Rightarrow>
     (case msgd c of NullMsgd \<Rightarrow> [] | WildMsgd \<Rightarrow> [] | Msgd d \<Rightarrow> dm_contents d))"

definition conn_sock :: "rx \<Rightarrow> addr \<Rightarrow> sock" where
  "conn_sock w a = rx_socks w (conn_fd (rx_heap w) a)"

lemmas conn_defs = conn_ok_def conn_fd_def conn_buffered_def conn_sock_def

lemma conn_okE:
  assumes "conn_ok h a"
  obtains c d b buf where "h a = Some c" "msgd c = Msgd d" "dm_ok d" "dm_class d = VariabSize"
    "dm_cap d = 256" "dm_bcb d = Some b" "dm_buffer d = Some buf" "bcb_ok b" "unat (buffer_size b) = 256"
  using assms by (auto simp: conn_ok_def dm_ok_def dm_cap_def split: option.splits msgd_ptr.splits)

text \<open>One turn of the loop that gets data: what it appends and what it leaves.\<close>

lemma recv_loop_data:
  assumes ok: "conn_ok (rx_heap w) a"
    and room: "length (conn_buffered (rx_heap w) a) < 256"
    and pend: "pending (conn_sock w a) \<noteq> []" "\<not> sock_error (conn_sock w a)"
  defines "buf \<equiv> conn_buffered (rx_heap w) a" and "p \<equiv> pending (conn_sock w a)"
  shows "\<exists>w' n. 0 < n \<and> n \<le> length p \<and> n \<le> 256 - length buf \<and>
    recv_loop True a fd (k # ks) w = recv_loop True a fd ks w' \<and>
    conn_ok (rx_heap w') a \<and>
    conn_buffered (rx_heap w') a = snd (parse_frames (buf @ take n p)) \<and>
    conn_sock w' a = (conn_sock w a)\<lparr>pending := drop n p\<rparr> \<and>
    conn_fd (rx_heap w') a = conn_fd (rx_heap w) a \<and>
    rx_socks w' = (rx_socks w)(conn_fd (rx_heap w) a := (conn_sock w a)\<lparr>pending := drop n p\<rparr>) \<and>
    rx_out w' = rx_out w @ map (Pair a) (fst (parse_frames (buf @ take n p))) \<and>
    rx_svc w' = rx_svc w \<and> rx_closed w' = rx_closed w \<and>
    (\<forall>x. x \<noteq> a \<longrightarrow> rx_heap w' x = rx_heap w x)"
proof -
  obtain c d b bf where c: "rx_heap w a = Some c" "msgd c = Msgd d" "dm_ok d"
      "dm_class d = VariabSize" "dm_cap d = 256" "dm_bcb d = Some b" "dm_buffer d = Some bf"
      "bcb_ok b" "unat (buffer_size b) = 256"
    using ok by (rule conn_okE)
  have buf: "buf = contents b" "dm_contents d = contents b"
    using c by (simp_all add: buf_def conn_buffered_def dm_contents_def)
  have sk: "conn_sock w a = rx_socks w (comm_fd c)" using c by (simp add: conn_sock_def conn_fd_def)
  have avail: "unat (BCBAvailableSize b) = 256 - length buf"
    using bq.avail_room [OF c(8)] c(9) buf by simp
  then have space: "BCBAvailableSize b \<noteq> 0" using room buf_def by auto
  define n where "n = min (min (256 - length buf) (Suc k)) (length p)"
  have n: "0 < n" "n \<le> length p" "n \<le> 256 - length buf"
    using room pend by (auto simp: n_def buf_def p_def)
  have tk: "take (min (256 - length buf) (Suc k)) p = take n p"
    "drop (min (256 - length buf) (Suc k)) p = drop n p"
    by (auto simp: n_def min_def)
  have rv: "recv (rx_socks w (comm_fd c)) (unat (BCBAvailableSize b)) k
      = RecvData (take n p) ((conn_sock w a)\<lparr>pending := drop n p\<rparr>)"
    using pend tk by (simp add: recv_def Let_def avail flip: sk p_def)
  have len: "unat (of_nat (length (take n p)) :: u16) = n"
    using n by (subst unat_of_nat_u16) auto
  have fits: "length (dm_contents d) + n \<le> dm_cap d" "n \<le> length (take n p)"
    using n c(5) buf room by (auto simp: buf_def)
  obtain d' where d': "ProcessMsg True d (take n p) (of_nat (length (take n p)))
        = Some (Inr (d', fst (parse_frames (buf @ take n p))))"
      "dm_ok d'" "dm_class d' = VariabSize" "dm_cap d' = 256"
      "dm_contents d' = snd (parse_frames (buf @ take n p))"
    using ProcessMsg_variab [OF c(3,4), of "of_nat (length (take n p))" "take n p",
        unfolded len, OF fits] c(5) buf by auto
  let ?w = "w\<lparr>rx_heap := (rx_heap w)(a \<mapsto> c\<lparr>msgd := Msgd d'\<rparr>),
     rx_socks := (rx_socks w)(comm_fd c := (conn_sock w a)\<lparr>pending := drop n p\<rparr>),
     rx_out := rx_out w @ map (Pair a) (fst (parse_frames (buf @ take n p)))\<rparr>"
  have "recv_loop True a fd (k # ks) w = recv_loop True a fd ks ?w"
    using c space rv d'(1) by (simp add: deref_Some Let_def)
  moreover have "conn_ok (rx_heap ?w) a" "conn_buffered (rx_heap ?w) a = snd (parse_frames (buf @ take n p))"
      "conn_sock ?w a = (conn_sock w a)\<lparr>pending := drop n p\<rparr>" "conn_fd (rx_heap ?w) a = conn_fd (rx_heap w) a"
      "rx_socks ?w = (rx_socks w)(conn_fd (rx_heap w) a := (conn_sock w a)\<lparr>pending := drop n p\<rparr>)"
    using d' c by (simp_all add: conn_defs)
  ultimately show ?thesis using n by (intro exI [of _ ?w] exI [of _ n]) simp
qed

lemma recv_loop_idle:
  assumes "conn_ok (rx_heap w) a" "length (conn_buffered (rx_heap w) a) < 256"
    and "pending (conn_sock w a) = []" "\<not> sock_error (conn_sock w a)" "\<not> peer_closed (conn_sock w a)"
  shows "recv_loop True a fd (k # ks) w = Some (Inr (WouldBlock, w))"
proof -
  obtain c d b bf where c: "rx_heap w a = Some c" "msgd c = Msgd d" "dm_bcb d = Some b"
      "bcb_ok b" "unat (buffer_size b) = 256"
    using assms(1) by (rule conn_okE)
  have "unat (BCBAvailableSize b) = 256 - length (conn_buffered (rx_heap w) a)"
    using bq.avail_room [OF c(4)] c by (simp add: conn_buffered_def dm_contents_def)
  then have "BCBAvailableSize b \<noteq> 0" using assms(2) by auto
  then show ?thesis
    using assms(3-5) c by (simp add: deref_Some Let_def recv_def conn_sock_def conn_fd_def)
qed

text \<open>
  Every byte that is buffered or pending, followed by what the peer has yet to send, is a
  sequence of frames: with a schedule longer than the pending bytes, the loop reads them all.
\<close>

lemma recv_loop_frames:
  assumes "conn_ok (rx_heap w) a" "length (conn_buffered (rx_heap w) a) < 256"
    and "\<not> sock_error (conn_sock w a)" "\<not> peer_closed (conn_sock w a)"
    and "conn_buffered (rx_heap w) a @ pending (conn_sock w a) @ future = concat (map frame ps)"
    and "\<forall>p \<in> set ps. length p \<le> MAX_PAYLOAD"
    and "length (pending (conn_sock w a)) < length ks"
    and "fst (parse_frames (conn_buffered (rx_heap w) a)) = []"
  shows "\<exists>w' ps1 ps2. recv_loop True a fd ks w = Some (Inr (WouldBlock, w')) \<and> ps = ps1 @ ps2 \<and>
    rx_out w' = rx_out w @ map (Pair a) ps1 \<and> conn_ok (rx_heap w') a \<and>
    pending (conn_sock w' a) = [] \<and>
    conn_buffered (rx_heap w') a @ future = concat (map frame ps2) \<and>
    length (conn_buffered (rx_heap w') a) < 256 \<and>
    fst (parse_frames (conn_buffered (rx_heap w') a)) = []"
  using assms
proof (induction ks arbitrary: w ps)
  case Nil
  then show ?case by simp
next
  case (Cons k ks)
  show ?case
  proof (cases "pending (conn_sock w a) = []")
    case True
    with Cons.prems have "recv_loop True a fd (k # ks) w = Some (Inr (WouldBlock, w))"
      by (intro recv_loop_idle)
    with True Cons.prems show ?thesis by (intro exI [of _ w] exI [of _ "[]"] exI [of _ ps]) simp
  next
    case False
    let ?buf = "conn_buffered (rx_heap w) a" and ?p = "pending (conn_sock w a)"
    obtain w1 n where w1: "0 < n" "n \<le> length ?p"
        "recv_loop True a fd (k # ks) w = recv_loop True a fd ks w1" "conn_ok (rx_heap w1) a"
        "conn_buffered (rx_heap w1) a = snd (parse_frames (?buf @ take n ?p))"
        "conn_sock w1 a = (conn_sock w a)\<lparr>pending := drop n ?p\<rparr>"
        "rx_out w1 = rx_out w @ map (Pair a) (fst (parse_frames (?buf @ take n ?p)))"
      using recv_loop_data [OF Cons.prems(1,2) False Cons.prems(3), of fd k ks] by blast
    have "(?buf @ take n ?p) @ drop n ?p @ future = concat (map frame ps)"
      using Cons.prems(5) by (metis append.assoc append_take_drop_id)
    from frames_split [OF this Cons.prems(6)] obtain ps2 where
      ps2: "ps = fst (parse_frames (?buf @ take n ?p)) @ ps2"
        "snd (parse_frames (?buf @ take n ?p)) @ drop n ?p @ future = concat (map frame ps2)"
        "length (snd (parse_frames (?buf @ take n ?p))) < 256"
      by blast
    have room1: "length (conn_buffered (rx_heap w1) a) < 256"
      and err1: "\<not> sock_error (conn_sock w1 a)" and closed1: "\<not> peer_closed (conn_sock w1 a)"
      using w1 ps2 Cons.prems(3,4) by simp_all
    have future1: "conn_buffered (rx_heap w1) a @ pending (conn_sock w1 a) @ future
        = concat (map frame ps2)"
      using w1 ps2 by simp
    have "length (pending (conn_sock w1 a)) = length ?p - n" using w1(6) by simp
    moreover have rest1: "fst (parse_frames (conn_buffered (rx_heap w1) a)) = []"
      using w1(5) by (simp add: parse_frames_rest)
    ultimately have sched1: "length (pending (conn_sock w1 a)) < length ks"
      using Cons.prems(7) w1(1,2) by simp
    have "\<forall>p \<in> set ps2. length p \<le> MAX_PAYLOAD" using Cons.prems(6) ps2(1) by (metis Un_iff set_append)
    then obtain w' qs1 qs2 where w': "recv_loop True a fd ks w1 = Some (Inr (WouldBlock, w'))"
        "ps2 = qs1 @ qs2" "rx_out w' = rx_out w1 @ map (Pair a) qs1" "conn_ok (rx_heap w') a"
        "pending (conn_sock w' a) = []" "conn_buffered (rx_heap w') a @ future = concat (map frame qs2)"
        "length (conn_buffered (rx_heap w') a) < 256" "fst (parse_frames (conn_buffered (rx_heap w') a)) = []"
      using Cons.IH [OF w1(4) room1 err1 closed1 future1 _ sched1 rest1] by auto
    then show ?thesis
      using w1 ps2(1)
      by (intro exI [of _ w'] exI [of _ "fst (parse_frames (?buf @ take n ?p)) @ qs1"] exI [of _ qs2]) simp
  qed
qed

section \<open>Too long a message blocks the connection\<close>

lemma recv_loop_full:
  assumes "conn_ok (rx_heap w) a" "256 \<le> length (conn_buffered (rx_heap w) a)"
  shows "recv_loop cb a fd (k # ks) w = Some (Inr (BackPressure, w))"
proof -
  obtain c d b bf where c: "rx_heap w a = Some c" "msgd c = Msgd d" "dm_bcb d = Some b"
      "bcb_ok b" "unat (buffer_size b) = 256"
    using assms(1) by (rule conn_okE)
  have "unat (BCBAvailableSize b) = 256 - length (conn_buffered (rx_heap w) a)"
    using bq.avail_room [OF c(4)] c by (simp add: conn_buffered_def dm_contents_def)
  then have "BCBAvailableSize b = 0" using assms(2) by (simp add: unat_eq_zero)
  then show ?thesis using c by (simp add: deref_Some Let_def)
qed

text \<open>The bytes read so far announce a payload that the buffer cannot hold.\<close>

definition oversized :: "byte list \<Rightarrow> bool" where
  "oversized xs \<longleftrightarrow> (case xs of h # l # rest \<Rightarrow> MAX_PAYLOAD < unat (ntohs_bytes h l) | _ \<Rightarrow> False)"

lemma oversized_parse:
  assumes "oversized (xs @ ys)" "length xs \<le> 256"
  shows "parse_frames xs = ([], xs)"
proof (cases xs rule: parse_frames.cases)
  case (1 h l rest)
  then show ?thesis
    using assms by (simp add: oversized_def MAX_PAYLOAD_def parse_frames_incomplete)
qed simp_all

lemma recv_loop_oversized:
  assumes "conn_ok (rx_heap w) a" "\<not> sock_error (conn_sock w a)"
    and "oversized (conn_buffered (rx_heap w) a @ pending (conn_sock w a))"
    and "256 \<le> length (conn_buffered (rx_heap w) a @ pending (conn_sock w a))"
    and "length (pending (conn_sock w a)) < length ks"
  shows "\<exists>w'. recv_loop True a fd ks w = Some (Inr (BackPressure, w')) \<and>
    rx_out w' = rx_out w \<and> conn_ok (rx_heap w') a \<and>
    256 \<le> length (conn_buffered (rx_heap w') a)"
  using assms
proof (induction ks arbitrary: w)
  case Nil
  then show ?case by simp
next
  case (Cons k ks)
  let ?buf = "conn_buffered (rx_heap w) a" and ?p = "pending (conn_sock w a)"
  show ?case
  proof (cases "256 \<le> length ?buf")
    case True
    then show ?thesis using recv_loop_full [OF Cons.prems(1)] Cons.prems(1) by blast
  next
    case False
    then have p: "?p \<noteq> []" using Cons.prems(4) by auto
    have room: "length ?buf < 256" using False by simp
    obtain w1 n where w1: "0 < n" "n \<le> length ?p" "n \<le> 256 - length ?buf"
        "recv_loop True a fd (k # ks) w = recv_loop True a fd ks w1" "conn_ok (rx_heap w1) a"
        "conn_buffered (rx_heap w1) a = snd (parse_frames (?buf @ take n ?p))"
        "conn_sock w1 a = (conn_sock w a)\<lparr>pending := drop n ?p\<rparr>"
        "rx_out w1 = rx_out w @ map (Pair a) (fst (parse_frames (?buf @ take n ?p)))"
      using recv_loop_data [OF Cons.prems(1) room p Cons.prems(2), of fd k ks] by blast
    have split: "(?buf @ take n ?p) @ drop n ?p = ?buf @ ?p" by simp
    have "parse_frames (?buf @ take n ?p) = ([], ?buf @ take n ?p)"
      using Cons.prems(3) w1(2,3) room
      by (intro oversized_parse [of _ "drop n ?p"]) (simp_all only: split, simp_all)
    with w1 have "conn_buffered (rx_heap w1) a @ pending (conn_sock w1 a) = ?buf @ ?p"
        "rx_out w1 = rx_out w" by simp_all
    moreover have "length (pending (conn_sock w1 a)) = length ?p - n" using w1(7) by simp
    then have "length (pending (conn_sock w1 a)) < length ks"
      using Cons.prems(5) w1(1,2) by simp
    ultimately show ?thesis using Cons.IH [of w1] w1 Cons.prems by simp
  qed
qed

text \<open>
  Bytes in which the demarcator finds no message as long as its ring of 256 bytes has only room for
  a prefix of them: the loop moves them from the socket into the ring until the ring is full or the
  socket empty, delivers nothing, and never gives a byte back.
\<close>

definition unframed :: "byte list \<Rightarrow> bool" where
  "unframed xs \<longleftrightarrow> (\<forall>n \<le> 256. parse_frames (take n xs) = ([], take n xs))"

lemma unframed_Nil [simp]: "unframed []"
  by (simp add: unframed_def)

lemma oversized_unframed:
  assumes "oversized (xs @ ys)"
  shows "unframed xs"
  unfolding unframed_def
proof (intro allI impI)
  fix n :: nat assume "n \<le> 256"
  moreover have "oversized (take n xs @ drop n xs @ ys)" using assms by (metis append.assoc append_take_drop_id)
  ultimately show "parse_frames (take n xs) = ([], take n xs)" by (intro oversized_parse) auto
qed

lemma recv_loop_unframed:
  assumes "conn_ok (rx_heap w) a" "\<not> sock_error (conn_sock w a)" "\<not> peer_closed (conn_sock w a)"
    and "length (conn_buffered (rx_heap w) a) \<le> 256"
    and "unframed (conn_buffered (rx_heap w) a @ pending (conn_sock w a))"
    and "length (pending (conn_sock w a)) < length ks"
  defines "xs \<equiv> conn_buffered (rx_heap w) a @ pending (conn_sock w a)" and "f \<equiv> conn_fd (rx_heap w) a"
  shows "\<exists>w'. recv_loop True a fd ks w = Some (Inr (if 256 \<le> length xs then BackPressure else WouldBlock, w')) \<and>
    conn_ok (rx_heap w') a \<and> conn_buffered (rx_heap w') a = take 256 xs \<and>
    rx_socks w' = (rx_socks w)(f := (conn_sock w a)\<lparr>pending := drop 256 xs\<rparr>) \<and>
    conn_fd (rx_heap w') a = f \<and> rx_out w' = rx_out w \<and> rx_svc w' = rx_svc w \<and>
    rx_closed w' = rx_closed w \<and> (\<forall>x. x \<noteq> a \<longrightarrow> rx_heap w' x = rx_heap w x)"
  using assms(1-6) unfolding xs_def f_def
proof (induction ks arbitrary: w)
  case Nil
  then show ?case by simp
next
  case (Cons k ks)
  let ?buf = "conn_buffered (rx_heap w) a" and ?p = "pending (conn_sock w a)"
  have same: "rx_socks w = (rx_socks w)(conn_fd (rx_heap w) a := (conn_sock w a)\<lparr>pending := ?p\<rparr>)"
    by (simp add: conn_sock_def)
  consider (full) "256 \<le> length ?buf" | (idle) "length ?buf < 256" "?p = []"
    | (data) "length ?buf < 256" "?p \<noteq> []"
    by linarith
  then show ?case
  proof cases
    case full
    then have split: "?buf = take 256 (?buf @ ?p)" "drop 256 (?buf @ ?p) = ?p" using Cons.prems(4) by simp_all
    have "recv_loop True a fd (k # ks) w
        = Some (Inr (if 256 \<le> length (?buf @ ?p) then BackPressure else WouldBlock, w))"
      using full recv_loop_full [OF Cons.prems(1) full] by (simp del: recv_loop.simps)
    then show ?thesis unfolding split(2)
      by (intro exI [of _ w] conjI allI impI refl Cons.prems(1) split(1) same)
  next
    case idle
    then have split: "?buf = take 256 (?buf @ ?p)" "drop 256 (?buf @ ?p) = ?p" by simp_all
    have "recv_loop True a fd (k # ks) w
        = Some (Inr (if 256 \<le> length (?buf @ ?p) then BackPressure else WouldBlock, w))"
      using idle recv_loop_idle [OF Cons.prems(1) idle Cons.prems(2,3)] by (simp del: recv_loop.simps)
    then show ?thesis unfolding split(2)
      by (intro exI [of _ w] conjI allI impI refl Cons.prems(1) split(1) same)
  next
    case data
    obtain w1 n where w1: "0 < n" "n \<le> length ?p" "n \<le> 256 - length ?buf"
        "recv_loop True a fd (k # ks) w = recv_loop True a fd ks w1" "conn_ok (rx_heap w1) a"
        "conn_buffered (rx_heap w1) a = snd (parse_frames (?buf @ take n ?p))"
        "conn_sock w1 a = (conn_sock w a)\<lparr>pending := drop n ?p\<rparr>"
        "conn_fd (rx_heap w1) a = conn_fd (rx_heap w) a"
        "rx_socks w1 = (rx_socks w)(conn_fd (rx_heap w) a := (conn_sock w a)\<lparr>pending := drop n ?p\<rparr>)"
        "rx_out w1 = rx_out w @ map (Pair a) (fst (parse_frames (?buf @ take n ?p)))"
        "rx_svc w1 = rx_svc w" "rx_closed w1 = rx_closed w" "\<forall>x. x \<noteq> a \<longrightarrow> rx_heap w1 x = rx_heap w x"
      using recv_loop_data [OF Cons.prems(1) data Cons.prems(2), of fd k ks] by blast
    have "take (length ?buf + n) (?buf @ ?p) = ?buf @ take n ?p" by simp
    then have "parse_frames (?buf @ take n ?p) = ([], ?buf @ take n ?p)"
      using Cons.prems(5) w1(3) data(1) unfolding unframed_def
      by (metis le_diff_conv2 less_imp_le_nat add.commute)
    with w1(6,7,10) have xs: "conn_buffered (rx_heap w1) a @ pending (conn_sock w1 a) = ?buf @ ?p"
        "rx_out w1 = rx_out w" "length (conn_buffered (rx_heap w1) a) = length ?buf + n"
      using w1(2) by simp_all
    have open1: "\<not> sock_error (conn_sock w1 a)" "\<not> peer_closed (conn_sock w1 a)"
      using w1(7) Cons.prems(2,3) by simp_all
    have room1: "length (conn_buffered (rx_heap w1) a) \<le> 256" using xs(3) w1(3) data(1) by simp
    have unf1: "unframed (conn_buffered (rx_heap w1) a @ pending (conn_sock w1 a))"
      using Cons.prems(5) by (simp only: xs(1))
    have "length (pending (conn_sock w1 a)) < length ks" using w1(1,2,7) Cons.prems(6) by simp
    from Cons.IH [OF w1(5) open1 room1 unf1 this, unfolded xs(1)] obtain w' where
      "recv_loop True a fd ks w1 = Some (Inr (if 256 \<le> length (?buf @ ?p) then BackPressure else WouldBlock, w'))"
      "conn_ok (rx_heap w') a" "conn_buffered (rx_heap w') a = take 256 (?buf @ ?p)"
      "rx_socks w' = (rx_socks w1)(conn_fd (rx_heap w1) a := (conn_sock w1 a)\<lparr>pending := drop 256 (?buf @ ?p)\<rparr>)"
      "conn_fd (rx_heap w') a = conn_fd (rx_heap w1) a" "rx_out w' = rx_out w1" "rx_svc w' = rx_svc w1"
      "rx_closed w' = rx_closed w1" "\<forall>x. x \<noteq> a \<longrightarrow> rx_heap w' x = rx_heap w1 x"
      by blast
    with w1(4,7-9,11-13) xs(2) show ?thesis by (intro exI [of _ w']) simp
  qed
qed

end
