(* ===== verification/ServerProps.thy ===== *)
theory ServerProps
  imports Controller Delivery
begin

text \<open>
  Invariants of the server as a transition system, progress of its service thread, and what
  stopping it does. The flag words agree with the pointers, an acceptor accepts only once the
  service is ready, every client the service polls is alive; and two places where they cannot
  be kept: a client that disconnects stays in the client database, and stopping leaves the
  acceptor threads alone.
\<close>

section \<open>Flags\<close>

lemma IsBitSet_SetBit [flag_simps]:
  "IsBitSet c (SetBit b s) \<longleftrightarrow> IsBitSet c s \<or> b AND c \<noteq> 0"
  by (simp add: IsBitSet_def SetBit_def flag_simps)

lemma IsBitSet_UnSetBit_same [flag_simps]: "\<not> IsBitSet b (UnSetBit b s)"
  by (simp add: IsBitSet_def UnSetBit_def flag_simps)

lemma IsBitSet_UnSetBit_other [flag_simps]:
  "b AND c = 0 \<Longrightarrow> IsBitSet c (UnSetBit b s) = IsBitSet c s"
  by (simp add: IsBitSet_def UnSetBit_def flag_simps)

text \<open>The flag word is a field of its own.\<close>

lemma IsBitSet_frame [simp]:
  "IsBitSet b (s\<lparr>tcp_new_conn_acc := x1\<rparr>) = IsBitSet b s"
  "IsBitSet b (s\<lparr>tcp_client_db_mgr := x2\<rparr>) = IsBitSet b s"
  "IsBitSet b (s\<lparr>tcp_client_svc_mgr := x3\<rparr>) = IsBitSet b s"
  "IsBitSet b (s\<lparr>heap := x4\<rparr>) = IsBitSet b s"
  "IsBitSet b (s\<lparr>next_addr := x5\<rparr>) = IsBitSet b s"
  "IsBitSet b (s\<lparr>acc_threads := x6\<rparr>) = IsBitSet b s"
  "IsBitSet b (s\<lparr>socks := x7\<rparr>) = IsBitSet b s"
  "IsBitSet b (s\<lparr>connected := x8\<rparr>) = IsBitSet b s"
  "IsBitSet b (s\<lparr>delivered := x9\<rparr>) = IsBitSet b s"
  "IsBitSet b (s\<lparr>closed_fds := x10\<rparr>) = IsBitSet b s"
  "IsBitSet b (s\<lparr>ctrl_alive := x11\<rparr>) = IsBitSet b s"
  "IsBitSet b (s\<lparr>db_rwlock_ok := x11\<rparr>) = IsBitSet b s"
  "IsBitSet b (s\<lparr>client_connected_fn := x12\<rparr>) = IsBitSet b s"
  "IsBitSet b (s\<lparr>client_disconected_fn := x12\<rparr>) = IsBitSet b s"
  "IsBitSet b (s\<lparr>client_msg_recvd_fn := x12\<rparr>) = IsBitSet b s"
  by (simp_all add: IsBitSet_def)

lemma IsBitSet_cong: "state_flags s = state_flags t \<Longrightarrow> IsBitSet b s = IsBitSet b t"
  by (simp add: IsBitSet_def)

lemma SetBit_fields [simp]:
  "tcp_new_conn_acc (SetBit b s) = tcp_new_conn_acc s"
  "tcp_client_db_mgr (SetBit b s) = tcp_client_db_mgr s"
  "tcp_client_svc_mgr (SetBit b s) = tcp_client_svc_mgr s"
  "heap (SetBit b s) = heap s" "next_addr (SetBit b s) = next_addr s"
  "acc_threads (SetBit b s) = acc_threads s" "ctrl_alive (SetBit b s) = ctrl_alive s"
  "closed_fds (SetBit b s) = closed_fds s" "db_rwlock_ok (SetBit b s) = db_rwlock_ok s"
  by (simp_all add: SetBit_def)

lemma UnSetBit_fields [simp]:
  "tcp_new_conn_acc (UnSetBit b s) = tcp_new_conn_acc s"
  "tcp_client_db_mgr (UnSetBit b s) = tcp_client_db_mgr s"
  "tcp_client_svc_mgr (UnSetBit b s) = tcp_client_svc_mgr s"
  "heap (UnSetBit b s) = heap s" "next_addr (UnSetBit b s) = next_addr s"
  "acc_threads (UnSetBit b s) = acc_threads s" "ctrl_alive (UnSetBit b s) = ctrl_alive s"
  "closed_fds (UnSetBit b s) = closed_fds s" "db_rwlock_ok (UnSetBit b s) = db_rwlock_ok s"
  by (simp_all add: UnSetBit_def)

text \<open>The five server flags are five different bits.\<close>

lemma server_flags_disjoint [flag_simps]:
  "TCP_SERVER_INITIALIZED AND TCP_SERVER_NOT_ACCEPTING_NEW_CONNECTIONS = 0"
  "TCP_SERVER_INITIALIZED AND TCP_SERVER_NOT_LISTENING_CLIENTS = 0"
  "TCP_SERVER_RUNNING AND TCP_SERVER_NOT_ACCEPTING_NEW_CONNECTIONS = 0"
  "TCP_SERVER_RUNNING AND TCP_SERVER_NOT_LISTENING_CLIENTS = 0"
  "TCP_SERVER_NOT_ACCEPTING_NEW_CONNECTIONS AND TCP_SERVER_NOT_LISTENING_CLIENTS = 0"
  "TCP_SERVER_NOT_LISTENING_CLIENTS AND TCP_SERVER_NOT_ACCEPTING_NEW_CONNECTIONS = 0"
  "TCP_SERVER_NOT_ACCEPTING_NEW_CONNECTIONS \<noteq> 0" "TCP_SERVER_NOT_LISTENING_CLIENTS \<noteq> 0"
  by (simp_all add: server_flag_defs)

section \<open>The invariants\<close>

text \<open>The flags agree with the pointers.\<close>

definition flags_inv :: "server \<Rightarrow> bool" where
  "flags_inv s \<longleftrightarrow>
     IsBitSet TCP_SERVER_NOT_ACCEPTING_NEW_CONNECTIONS s = (tcp_new_conn_acc s = None) \<and>
     IsBitSet TCP_SERVER_NOT_LISTENING_CLIENTS s = (tcp_client_svc_mgr s = None)"

text \<open>An acceptor thread in its loop: the service has its epoll descriptor.\<close>

definition ready_inv :: "server \<Rightarrow> bool" where
  "ready_inv s \<longleftrightarrow> (\<forall>m. tcp_client_svc_mgr s = Some m \<longrightarrow>
     is_ready m = (epfd m \<noteq> None) \<and>
     ((\<exists>fd. (fd, AccListening) \<in> set (acc_threads s)) \<longrightarrow> is_ready m))"

text \<open>The clients the service polls are alive, polled once, and have a demarcator.\<close>

definition clients_inv :: "server \<Rightarrow> bool" where
  "clients_inv s \<longleftrightarrow> (\<forall>a. heap s a \<noteq> None \<longrightarrow> a < next_addr s) \<and>
     (\<forall>m. tcp_client_svc_mgr s = Some m \<longrightarrow> distinct (svc_db m) \<and>
       (\<forall>a \<in> set (svc_db m). \<exists>c. heap s a = Some c \<and> (\<exists>d. msgd c = Msgd d)))"

text \<open>Every live client is in the client database, which the controller has until it stops.\<close>

definition db_inv :: "server \<Rightarrow> bool" where
  "db_inv s \<longleftrightarrow> (ctrl_alive s \<longrightarrow> (\<exists>db. tcp_client_db_mgr s = Some db \<and> distinct db \<and>
     dom (heap s) \<subseteq> set db \<and> (\<forall>a \<in> set db. a < next_addr s)))"

lemmas inv_defs = flags_inv_def ready_inv_def clients_inv_def db_inv_def

section \<open>What the service manager's operations keep\<close>

lemma epoll_add_frame [simp]:
  "is_ready (epoll_add fd m) = is_ready m" "epfd (epoll_add fd m) = epfd m"
  "svc_db (epoll_add fd m) = svc_db m" "svc_threads (epoll_add fd m) = svc_threads m"
  by (simp_all add: epoll_add_def split: option.split)

lemma epoll_add_clients_frame:
  "epoll_add_clients h as m = Inr m' \<Longrightarrow>
   is_ready m' = is_ready m \<and> epfd m' = epfd m \<and> svc_db m' = svc_db m \<and> svc_threads m' = svc_threads m"
  by (induction as arbitrary: m) fastforce+

lemma svc_thread_begin_frame:
  "svc_thread_begin i h fd m = Inr m' \<Longrightarrow> is_ready m' \<and> epfd m' = Some fd \<and> svc_db m' = svc_db m"
  by (auto simp: svc_thread_begin_def Let_def dest!: epoll_add_clients_frame)

text \<open>The state of a receive loop: the polled clients are alive, with demarcators.\<close>

definition rx_inv :: "rx \<Rightarrow> bool" where
  "rx_inv w \<longleftrightarrow> distinct (svc_db (rx_svc w)) \<and>
     (\<forall>a \<in> set (svc_db (rx_svc w)). \<exists>c. rx_heap w a = Some c \<and> (\<exists>d. msgd c = Msgd d))"

definition rx_frame :: "rx \<Rightarrow> rx \<Rightarrow> bool" where
  "rx_frame w w' \<longleftrightarrow> dom (rx_heap w') \<subseteq> dom (rx_heap w) \<and>
     is_ready (rx_svc w') = is_ready (rx_svc w) \<and> epfd (rx_svc w') = epfd (rx_svc w)"

lemma rx_frame_trans: "rx_frame w v \<Longrightarrow> rx_frame v u \<Longrightarrow> rx_frame w u"
  unfolding rx_frame_def by (metis order_trans)

lemma rx_frame_refl [simp]: "rx_frame w w"
  by (simp add: rx_frame_def)

lemma drop_client_keeps:
  assumes "drop_client a cfd fd w = Inr w'" "rx_inv w"
  shows "rx_inv w' \<and> rx_frame w w'"
  using assms
  by (auto simp: drop_client_def RemoveClient_def Let_def rx_inv_def rx_frame_def epoll_del_def
      distinct_removeAll split: if_splits)

lemma recv_loop_keeps:
  "recv_loop cb a fd ks w = Some (Inr (st, w')) \<Longrightarrow> rx_inv w \<Longrightarrow> rx_inv w' \<and> rx_frame w w'"
proof (induction cb a fd ks w rule: recv_loop.induct)
  case (2 cb a fd k ks w)
  obtain c d b where c: "rx_heap w a = Some c" "msgd c = Msgd d" "dm_bcb d = Some b"
    using "2.prems"(1) by (auto simp: deref_def split: option.splits msgd_ptr.splits)
  let ?r = "recv (rx_socks w (comm_fd c)) (unat (BCBAvailableSize b)) k"
  show ?case
  proof (cases ?r)
    case (RecvData bs sk)
    show ?thesis
    proof (cases "BCBAvailableSize b = 0")
      case True
      with "2.prems" c show ?thesis by (auto simp: deref_Some Let_def)
    next
      case False
      then obtain d' ms where d': "ProcessMsg cb d bs (of_nat (length bs)) = Some (Inr (d', ms))"
        using "2.prems"(1) c RecvData
        by (auto simp: deref_Some Let_def split: option.splits sum.splits)
      let ?w = "w\<lparr>rx_heap := (rx_heap w)(a \<mapsto> c\<lparr>msgd := Msgd d'\<rparr>),
         rx_socks := (rx_socks w)(comm_fd c := sk), rx_out := rx_out w @ map (Pair a) ms\<rparr>"
      have eq: "recv_loop cb a fd ks ?w = Some (Inr (st, w'))"
        using "2.prems"(1) c False RecvData d' by (simp add: deref_Some Let_def)
      have "rx_inv ?w" using "2.prems"(2) by (auto simp: rx_inv_def)
      moreover have "rx_frame w ?w" using c by (auto simp: rx_frame_def)
      ultimately show ?thesis
        using "2.IH" [of c d b "BCBAvailableSize b" bs sk "Inr (d', ms)" "(d', ms)" d' ms]
          c False RecvData d' eq rx_frame_trans
        by (auto simp: deref_Some)
    qed
  next
    case RecvClosed
    with "2.prems" c show ?thesis
      by (auto simp: deref_Some Let_def split: if_splits dest: drop_client_keeps)
  next
    case RecvAgain
    with "2.prems" c show ?thesis by (auto simp: deref_Some Let_def split: if_splits)
  next
    case RecvError
    with "2.prems" c show ?thesis
      by (auto simp: deref_Some Let_def split: if_splits dest: drop_client_keeps)
  qed
qed simp

lemma epoll_round_keeps:
  "epoll_round cb evs w = Some (Inr w') \<Longrightarrow> rx_inv w \<Longrightarrow> rx_inv w' \<and> rx_frame w w'"
proof (induction cb evs w rule: epoll_round.induct)
  case (2 cb fd ks evs w)
  obtain r where r: "GetClientByFd (rx_heap w) (svc_db (rx_svc w)) fd = Inr r"
    using "2.prems"(1) by (auto split: sum.splits)
  show ?case
  proof (cases r)
    case None
    then show ?thesis using 2 r by simp
  next
    case (Some a)
    then obtain st v where v: "recv_loop cb a fd ks w = Some (Inr (st, v))"
        "epoll_round cb evs v = Some (Inr w')"
      using "2.prems"(1) r by (auto split: option.splits sum.splits)
    have "rx_inv v" "rx_frame w v" using recv_loop_keeps [OF v(1) "2.prems"(2)] by auto
    with "2.IH"(2) [OF r Some v(1) refl refl v(2)] show ?thesis using rx_frame_trans by blast
  qed
qed simp

lemma serve_round_frame:
  assumes "serve_round evs s = Some (Inr s')" "tcp_client_svc_mgr s = Some m"
    and "distinct (svc_db m)" "\<forall>a \<in> set (svc_db m). \<exists>c. heap s a = Some c \<and> (\<exists>d. msgd c = Msgd d)"
  shows "\<exists>m'. tcp_client_svc_mgr s' = Some m' \<and> distinct (svc_db m') \<and>
    (\<forall>a \<in> set (svc_db m'). \<exists>c. heap s' a = Some c \<and> (\<exists>d. msgd c = Msgd d)) \<and>
    is_ready m' = is_ready m \<and> epfd m' = epfd m \<and> dom (heap s') \<subseteq> dom (heap s) \<and>
    state_flags s' = state_flags s \<and> tcp_new_conn_acc s' = tcp_new_conn_acc s \<and>
    tcp_client_db_mgr s' = tcp_client_db_mgr s \<and> next_addr s' = next_addr s \<and>
    acc_threads s' = acc_threads s \<and> ctrl_alive s' = ctrl_alive s"
proof -
  let ?w = "\<lparr>rx_heap = heap s, rx_svc = m, rx_socks = socks s, rx_out = [], rx_closed = []\<rparr>"
  obtain w where w: "epoll_round (client_msg_recvd_fn s = AppFn) evs ?w = Some (Inr w)"
    and s': "s' = s\<lparr>heap := rx_heap w, tcp_client_svc_mgr := Some (rx_svc w), socks := rx_socks w,
      delivered := delivered s @ rx_out w, closed_fds := closed_fds s @ rx_closed w\<rparr>"
    using assms(1,2) by (auto simp: serve_round_def split: option.splits sum.splits)
  have "rx_inv ?w" using assms(3,4) by (simp add: rx_inv_def)
  from epoll_round_keeps [OF w this] show ?thesis by (simp add: s' rx_inv_def rx_frame_def)
qed

section \<open>What the controller's operations keep\<close>

definition server_inv :: "server \<Rightarrow> bool" where
  "server_inv s \<longleftrightarrow> flags_inv s \<and> ready_inv s \<and> clients_inv s \<and> db_inv s"

lemmas server_inv_defs = server_inv_def inv_defs

lemma Start_inv:
  assumes "Start created s = Inr s'" "server_inv s"
  shows "server_inv s'"
proof -
  obtain m acc where m: "tcp_client_svc_mgr s = Some m" "tcp_new_conn_acc s = Some acc"
    and s': "s' = SetBit TCP_SERVER_RUNNING (s\<lparr>tcp_client_svc_mgr :=
        Some (StartTcpClientServiceManagerThread m),
        acc_threads := acc_threads s @ [(accept_fd acc, AccWaiting)]\<rparr>)"
    using assms(1)
    by (auto simp: Start_def StartTcpConnectionAcceptorThread_def split: option.splits if_splits)
  with assms(2) m show ?thesis
    by (auto simp: s' server_inv_defs flag_simps StartTcpClientServiceManagerThread_def)
qed

lemma StopConnectionAcceptingSvc_inv:
  "server_inv s \<Longrightarrow> server_inv (StopConnectionAcceptingSvc s)"
  by (auto simp: StopConnectionAcceptingSvc_def server_inv_defs flag_simps)

lemma StartConectionAcceptionSvc_inv:
  assumes "StartConectionAcceptionSvc fd created s = Inr s'" "server_inv s"
  shows "server_inv s'"
  using assms
  by (auto simp: StartConectionAcceptionSvc_def StartTcpConnectionAcceptorThread_def
      server_inv_defs flag_simps split: if_splits option.splits)

lemma StopClientSvcMgr_frame:
  assumes "StopClientSvcMgr s = Inr s'" "flags_inv s"
  shows "tcp_client_svc_mgr s' = None \<and> flags_inv s' \<and> tcp_new_conn_acc s' = tcp_new_conn_acc s \<and>
    tcp_client_db_mgr s' = tcp_client_db_mgr s \<and> heap s' = heap s \<and> next_addr s' = next_addr s \<and>
    acc_threads s' = acc_threads s \<and> ctrl_alive s' = ctrl_alive s \<and> closed_fds s' = closed_fds s \<and>
    db_rwlock_ok s' = db_rwlock_ok s"
  using assms
  by (auto simp: StopClientSvcMgr_def flags_inv_def flag_simps
      split: if_splits option.splits)

lemma StopClientSvcMgr_inv:
  "StopClientSvcMgr s = Inr s' \<Longrightarrow> server_inv s \<Longrightarrow> server_inv s'"
  using StopClientSvcMgr_frame [of s s']
  by (auto simp: server_inv_def ready_inv_def clients_inv_def db_inv_def)

lemma CreateActiveAClient_inv:
  assumes "CreateActiveAClient ip port found junk s = Inr s'" "server_inv s"
  shows "server_inv s'"
  using assms
  by (fastforce simp: CreateActiveAClient_def AddClienttoDb_def Let_def server_inv_defs IsBitSet_def
      split: if_splits option.splits)

lemma accept_client_inv:
  assumes "accept_client fd ip port oks junk s = Inr s'" "server_inv s"
  shows "server_inv s'"
proof -
  let ?a = "next_addr s"
  obtain db m where *: "tcp_client_db_mgr s = Some db" "tcp_client_svc_mgr s = Some m"
      "\<exists>c. heap s' ?a = Some c \<and> (\<exists>d. msgd c = Msgd d)"
      "tcp_client_svc_mgr s' = Some (epoll_add fd (AddClientToDB ?a m))"
      "\<forall>x. x \<noteq> ?a \<longrightarrow> heap s' x = heap s x" "tcp_client_db_mgr s' = Some (db @ [?a])"
      "next_addr s' = Suc ?a" "state_flags s' = state_flags s" "acc_threads s' = acc_threads s"
      "tcp_new_conn_acc s' = tcp_new_conn_acc s" "ctrl_alive s' = ctrl_alive s"
    using assms(1)
    by (auto simp: accept_client_def ProcessNewClient_def AddClienttoDb_def AddClientToEpoll_def
        ClientFDStartListen_def SetState_def Let_def split: if_splits option.splits)
  have fresh: "heap s ?a = None" using assms(2) by (fastforce simp: server_inv_defs)
  then have "?a \<notin> set (svc_db m)" "\<forall>x \<in> set (svc_db m). x \<noteq> ?a"
    using assms(2) *(2) by (force simp: server_inv_defs)+
  moreover have "?a \<notin> set db" if "ctrl_alive s" using assms(2) *(1) that by (auto simp: server_inv_defs)
  moreover have "dom (heap s') = insert ?a (dom (heap s))"
    using *(3,5) by (auto simp: dom_def) (metis option.distinct(1))+
  moreover have "\<forall>x. heap s' x \<noteq> None \<longrightarrow> x < Suc ?a"
    using *(5) assms(2) by (metis clients_inv_def less_Suc_eq server_inv_def)
  ultimately show ?thesis
    using * assms(2) by (auto simp: server_inv_defs AddClientToDB_def IsBitSet_def less_Suc_eq)
qed

lemma Stop_frame:
  assumes "Stop s = Inr s'" "flags_inv s"
  shows "flags_inv s' \<and> tcp_client_svc_mgr s' = None \<and> tcp_new_conn_acc s' = None \<and>
    tcp_client_db_mgr s' = None \<and> \<not> ctrl_alive s' \<and> next_addr s' = next_addr s \<and>
    acc_threads s' = acc_threads s \<and>
    (\<exists>db fds. tcp_client_db_mgr s = Some db \<and> purge_loop db (heap s) [] = Inr (heap s', fds))"
proof -
  define s1 where "s1 = (if tcp_new_conn_acc s \<noteq> None
    then SetBit TCP_SERVER_NOT_ACCEPTING_NEW_CONNECTIONS (StopConnectionAcceptingSvc s) else s)"
  have s1: "flags_inv s1" "tcp_new_conn_acc s1 = None" "tcp_client_svc_mgr s1 = tcp_client_svc_mgr s"
      "tcp_client_db_mgr s1 = tcp_client_db_mgr s" "heap s1 = heap s" "next_addr s1 = next_addr s"
      "acc_threads s1 = acc_threads s"
    using assms(2)
    by (auto simp: s1_def StopConnectionAcceptingSvc_def flags_inv_def flag_simps)
  obtain s2 where s2: "(if tcp_client_svc_mgr s1 \<noteq> None
      then rbind (StopClientSvcMgr s1) (\<lambda>s. Inr (SetBit TCP_SERVER_NOT_LISTENING_CLIENTS s))
      else Inr s1) = Inr s2"
    and rest: "rbind (Purge s2) (\<lambda>s.
        let s = UnSetBit TCP_SERVER_RUNNING (s\<lparr>tcp_client_db_mgr := None\<rparr>) in
        rbind (TcpServerController_destructor s) (\<lambda>_. Inr (s\<lparr>ctrl_alive := False\<rparr>))) = Inr s'"
    using assms(1) unfolding Stop_def Let_def s1_def by auto
  have s2': "flags_inv s2" "tcp_client_svc_mgr s2 = None" "tcp_new_conn_acc s2 = None"
      "tcp_client_db_mgr s2 = tcp_client_db_mgr s" "heap s2 = heap s" "next_addr s2 = next_addr s"
      "acc_threads s2 = acc_threads s"
    using s2 s1 StopClientSvcMgr_frame [of s1]
    by (auto simp: flags_inv_def flag_simps split: if_splits)
  show ?thesis
    using rest s2'
    by (auto simp: Purge_def Let_def flags_inv_def flag_simps
        split: option.splits if_splits)
qed

text \<open>A client whose pointer to the demarcator was never set.\<close>

definition wild_client :: "client_heap \<Rightarrow> addr \<Rightarrow> bool" where
  "wild_client h a \<longleftrightarrow> (case h a of None \<Rightarrow> False | Some c \<Rightarrow> msgd c = WildMsgd)"

lemma wild_client_upd [simp]: "x \<noteq> a \<Longrightarrow> wild_client (h(a := v)) x = wild_client h x"
  by (simp add: wild_client_def)

lemma wild_client_dead [simp]: "\<not> wild_client (h(a := None)) a"
  by (simp add: wild_client_def)

lemma purge_loop_Cons:
  "h a = Some c \<Longrightarrow> as = [] \<or> hd as \<noteq> a \<Longrightarrow> \<not> wild_client h a \<Longrightarrow>
   purge_loop (a # as) h fds =
   purge_loop (removeAll a as) (h(a := None)) (fds @ (if comm_fd c \<noteq> 0 then [comm_fd c] else []))"
  by (auto simp: deref_Some Abort_client_cases wild_client_def)

lemma purge_loop_wild:
  "wild_client h a \<Longrightarrow> as = [] \<or> hd as \<noteq> a \<Longrightarrow> purge_loop (a # as) h fds = Inl Uninitialised"
  by (auto simp: deref_Some Abort_client_cases wild_client_def split: option.splits)

lemma purge_loop_dead: "h a = None \<Longrightarrow> purge_loop (a # as) h fds = Inl UseAfterFree"
  by (simp add: deref_None)

declare purge_loop.simps(2) [simp del]

lemma purge_loop_dom:
  "purge_loop as h fds = Inr (h', fds') \<Longrightarrow> dom h' = dom h - set as \<and> set as \<subseteq> dom h"
proof (induction as h fds rule: purge_loop.induct)
  case (2 a as h fds)
  obtain c where c: "h a = Some c" "as = [] \<or> hd as \<noteq> a" "\<not> wild_client h a"
    using "2.prems" by (auto simp: purge_loop.simps(2) deref_def Abort_client_cases wild_client_def
        split: if_splits option.splits)
  have abort: "Abort_client c = Inr (if comm_fd c \<noteq> 0 then [comm_fd c] else [])"
    using c(1,3) by (simp add: Abort_client_cases wild_client_def)
  have "purge_loop (removeAll a as) (h(a := None)) (fds @ (if comm_fd c \<noteq> 0 then [comm_fd c] else []))
      = Inr (h', fds')"
    using "2.prems" purge_loop_Cons [of h a c as, OF c] by simp
  from "2.IH" [OF _ deref_Some [of h a c, OF c(1)] abort this] c
  have "dom h' = dom (h(a := None)) - set (removeAll a as)"
    "set (removeAll a as) \<subseteq> dom (h(a := None))" by blast+
  then show ?case using c(1) by (simp only: dom_fun_upd set_removeAll) auto
qed simp

lemma purge_loop_ok:
  "distinct as \<Longrightarrow> set as \<subseteq> dom h \<Longrightarrow> \<forall>x \<in> set as. \<not> wild_client h x \<Longrightarrow>
   purge_loop as h fds = Inr (h |` (- set as), fds @ filter (\<lambda>f. f \<noteq> 0) (map (\<lambda>a. comm_fd (the (h a))) as))"
proof (induction as arbitrary: h fds)
  case Nil
  then show ?case by simp
next
  case (Cons a as)
  then obtain c where c: "h a = Some c" by auto
  have nd: "as = [] \<or> hd as \<noteq> a" and rm: "removeAll a as = as"
    using Cons.prems(1) by (auto simp: hd_in_set removeAll_id)
  have tame: "\<not> wild_client h a" using Cons.prems(3) by simp
  have "set as \<subseteq> dom (h(a := None))" "\<forall>x \<in> set as. \<not> wild_client (h(a := None)) x"
    using Cons.prems by (auto simp: wild_client_def)
  from Cons.IH [OF _ this] Cons.prems(1)
  have "purge_loop (a # as) h fds = Inr ((h(a := None)) |` (- set as),
      (fds @ (if comm_fd c \<noteq> 0 then [comm_fd c] else [])) @
        filter (\<lambda>f. f \<noteq> 0) (map (\<lambda>x. comm_fd (the ((h(a := None)) x))) as))"
    by (simp only: purge_loop_Cons [of h a c as, OF c nd tame] rm distinct.simps)
  moreover have "(h(a := None)) |` (- set as) = h |` (- set (a # as))"
    by (rule ext) (simp add: restrict_map_def)
  moreover have "map (\<lambda>x. comm_fd (the ((h(a := None)) x))) as = map (\<lambda>x. comm_fd (the (h x))) as"
    using Cons.prems(1) by auto
  ultimately show ?case using c by (simp only:) simp
qed

text \<open>A dangling entry makes the purge use freed memory.\<close>

lemma purge_loop_dangling:
  assumes "a \<in> set as" "h a = None" "distinct as" "\<forall>x \<in> set as. \<not> wild_client h x"
  shows "purge_loop as h fds = Inl UseAfterFree"
  using assms
proof (induction as arbitrary: h fds)
  case Nil
  then show ?case by simp
next
  case (Cons x as)
  have nd: "as = [] \<or> hd as \<noteq> x" and rm: "removeAll x as = as"
    using Cons.prems(3) by (auto simp: hd_in_set removeAll_id)
  show ?case
  proof (cases "h x")
    case None
    then show ?thesis by (rule purge_loop_dead)
  next
    case (Some c)
    with Cons.prems have "a \<in> set as" "(h(x := None)) a = None"
        "\<forall>y \<in> set as. \<not> wild_client (h(x := None)) y" by (auto simp: wild_client_def)
    moreover have tame: "\<not> wild_client h x" using Cons.prems(4) by simp
    ultimately show ?thesis using Cons.IH [of "h(x := None)"] Cons.prems(3)
      by (simp only: purge_loop_Cons [of h x c as, OF Some nd tame] rm distinct.simps)
  qed
qed

text \<open>So does a pointer to a demarcator that was never set, unless a freed client comes first.\<close>

lemma purge_loop_uninitialised:
  assumes "a \<in> set as" "wild_client h a" "distinct as" "set as \<subseteq> dom h"
  shows "purge_loop as h fds = Inl Uninitialised"
  using assms
proof (induction as arbitrary: h fds)
  case Nil
  then show ?case by simp
next
  case (Cons x as)
  have nd: "as = [] \<or> hd as \<noteq> x" and rm: "removeAll x as = as"
    using Cons.prems(3) by (auto simp: hd_in_set removeAll_id)
  show ?case
  proof (cases "wild_client h x")
    case True
    then show ?thesis using nd by (rule purge_loop_wild)
  next
    case False
    obtain c where c: "h x = Some c" using Cons.prems(4) by auto
    have "a \<noteq> x" using False Cons.prems(2) by auto
    then have "a \<in> set as" "wild_client (h(x := None)) a" "set as \<subseteq> dom (h(x := None))"
      using Cons.prems by auto
    with Cons.IH [of "h(x := None)"] Cons.prems(3) show ?thesis
      by (simp only: purge_loop_Cons [of h x c as, OF c nd False] rm distinct.simps)
  qed
qed

lemma Stop_inv: "Stop s = Inr s' \<Longrightarrow> server_inv s \<Longrightarrow> server_inv s'"
  using Stop_frame [of s s']
  by (auto simp: server_inv_def ready_inv_def clients_inv_def db_inv_def dest: purge_loop_dom)
    (metis Diff_iff domI domIff option.exhaust purge_loop_dom)

lemma svc_begin_inv:
  assumes "svc_thread_begin i (heap s) fd m = Inr m'" "tcp_client_svc_mgr s = Some m" "server_inv s"
  shows "server_inv (s\<lparr>tcp_client_svc_mgr := Some m'\<rparr>)"
  using svc_thread_begin_frame [OF assms(1)] assms(2,3)
  by (auto simp: server_inv_defs IsBitSet_def)

lemma svc_turn_inv:
  assumes "serve_round evs s = Some (Inr s')" "tcp_client_svc_mgr s = Some m" "server_inv s"
  shows "server_inv s'"
proof -
  have "distinct (svc_db m)" "\<forall>a \<in> set (svc_db m). \<exists>c. heap s a = Some c \<and> (\<exists>d. msgd c = Msgd d)"
    using assms(2,3) by (auto simp: server_inv_defs)
  from serve_round_frame [OF assms(1,2) this] obtain m' where
    *: "tcp_client_svc_mgr s' = Some m'" "distinct (svc_db m')"
      "\<forall>a \<in> set (svc_db m'). \<exists>c. heap s' a = Some c \<and> (\<exists>d. msgd c = Msgd d)"
      "is_ready m' = is_ready m" "epfd m' = epfd m" "dom (heap s') \<subseteq> dom (heap s)"
      "state_flags s' = state_flags s" "tcp_new_conn_acc s' = tcp_new_conn_acc s"
      "tcp_client_db_mgr s' = tcp_client_db_mgr s" "next_addr s' = next_addr s"
      "acc_threads s' = acc_threads s" "ctrl_alive s' = ctrl_alive s"
    by blast
  then have "\<forall>a. heap s' a \<noteq> None \<longrightarrow> a < next_addr s'"
    using assms(3) by (auto simp: server_inv_defs)
  with * assms(2,3) show ?thesis by (auto simp: server_inv_defs IsBitSet_def)
qed

lemma acc_begin_inv:
  assumes "acceptor_thread_begin fd ok s = Inr (Some s')" "server_inv s"
  shows "server_inv s'"
  using assms
  by (auto simp: acceptor_thread_begin_def WaitUntilReady_def server_inv_defs IsBitSet_def
      split: option.splits if_splits)

lemmas op_inv = Start_inv StopConnectionAcceptingSvc_inv StartConectionAcceptionSvc_inv
  StopClientSvcMgr_inv CreateActiveAClient_inv accept_client_inv Stop_inv svc_begin_inv
  svc_turn_inv acc_begin_inv

lemma server_step_inv: "server_step s s' \<Longrightarrow> server_inv s \<Longrightarrow> server_inv s'"
proof (induction rule: server_step.induct)
  case (set_callbacks s c d m)
  then show ?case by (auto simp: SetServerNotifCallbacks_def server_inv_defs IsBitSet_def)
next
  case (peer s sk)
  then show ?case by (auto simp: server_inv_defs IsBitSet_def)
qed (blast intro: op_inv)+

lemma init_inv:
  assumes "TcpServerController_new junk ip port name fd = Inr s"
    and "heap junk = Map.empty" "acc_threads junk = []"
  shows "server_inv s"
  using assms
  by (auto simp: TcpServerController_new_def server_inv_defs flag_simps IsBitSet_def SetBit_def
      TcpClientServiceManager_new_def)

lemma reachable_inv: "reachable s \<Longrightarrow> server_inv s"
  by (induction rule: reachable.induct) (auto intro: init_inv server_step_inv)

section \<open>Stopping\<close>

lemma svc_clear_loop_ok: "distinct as \<Longrightarrow> svc_clear_loop as = Inr []"
  by (induction as) (auto simp: removeAll_id dest: hd_in_set)

text \<open>A service that can be stopped: a thread was created, and no client is listed twice.\<close>

definition svc_stoppable :: "server \<Rightarrow> bool" where
  "svc_stoppable s \<longleftrightarrow> (\<forall>m. tcp_client_svc_mgr s = Some m \<longrightarrow> svc_threads m \<noteq> [] \<and> distinct (svc_db m))"

lemma StopClientSvcMgr_ok:
  assumes "flags_inv s" "svc_stoppable s" "tcp_client_svc_mgr s \<noteq> None"
  shows "\<exists>s'. StopClientSvcMgr s = Inr s'"
proof -
  obtain m where "tcp_client_svc_mgr s = Some m" "svc_threads m \<noteq> []" "distinct (svc_db m)"
    using assms by (auto simp: svc_stoppable_def)
  with assms(1) show ?thesis
    by (simp add: StopClientSvcMgr_def flags_inv_def svc_stop_def StopTcpClientServiceManagerThread_def svc_clear_loop_ok)
qed

text \<open>
  What \<^verbatim>\<open>Stop\<close> comes to: the lock and the purge of the client database decide.
\<close>

lemma Stop_purges:
  assumes "flags_inv s" "svc_stoppable s" "tcp_client_db_mgr s = Some db"
  shows "case (if db_rwlock_ok s then purge_loop db (heap s) [] else Inl Uninitialised) of Inl e \<Rightarrow> Stop s = Inl e
    | Inr (h, fds) \<Rightarrow> \<exists>s'. Stop s = Inr s' \<and> heap s' = h \<and> closed_fds s' = closed_fds s @ fds"
proof -
  define s1 where "s1 = (if tcp_new_conn_acc s \<noteq> None
    then SetBit TCP_SERVER_NOT_ACCEPTING_NEW_CONNECTIONS (StopConnectionAcceptingSvc s) else s)"
  have s1: "flags_inv s1" "svc_stoppable s1" "tcp_new_conn_acc s1 = None"
      "tcp_client_svc_mgr s1 = tcp_client_svc_mgr s" "tcp_client_db_mgr s1 = Some db"
      "heap s1 = heap s" "closed_fds s1 = closed_fds s" "db_rwlock_ok s1 = db_rwlock_ok s"
    using assms
    by (auto simp: s1_def StopConnectionAcceptingSvc_def flags_inv_def flag_simps svc_stoppable_def)
  obtain s2 where s2: "(if tcp_client_svc_mgr s1 \<noteq> None
      then rbind (StopClientSvcMgr s1) (\<lambda>s. Inr (SetBit TCP_SERVER_NOT_LISTENING_CLIENTS s))
      else Inr s1) = Inr s2"
    using StopClientSvcMgr_ok [OF s1(1,2)] by (cases "tcp_client_svc_mgr s1") auto
  have s2': "tcp_client_svc_mgr s2 = None" "tcp_new_conn_acc s2 = None" "tcp_client_db_mgr s2 = Some db"
      "heap s2 = heap s" "closed_fds s2 = closed_fds s" "db_rwlock_ok s2 = db_rwlock_ok s"
  proof -
    have "tcp_client_svc_mgr s2 = None \<and> tcp_new_conn_acc s2 = None \<and> tcp_client_db_mgr s2 = Some db \<and>
      heap s2 = heap s \<and> closed_fds s2 = closed_fds s \<and> db_rwlock_ok s2 = db_rwlock_ok s"
    proof (cases "tcp_client_svc_mgr s1 = None")
      case True
      with s2 s1 show ?thesis by simp
    next
      case False
      with s2 obtain t where t: "StopClientSvcMgr s1 = Inr t" "s2 = SetBit TCP_SERVER_NOT_LISTENING_CLIENTS t"
        by auto
      with StopClientSvcMgr_frame [OF t(1) s1(1)] s1 show ?thesis by simp
    qed
    then show "tcp_client_svc_mgr s2 = None" "tcp_new_conn_acc s2 = None" "tcp_client_db_mgr s2 = Some db"
      "heap s2 = heap s" "closed_fds s2 = closed_fds s" "db_rwlock_ok s2 = db_rwlock_ok s" by blast+
  qed
  have "Stop s = rbind (Purge s2) (\<lambda>s.
      let s = UnSetBit TCP_SERVER_RUNNING (s\<lparr>tcp_client_db_mgr := None\<rparr>) in
      rbind (TcpServerController_destructor s) (\<lambda>_. Inr (s\<lparr>ctrl_alive := False\<rparr>)))"
    using s2 unfolding Stop_def Let_def s1_def [symmetric] by simp
  then show ?thesis
    using s2'
    by (auto simp: Purge_def TcpServerController_destructor_def split: sum.splits)
qed

lemma Stop_ok:
  assumes "flags_inv s" "svc_stoppable s" "tcp_client_db_mgr s = Some db" "distinct db"
    and "set db \<subseteq> dom (heap s)" "db_rwlock_ok s" "\<forall>a \<in> set db. \<not> wild_client (heap s) a"
  shows "\<exists>s'. Stop s = Inr s' \<and> heap s' = heap s |` (- set db) \<and> acc_threads s' = acc_threads s \<and>
    closed_fds s' = closed_fds s @ filter (\<lambda>f. f \<noteq> 0) (map (\<lambda>a. comm_fd (the (heap s a))) db) \<and>
    tcp_client_svc_mgr s' = None \<and> tcp_new_conn_acc s' = None \<and> tcp_client_db_mgr s' = None"
proof -
  have "purge_loop db (heap s) [] =
      Inr (heap s |` (- set db), filter (\<lambda>f. f \<noteq> 0) (map (\<lambda>a. comm_fd (the (heap s a))) db))"
    using purge_loop_ok [OF assms(4,5,7), of "[]"] by simp
  with Stop_purges [OF assms(1-3)] assms(6) obtain s' where "Stop s = Inr s'" "heap s' = heap s |` (- set db)"
      "closed_fds s' = closed_fds s @ filter (\<lambda>f. f \<noteq> 0) (map (\<lambda>a. comm_fd (the (heap s a))) db)"
    by auto
  with Stop_frame [OF this(1) assms(1)] show ?thesis by auto
qed

lemma Stop_dangling:
  assumes "flags_inv s" "svc_stoppable s" "tcp_client_db_mgr s = Some db" "distinct db"
    and "a \<in> set db" "heap s a = None" "db_rwlock_ok s" "\<forall>x \<in> set db. \<not> wild_client (heap s) x"
  shows "Stop s = Inl UseAfterFree"
  using Stop_purges [OF assms(1-3)] purge_loop_dangling [of a db "heap s" "[]"] assms(4-8) by simp

lemma Stop_uninitialised:
  assumes "flags_inv s" "svc_stoppable s" "tcp_client_db_mgr s = Some db" "distinct db"
    and "set db \<subseteq> dom (heap s)" "\<not> db_rwlock_ok s \<or> (\<exists>a \<in> set db. wild_client (heap s) a)"
  shows "Stop s = Inl Uninitialised"
proof (cases "db_rwlock_ok s")
  case True
  then obtain a where "a \<in> set db" "wild_client (heap s) a" using assms(6) by blast
  from purge_loop_uninitialised [OF this assms(4,5), of "[]"] True show ?thesis
    using Stop_purges [OF assms(1-3)] by simp
next
  case False
  then show ?thesis using Stop_purges [OF assms(1-3)] by simp
qed

lemma DisplayClientDb_dangling:
  "a \<in> set db \<Longrightarrow> h a = None \<Longrightarrow> DisplayClientDb h db = Inl UseAfterFree"
proof (induction db)
  case (Cons x db)
  show ?case
  proof (cases "h x")
    case (Some c)
    with Cons show ?thesis by (auto simp: deref_Some)
  qed (simp add: deref_None)
qed simp

section \<open>A client that disconnects\<close>

lemma GetClientByFd_found:
  "a \<in> set as \<Longrightarrow> h a = Some c \<Longrightarrow> comm_fd c = fd \<Longrightarrow> set as \<subseteq> dom h \<Longrightarrow>
   (\<And>x. x \<in> set as \<Longrightarrow> x \<noteq> a \<Longrightarrow> conn_fd h x \<noteq> fd) \<Longrightarrow> GetClientByFd h as fd = Inr (Some a)"
proof (induction as)
  case (Cons x as)
  then obtain d where d: "h x = Some d" by auto
  show ?case
  proof (cases "x = a")
    case True
    with Cons.prems show ?thesis by (simp add: deref_Some)
  next
    case False
    then have "comm_fd d \<noteq> fd" using Cons.prems(5) [of x] d by (simp add: conn_fd_def)
    with False d Cons show ?thesis by (simp add: deref_Some)
  qed
qed simp

lemma recv_loop_closed:
  assumes "conn_ok (rx_heap w) a" "length (conn_buffered (rx_heap w) a) < 256"
    and "pending (conn_sock w a) = []" "\<not> sock_error (conn_sock w a)" "peer_closed (conn_sock w a)"
  shows "recv_loop cb a fd (k # ks) w =
    Some (rbind (drop_client a (conn_fd (rx_heap w) a) fd w) (\<lambda>w. Inr (PeerGone, w)))"
proof -
  obtain c d b bf where c: "rx_heap w a = Some c" "msgd c = Msgd d" "dm_bcb d = Some b"
      "bcb_ok b" "unat (buffer_size b) = 256"
    using assms(1) by (auto elim: conn_okE)
  have "unat (BCBAvailableSize b) = 256 - length (conn_buffered (rx_heap w) a)"
    using c by (simp add: conn_buffered_def dm_contents_def bcb_ok_def unat_avail)
  then have "BCBAvailableSize b \<noteq> 0" using assms(2) by auto
  with c assms(3-5) show ?thesis
    by (simp add: deref_Some Let_def recv_def conn_sock_def conn_fd_def)
qed

text \<open>
  The service removes the client from its own list and frees it; the client database still has
  its address.
\<close>

lemma disconnect_dangles:
  assumes "server_inv s" "ctrl_alive s" "tcp_client_svc_mgr s = Some m" "svc_threads m \<noteq> []"
    and "a \<in> set (svc_db m)" "conn_ok (heap s) a" "length (conn_buffered (heap s) a) < 256"
    and "\<And>x. x \<in> set (svc_db m) \<Longrightarrow> x \<noteq> a \<Longrightarrow> conn_fd (heap s) x \<noteq> conn_fd (heap s) a"
    and "socks s (conn_fd (heap s) a) = \<lparr>pending = [], peer_closed = True, sock_error = False\<rparr>"
  shows "\<exists>s' db. serve_round [(conn_fd (heap s) a, [k])] s = Some (Inr s') \<and>
    heap s' = (heap s)(a := None) \<and> tcp_client_db_mgr s' = Some db \<and>
    tcp_client_db_mgr s = Some db \<and> a \<in> set db \<and> distinct db \<and> flags_inv s' \<and> svc_stoppable s' \<and>
    state_flags s' = state_flags s \<and> db_rwlock_ok s' = db_rwlock_ok s"
proof -
  let ?fd = "conn_fd (heap s) a"
  let ?w = "\<lparr>rx_heap = heap s, rx_svc = m, rx_socks = socks s, rx_out = [], rx_closed = []\<rparr>"
  obtain c where c: "heap s a = Some c" "comm_fd c = ?fd"
    using assms(6) by (auto simp: conn_ok_def conn_fd_def split: option.splits msgd_ptr.splits)
  have dom: "set (svc_db m) \<subseteq> dom (heap s)" and d: "distinct (svc_db m)"
    using assms(1,3) by (force simp: server_inv_defs)+
  have found: "GetClientByFd (heap s) (svc_db m) ?fd = Inr (Some a)"
    using assms(5,8) c dom by (intro GetClientByFd_found) auto
  define m' where "m' = epoll_del ?fd m\<lparr>svc_db := removeAll a (svc_db m)\<rparr>"
  define w' where "w' = ?w\<lparr>rx_heap := (heap s)(a := None), rx_svc := m', rx_closed := [?fd]\<rparr>"
  have "drop_client a ?fd ?fd ?w = Inr w'"
    using c by (simp add: drop_client_def RemoveClient_def epoll_del_def deref_Some Let_def m'_def w'_def)
  then have "recv_loop (client_msg_recvd_fn s = AppFn) a ?fd [k] ?w = Some (Inr (PeerGone, w'))"
    using recv_loop_closed [of ?w a] assms(6,7,9) by (simp add: conn_sock_def)
  then have r: "serve_round [(?fd, [k])] s = Some (Inr (s\<lparr>heap := rx_heap w', tcp_client_svc_mgr := Some m',
      socks := rx_socks w', delivered := delivered s, closed_fds := closed_fds s @ [?fd]\<rparr>))"
    using assms(3) found by (simp add: serve_round_def w'_def)
  obtain db where db: "tcp_client_db_mgr s = Some db" "distinct db" "dom (heap s) \<subseteq> set db"
    using assms(1,2) by (auto simp: server_inv_defs)
  moreover have "a \<in> set db" using db(3) c(1) by blast
  moreover have "flags_inv s" using assms(1) by (simp add: server_inv_def)
  ultimately show ?thesis
    unfolding r using assms(3,4) d
    by (auto simp: w'_def m'_def svc_stoppable_def flags_inv_def epoll_del_def distinct_removeAll)
qed

section \<open>Progress of the service thread\<close>

text \<open>
  With the callbacks set and a working demarcator in every polled client, a round of the service
  thread ends without a fault, whatever the peers do, and leaves the same kind of state. What
  decreases in a receive loop is the number of pending bytes, so a schedule with more turns than
  that is enough.
\<close>

definition rx_ready :: "rx \<Rightarrow> bool" where
  "rx_ready w \<longleftrightarrow> distinct (svc_db (rx_svc w)) \<and> (\<forall>a \<in> set (svc_db (rx_svc w)). conn_ok (rx_heap w) a)"

lemma conn_ok_frame: "h' x = h x \<Longrightarrow> conn_ok h' x = conn_ok h x"
  by (simp add: conn_ok_def)

lemma conn_ok_upd [simp]: "x \<noteq> a \<Longrightarrow> conn_ok (h(a := v)) x = conn_ok h x"
  by (simp add: conn_ok_def)

definition rx_drains :: "rx \<Rightarrow> rx \<Rightarrow> bool" where
  "rx_drains w w' \<longleftrightarrow> (\<forall>f. length (pending (rx_socks w' f)) \<le> length (pending (rx_socks w f)))"

lemma rx_drains_refl [simp]: "rx_drains w w"
  by (simp add: rx_drains_def)

lemma rx_drains_trans: "rx_drains w v \<Longrightarrow> rx_drains v u \<Longrightarrow> rx_drains w u"
  unfolding rx_drains_def by (metis order_trans)

lemma drop_client_ready:
  assumes "rx_ready w" "a \<in> set (svc_db (rx_svc w))"
  shows "\<exists>w'. drop_client a cfd fd w = Inr w' \<and> rx_ready w' \<and> rx_drains w w'"
proof -
  obtain c where c: "rx_heap w a = Some c"
    using assms by (auto simp: rx_ready_def conn_ok_def split: option.splits msgd_ptr.splits)
  define w' where "w' = w\<lparr>rx_heap := (rx_heap w)(a := None),
    rx_svc := epoll_del fd (rx_svc w)\<lparr>svc_db := removeAll a (svc_db (rx_svc w))\<rparr>,
    rx_closed := rx_closed w @ [cfd]\<rparr>"
  have "drop_client a cfd fd w = Inr w'"
    using c by (simp add: drop_client_def RemoveClient_def epoll_del_def deref_Some Let_def w'_def)
  moreover have "rx_ready w'"
    using assms(1) by (auto simp: w'_def rx_ready_def distinct_removeAll epoll_del_def)
  moreover have "rx_drains w w'" by (simp add: w'_def rx_drains_def)
  ultimately show ?thesis by blast
qed

lemma recv_loop_error:
  assumes "conn_ok (rx_heap w) a" "length (conn_buffered (rx_heap w) a) < 256" "sock_error (conn_sock w a)"
  shows "recv_loop cb a fd (k # ks) w =
    Some (rbind (drop_client a fd fd w) (\<lambda>w. Inr (RecvFailed, w)))"
proof -
  obtain c d b bf where c: "rx_heap w a = Some c" "msgd c = Msgd d" "dm_bcb d = Some b"
      "bcb_ok b" "unat (buffer_size b) = 256"
    using assms(1) by (auto elim: conn_okE)
  have "unat (BCBAvailableSize b) = 256 - length (conn_buffered (rx_heap w) a)"
    using c by (simp add: conn_buffered_def dm_contents_def bcb_ok_def unat_avail)
  then have "BCBAvailableSize b \<noteq> 0" using assms(2) by auto
  with c assms(3) show ?thesis
    by (simp add: deref_Some Let_def recv_def conn_sock_def conn_fd_def)
qed

lemma recv_loop_progress:
  "rx_ready w \<Longrightarrow> a \<in> set (svc_db (rx_svc w)) \<Longrightarrow> length (pending (conn_sock w a)) < length ks \<Longrightarrow>
   \<exists>st w'. recv_loop True a fd ks w = Some (Inr (st, w')) \<and> rx_ready w' \<and> rx_drains w w'"
proof (induction ks arbitrary: w)
  case Nil
  then show ?case by simp
next
  case (Cons k ks)
  have ok: "conn_ok (rx_heap w) a" using Cons.prems by (simp add: rx_ready_def)
  consider (full) "256 \<le> length (conn_buffered (rx_heap w) a)"
    | (err) "length (conn_buffered (rx_heap w) a) < 256" "sock_error (conn_sock w a)"
    | (data) "length (conn_buffered (rx_heap w) a) < 256" "\<not> sock_error (conn_sock w a)"
        "pending (conn_sock w a) \<noteq> []"
    | (closed) "length (conn_buffered (rx_heap w) a) < 256" "\<not> sock_error (conn_sock w a)"
        "pending (conn_sock w a) = []" "peer_closed (conn_sock w a)"
    | (idle) "length (conn_buffered (rx_heap w) a) < 256" "\<not> sock_error (conn_sock w a)"
        "pending (conn_sock w a) = []" "\<not> peer_closed (conn_sock w a)"
    by linarith
  then show ?case
  proof cases
    case full
    with Cons.prems recv_loop_full [OF ok] show ?thesis using rx_drains_refl by blast
  next
    case err
    from drop_client_ready [OF Cons.prems(1,2), of fd fd] obtain w'
      where "drop_client a fd fd w = Inr w'" "rx_ready w'" "rx_drains w w'" by blast
    with recv_loop_error [OF ok err] show ?thesis by simp
  next
    case data
    obtain w1 n where w1: "recv_loop True a fd (k # ks) w = recv_loop True a fd ks w1"
        "conn_ok (rx_heap w1) a" "rx_svc w1 = rx_svc w" "\<forall>x. x \<noteq> a \<longrightarrow> rx_heap w1 x = rx_heap w x"
        "conn_sock w1 a = (conn_sock w a)\<lparr>pending := drop n (pending (conn_sock w a))\<rparr>"
        "rx_socks w1 = (rx_socks w)(conn_fd (rx_heap w) a :=
           (conn_sock w a)\<lparr>pending := drop n (pending (conn_sock w a))\<rparr>)"
        "0 < n" "n \<le> length (pending (conn_sock w a))"
      using recv_loop_data [OF ok data(1,3,2), of fd k ks] by blast
    have "rx_ready w1"
      unfolding rx_ready_def w1(3)
    proof (intro conjI ballI)
      fix x assume "x \<in> set (svc_db (rx_svc w))"
      then show "conn_ok (rx_heap w1) x"
        using w1(2,4) Cons.prems(1) conn_ok_frame [of "rx_heap w1" x "rx_heap w"]
        by (cases "x = a") (auto simp: rx_ready_def)
    qed (use Cons.prems(1) in \<open>simp add: rx_ready_def\<close>)
    moreover have "length (pending (conn_sock w1 a)) < length ks"
      using w1(5,7,8) Cons.prems(3) by simp
    moreover have "rx_drains w w1"
      using w1(6) by (simp add: rx_drains_def conn_sock_def)
    ultimately show ?thesis
      using Cons.IH [of w1] Cons.prems(2) w1(1,3) rx_drains_trans [of w w1] by auto
  next
    case closed
    from drop_client_ready [OF Cons.prems(1,2), of "conn_fd (rx_heap w) a" fd] obtain w'
      where "drop_client a (conn_fd (rx_heap w) a) fd w = Inr w'" "rx_ready w'" "rx_drains w w'" by blast
    with recv_loop_closed [OF ok closed(1,3,2,4), of True fd k ks] show ?thesis by simp
  next
    case idle
    with Cons.prems recv_loop_idle [OF ok idle(1,3,2,4)] show ?thesis using rx_drains_refl by blast
  qed
qed

lemma GetClientByFd_total:
  "set as \<subseteq> dom h \<Longrightarrow> \<exists>r. GetClientByFd h as fd = Inr r \<and>
    (\<forall>a. r = Some a \<longrightarrow> a \<in> set as \<and> conn_fd h a = fd)"
proof (induction as)
  case (Cons x as)
  then obtain d where "h x = Some d" by auto
  with Cons show ?case by (auto simp: deref_Some conn_fd_def)
qed simp

lemma epoll_round_progress:
  "rx_ready w \<Longrightarrow> \<forall>(fd, ks) \<in> set evs. length (pending (rx_socks w fd)) < length ks \<Longrightarrow>
   \<exists>w'. epoll_round True evs w = Some (Inr w') \<and> rx_ready w'"
proof (induction evs arbitrary: w)
  case Nil
  then show ?case by simp
next
  case (Cons ev evs)
  obtain fd ks where ev: "ev = (fd, ks)" by (cases ev)
  have "set (svc_db (rx_svc w)) \<subseteq> dom (rx_heap w)"
    using Cons.prems(1) by (fastforce simp: rx_ready_def conn_ok_def split: option.splits msgd_ptr.splits)
  then obtain r where r: "GetClientByFd (rx_heap w) (svc_db (rx_svc w)) fd = Inr r"
      "\<forall>a. r = Some a \<longrightarrow> a \<in> set (svc_db (rx_svc w)) \<and> conn_fd (rx_heap w) a = fd"
    using GetClientByFd_total by blast
  show ?case
  proof (cases r)
    case None
    with Cons ev r show ?thesis by simp
  next
    case (Some a)
    have a: "a \<in> set (svc_db (rx_svc w))" "conn_sock w a = rx_socks w fd"
      using r(2) Some by (simp_all add: conn_sock_def)
    have "length (pending (conn_sock w a)) < length ks" using Cons.prems(2) ev a(2) by simp
    with recv_loop_progress [OF Cons.prems(1) a(1)] obtain st v
      where v: "recv_loop True a fd ks w = Some (Inr (st, v))" "rx_ready v" "rx_drains w v" by blast
    have "\<forall>(fd, ks) \<in> set evs. length (pending (rx_socks v fd)) < length ks"
      using Cons.prems(2) v(3) by (auto simp: rx_drains_def intro: le_less_trans)
    with Cons.IH [OF v(2)] ev r(1) Some v(1) show ?thesis by simp
  qed
qed

lemma serve_round_progress:
  assumes "client_msg_recvd_fn s = AppFn" "tcp_client_svc_mgr s = Some m" "distinct (svc_db m)"
    and "\<forall>a \<in> set (svc_db m). conn_ok (heap s) a"
    and "\<forall>(fd, ks) \<in> set evs. length (pending (socks s fd)) < length ks"
  shows "\<exists>s' m'. serve_round evs s = Some (Inr s') \<and> tcp_client_svc_mgr s' = Some m' \<and>
    distinct (svc_db m') \<and> (\<forall>a \<in> set (svc_db m'). conn_ok (heap s') a)"
proof -
  let ?w = "\<lparr>rx_heap = heap s, rx_svc = m, rx_socks = socks s, rx_out = [], rx_closed = []\<rparr>"
  have "rx_ready ?w" using assms(3,4) by (simp add: rx_ready_def)
  from epoll_round_progress [OF this, of evs] assms(5) obtain w' where
    "epoll_round True evs ?w = Some (Inr w')" "rx_ready w'" by auto
  with assms(1,2) show ?thesis by (auto simp: serve_round_def rx_ready_def)
qed

section \<open>Calls in the wrong order\<close>

lemma server_flags_after_new:
  assumes "TcpServerController_new junk ip port name fd = Inr s"
  shows "\<not> IsBitSet TCP_SERVER_RUNNING s \<and> IsBitSet TCP_SERVER_INITIALIZED s"
  using assms
  by (auto simp: TcpServerController_new_def IsBitSet_def SetBit_def flag_simps server_flag_defs)

lemma Start_after_StopClientSvcMgr:
  assumes "flags_inv s" "svc_stoppable s"
  shows "\<exists>s'. StopClientSvcMgr s = Inr s' \<and> Start created s' = Inl NullDeref"
proof (cases "tcp_client_svc_mgr s")
  case None
  with assms(1) show ?thesis by (simp add: StopClientSvcMgr_def flags_inv_def Start_def)
next
  case (Some m)
  then obtain s' where s': "StopClientSvcMgr s = Inr s'" using StopClientSvcMgr_ok assms by blast
  with StopClientSvcMgr_frame [OF s' assms(1)] show ?thesis by (simp add: Start_def)
qed

lemma Stop_before_Start:
  assumes "TcpServerController_new junk ip port name fd = Inr s"
  shows "Stop s = Inl NullDeref"
  using assms
  by (auto simp: TcpServerController_new_def Stop_def StopConnectionAcceptingSvc_def StopClientSvcMgr_def
      IsBitSet_def SetBit_def flag_simps server_flag_defs TcpClientServiceManager_new_def svc_stop_def StopTcpClientServiceManagerThread_def Let_def)

section \<open>Accepting a connection\<close>

lemma accept_client_effect:
  assumes "tcp_client_db_mgr s = Some db" "tcp_client_svc_mgr s = Some m" "epfd m = Some e"
    and "client_connected_fn s \<noteq> GarbageFn"
  defines "a \<equiv> next_addr s"
  shows "\<exists>s' m'. accept_client fd ip port (True, True, True) junk s = Inr s' \<and>
    conn_ok (heap s') a \<and> conn_buffered (heap s') a = [] \<and> conn_fd (heap s') a = fd \<and>
    (\<forall>x. x \<noteq> a \<longrightarrow> heap s' x = heap s x) \<and> next_addr s' = Suc a \<and>
    tcp_client_db_mgr s' = Some (db @ [a]) \<and> tcp_client_svc_mgr s' = Some m' \<and>
    svc_db m' = svc_db m @ [a] \<and> fd \<in> set (epoll_set m') \<and>
    connected s' = (if client_connected_fn s = AppFn then connected s @ [a] else connected s)"
proof -
  define d where "d = TcpMsgVariabSizeDemarcar True True True"
  have d: "dm_ok d" "dm_contents d = []" "dm_cap d = 256" "dm_class d = VariabSize"
    using new_demarcar_ok [of True True True 256 VariabSize]
    by (auto simp: d_def TcpMsgVariabSizeDemarcar_def TcpMsgDemarcar_def)
  define c where "c = SetState TCP_CLIENT_STATE_MULTIPLEX_LISTEN
    (SetState TCP_CLIENT_STATE_CONNECTED (SetState TCP_CLIENT_STATE_PASSIVE_OPENER
      ((TcpClient_new junk ip port)\<lparr>cl_server_ip_addr := ctrl_ip_addr s,
        cl_server_port_no := ucast (ctrl_port_no s), cl_tcp_ctrlr := True, comm_fd := fd\<rparr>))\<lparr>msgd := Msgd d\<rparr>)"
  define m' where "m' = epoll_add fd (AddClientToDB a m)"
  define s' where "s' = s\<lparr>heap := (heap s)(a \<mapsto> c), next_addr := Suc a,
    connected := (if client_connected_fn s = AppFn then connected s @ [a] else connected s),
    tcp_client_db_mgr := Some (db @ [a]), tcp_client_svc_mgr := Some m'\<rparr>"
  have "accept_client fd ip port (True, True, True) junk s = Inr s'"
    using assms(1,2,4)
    by (cases "client_connected_fn s")
      (simp_all add: accept_client_def Let_def ProcessNewClient_def AddClienttoDb_def AddClientToEpoll_def
        ClientFDStartListen_def deref_Some c_def d_def m'_def s'_def a_def SetState_def)
  moreover have "conn_ok (heap s') a" "conn_buffered (heap s') a = []" "conn_fd (heap s') a = fd"
    using d by (simp_all add: s'_def c_def SetState_def conn_defs)
  moreover have "fd \<in> set (epoll_set m')"
    using assms(3) by (auto simp: m'_def epoll_add_def AddClientToDB_def)
  moreover have "svc_db m' = svc_db m @ [a]" by (simp add: m'_def AddClientToDB_def)
  ultimately show ?thesis by (simp add: s'_def)
qed

section \<open>Inversion of the steps\<close>

inductive_cases server_stepE: "server_step s s'"

end
