(* ===== verification/StringUtil.thy ===== *)
theory StringUtil
  imports Prelude "HOL-Library.Sublist"
begin

text \<open>
  The string utilities of the command parser (\<^verbatim>\<open>string_util.c\<close>). A block of
  characters is a list; a C string is the part of a block before its first NUL, and reading a
  block that has none is out of bounds. The token array of the source, a static array of
  16 blocks of 64 characters, is a value that is passed and returned.
\<close>

section \<open>C strings\<close>

definition nul :: char where "nul = CHR 0x00"

definition cstr :: "string \<Rightarrow> string" where
  "cstr blk = takeWhile (\<lambda>c. c \<noteq> nul) blk"

definition c_strlen :: "string \<Rightarrow> nat res" where
  "c_strlen blk = (if nul \<in> set blk then Inr (length (cstr blk)) else Inl OutOfBounds)"

text \<open>\<^verbatim>\<open>strncpy(dst, src, n)\<close>: copies at most \<open>n\<close> characters and pads with NUL.\<close>

definition c_strncpy :: "string \<Rightarrow> string \<Rightarrow> nat \<Rightarrow> string res" where
  "c_strncpy dst src n =
     (let s = take n (cstr src) in
      memcpy dst 0 (s @ replicate (n - length s) nul) 0 n)"

definition isspace :: "char \<Rightarrow> bool" where
  "isspace c \<longleftrightarrow> c \<in> {CHR 0x09, CHR 0x0A, CHR 0x0B, CHR 0x0C, CHR 0x0D, CHR 0x20}"

text \<open>The tokens that successive calls of \<^verbatim>\<open>strtok\<close> return.\<close>

function strtok_all :: "char \<Rightarrow> string \<Rightarrow> string list" where
  "strtok_all d s =
     (let s = dropWhile (\<lambda>c. c = d) s in
      if s = [] then []
      else takeWhile (\<lambda>c. c \<noteq> d) s # strtok_all d (dropWhile (\<lambda>c. c \<noteq> d) s))"
  by pat_completeness auto
termination
proof (relation "measure (\<lambda>(d, s). length s)", goal_cases)
  case (2 d s s')
  then obtain x xs where "s' = x # xs" "x \<noteq> d"
    by (metis (mono_tags) dropWhile_eq_Cons_conv neq_Nil_conv)
  then have "length (dropWhile (\<lambda>c. c \<noteq> d) s') < length s'"
    by (simp add: length_dropWhile_le le_imp_less_Suc)
  also have "\<dots> \<le> length s" using 2(1) by (simp add: length_dropWhile_le)
  finally show ?case by simp
qed simp

declare strtok_all.simps [simp del]

section \<open>The token array\<close>

definition MAX_CMD_TREE_DEPTH :: nat where "MAX_CMD_TREE_DEPTH = 16"
definition LEAF_VALUE_HOLDER_SIZE :: nat where "LEAF_VALUE_HOLDER_SIZE = 64"
definition CONS_INPUT_BUFFER_SIZE :: nat where "CONS_INPUT_BUFFER_SIZE = 2048"

lemmas string_sizes = MAX_CMD_TREE_DEPTH_def LEAF_VALUE_HOLDER_SIZE_def CONS_INPUT_BUFFER_SIZE_def

type_synonym token_array = "string list"

definition init_token_array :: token_array where
  "init_token_array = replicate MAX_CMD_TREE_DEPTH (replicate LEAF_VALUE_HOLDER_SIZE nul)"

definition untokenize :: "nat \<Rightarrow> token_array \<Rightarrow> token_array res" where
  "untokenize i ts = store ts i (replicate LEAF_VALUE_HOLDER_SIZE nul)"

fun re_init_from :: "nat \<Rightarrow> nat \<Rightarrow> token_array \<Rightarrow> token_array res" where
  "re_init_from i 0 ts = Inr ts"
| "re_init_from i (Suc n) ts = rbind (untokenize i ts) (re_init_from (Suc i) n)"

definition re_init_tokens :: "nat \<Rightarrow> token_array \<Rightarrow> token_array res" where
  "re_init_tokens token_cnt ts = re_init_from 0 token_cnt ts"

definition copy_token :: "string \<Rightarrow> nat \<Rightarrow> nat \<Rightarrow> token_array \<Rightarrow> token_array res" where
  "copy_token token n i ts =
     (if i < length ts then rbind (c_strncpy (ts ! i) token n) (\<lambda>b. Inr (ts[i := b]))
      else Inl OutOfBounds)"

definition tokenize :: "string \<Rightarrow> nat \<Rightarrow> nat \<Rightarrow> token_array \<Rightarrow> token_array res" where
  "tokenize token n i ts =
     (if n > LEAF_VALUE_HOLDER_SIZE then Inl AssertFail else copy_token token n i ts)"

definition get_token :: "nat \<Rightarrow> token_array \<Rightarrow> string res" where
  "get_token i ts = (if i < length ts then Inr (ts ! i) else Inl OutOfBounds)"

fun print_tokens :: "nat \<Rightarrow> nat \<Rightarrow> token_array \<Rightarrow> string list res" where
  "print_tokens i 0 ts = Inr []"
| "print_tokens i (Suc n) ts =
     rbind (get_token i ts) (\<lambda>t. rbind (print_tokens (Suc i) n ts) (\<lambda>r. Inr (cstr t # r)))"

section \<open>Trimming\<close>

fun trim_back :: "string \<Rightarrow> nat \<Rightarrow> string \<times> nat" where
  "trim_back b 0 = (b, 0)"
| "trim_back b (Suc n) =
     (if n > 0 \<and> isspace (b ! n) then trim_back (b[n := nul]) n else (b, Suc n))"

function trim_front :: "string \<Rightarrow> nat \<Rightarrow> int \<Rightarrow> nat \<times> int" where
  "trim_front b p len =
     (if p < length b \<and> b ! p \<noteq> nul \<and> isspace (b ! p) then trim_front b (Suc p) (len - 1)
      else (p, len))"
  by pat_completeness auto
termination by (relation "measure (\<lambda>(b, p, len). length b - p)") auto

declare trim_front.simps [simp del]

definition string_space_trim :: "string option \<Rightarrow> string option res" where
  "string_space_trim so =
     (case so of
        None \<Rightarrow> Inr None
      | Some b \<Rightarrow>
          rbind (c_strlen b) (\<lambda>len.
            if len = 0 then Inr (Some b)
            else if \<not> isspace (b ! 0) \<and> \<not> isspace (b ! (len - 1)) then Inr (Some b)
            else
              (case trim_back b len of (b, len) \<Rightarrow>
                 (case trim_front b 0 (int len) of (p, len) \<Rightarrow>
                    rbind (memcpy b 0 b p (nat (len + 1))) (\<lambda>b. Inr (Some b))))))"

section \<open>The tokenizer\<close>

text \<open>
  The loop over the tokens; \<open>i\<close> counts them. The check of the limit comes after the write.
\<close>

fun tokenizer_loop :: "string list \<Rightarrow> nat \<Rightarrow> token_array \<Rightarrow> (token_array \<times> nat) res" where
  "tokenizer_loop [] i ts = Inr (ts, i)"
| "tokenizer_loop (t # toks) i ts =
     rbind (untokenize i ts) (\<lambda>ts.
     rbind (copy_token t (length t) i ts) (\<lambda>ts.
       if Suc i = MAX_CMD_TREE_DEPTH + 1
       then rbind (re_init_tokens MAX_CMD_TREE_DEPTH ts) (\<lambda>ts. Inr (ts, 0))
       else tokenizer_loop toks (Suc i) ts))"

text \<open>
  The result says whether the returned pointer is the token array (or \<^verbatim>\<open>NULL\<close>), and the
  token count. \<open>str\<close> is the block of the argument.
\<close>

definition tokenizer :: "string \<Rightarrow> char \<Rightarrow> token_array \<Rightarrow> (token_array \<times> bool \<times> nat) res" where
  "tokenizer str d ts =
     rbind (c_strlen str) (\<lambda>n.
     rbind (c_strncpy (replicate CONS_INPUT_BUFFER_SIZE nul) str n) (\<lambda>a.
     rbind (store a n nul) (\<lambda>a.
     rbind (string_space_trim (Some a)) (\<lambda>ao.
       case ao of None \<Rightarrow> Inl NullDeref
       | Some a \<Rightarrow>
         rbind (c_strlen a) (\<lambda>len.
           if len < 1 then Inr (ts, False, 0)
           else
             (case strtok_all d (cstr a) of
                [] \<Rightarrow> Inr (ts, False, 0)
              | t # toks \<Rightarrow>
                  rbind (untokenize 0 ts) (\<lambda>ts.
                  rbind (copy_token t (length t) 0 ts) (\<lambda>ts.
                  rbind (tokenizer_loop toks 1 ts) (\<lambda>(ts, i). Inr (ts, True, i))))))))))"

section \<open>Replacing\<close>

text \<open>
  \<^verbatim>\<open>replaceSubstring\<close> works in the block of the string. The comparing loop stops only
  at a difference, so it may run past the end of both strings.
\<close>

function rs_match :: "string \<Rightarrow> string \<Rightarrow> nat \<Rightarrow> nat \<Rightarrow> nat \<Rightarrow> bool \<Rightarrow> (nat \<times> nat \<times> bool) res" where
  "rs_match s sub subLen i j flag =
     (if i < length s \<and> j < length sub
      then if s ! i = sub ! j
           then rs_match s sub subLen (Suc i) (Suc j) (flag \<or> int j = int subLen - 1)
           else Inr (i, j, flag)
      else Inl OutOfBounds)"
  by pat_completeness auto
termination by (relation "measure (\<lambda>(s, sub, n, i, j, f). length s - i)") auto

declare rs_match.simps [simp del]

lemma rs_match_pos: "rs_match s sub n i j f = Inr (e, j', f') \<Longrightarrow> i \<le> e \<and> e + j = i + j'"
proof (induction s sub n i j f arbitrary: e j' f' rule: rs_match.induct)
  case (1 s sub n i j f)
  then show ?case
    by (subst (asm) rs_match.simps) (fastforce split: if_splits)
qed

text \<open>\<^verbatim>\<open>for (k = k0; ...; k++) s[k] = s[k+1]\<close>, \<open>n\<close> times.\<close>

fun shift_left :: "string \<Rightarrow> nat \<Rightarrow> nat \<Rightarrow> string res" where
  "shift_left s k 0 = Inr s"
| "shift_left s k (Suc n) =
     (if Suc k < length s then shift_left (s[k := s ! Suc k]) (Suc k) n else Inl OutOfBounds)"

fun rs_delete :: "string \<Rightarrow> nat \<Rightarrow> nat \<Rightarrow> nat \<Rightarrow> (string \<times> nat) res" where
  "rs_delete s start stringLen 0 = Inr (s, stringLen)"
| "rs_delete s start stringLen (Suc m) =
     rbind (shift_left s start (stringLen - start)) (\<lambda>s. rs_delete s start (stringLen - 1) m)"

text \<open>\<^verbatim>\<open>for (k = j + n - 1; k >= j; k--) s[k+1] = s[k]\<close>\<close>

fun shift_right :: "string \<Rightarrow> nat \<Rightarrow> nat \<Rightarrow> string res" where
  "shift_right s j 0 = Inr s"
| "shift_right s j (Suc n) =
     (if Suc (j + n) < length s then shift_right (s[Suc (j + n) := s ! (j + n)]) j n
      else Inl OutOfBounds)"

fun rs_insert :: "string \<Rightarrow> nat \<Rightarrow> nat \<Rightarrow> string \<Rightarrow> (string \<times> nat) res" where
  "rs_insert s j stringLen [] = Inr (s, stringLen)"
| "rs_insert s j stringLen (c # cs) =
     rbind (shift_right s j (Suc stringLen - j)) (\<lambda>s.
     rbind (store s j c) (\<lambda>s. rs_insert s (Suc j) (Suc stringLen) cs))"

text \<open>\<open>sub\<close> is a block with its NUL, \<open>new_str\<close> the characters of the new string.\<close>

function rs_loop :: "string \<Rightarrow> string \<Rightarrow> nat \<Rightarrow> string \<Rightarrow> nat \<Rightarrow> nat \<Rightarrow> string res" where
  "rs_loop sub s subLen new_str stringLen i =
     (if \<not> i < stringLen then Inr s
      else
        (case rs_match s sub subLen i 0 False of
           Inl e \<Rightarrow> Inl e
         | Inr (fin, j, flag) \<Rightarrow>
             if \<not> flag then rs_loop sub s subLen new_str stringLen (Suc (fin - j))
             else
               (case rs_delete s i stringLen (fin - i) of
                  Inl e \<Rightarrow> Inl e
                | Inr (s, _) \<Rightarrow>
                    (case rs_insert s i (stringLen - (fin - i)) new_str of
                       Inl e \<Rightarrow> Inl e
                     | Inr (s, _) \<Rightarrow>
                         rs_loop sub s subLen new_str (stringLen - (fin - i) + length new_str)
                           (Suc (fin - (fin - i) + length new_str))))))"
  by pat_completeness auto
termination
  by (relation "measure (\<lambda>(sub, s, n, new, l, i). l - i)") (auto dest!: rs_match_pos)

declare rs_loop.simps [simp del]

definition replaceSubstring :: "string \<Rightarrow> string \<Rightarrow> string \<Rightarrow> string res" where
  "replaceSubstring s sub new_str =
     rbind (c_strlen s) (\<lambda>stringLen.
     rbind (c_strlen sub) (\<lambda>subLen.
     rbind (c_strlen new_str) (\<lambda>newLen.
       rs_loop sub s subLen (cstr new_str) stringLen 0)))"

section \<open>Searching\<close>

fun c_strstr :: "string \<Rightarrow> string \<Rightarrow> bool" where
  "c_strstr [] p = (p = [])"
| "c_strstr (c # cs) p = (prefix p (c # cs) \<or> c_strstr cs p)"

definition pattern_match :: "string \<Rightarrow> int \<Rightarrow> string \<Rightarrow> bool" where
  "pattern_match s string_size p = (string_size \<noteq> 0 \<and> c_strstr s p)"

fun grep_loop :: "string list \<Rightarrow> string \<Rightarrow> string \<Rightarrow> nat \<Rightarrow> (string \<times> nat) res" where
  "grep_loop [] p b rc = Inr (b, rc)"
| "grep_loop (t # toks) p b rc =
     (if pattern_match t (int (length t)) p
      then rbind (memcpy b rc (t @ [CHR 0x0A, nul]) 0 (length t + 2)) (\<lambda>b.
             grep_loop toks p b (rc + length t + 1))
      else grep_loop toks p b rc)"

text \<open>
  \<open>b\<close> is the block of the first argument; the copy the source tokenizes has exactly
  \<open>string_size\<close> characters, so it must hold a NUL.
\<close>

definition grep :: "string \<Rightarrow> nat \<Rightarrow> string \<Rightarrow> (string \<times> nat) res" where
  "grep b string_size p =
     (if string_size = 0 then Inr (b, 0)
      else if length b < string_size then Inl OutOfBounds
      else
        let temp_buff = take string_size b in
        rbind (memcpy b 0 (replicate string_size nul) 0 string_size) (\<lambda>b.
          if nul \<in> set temp_buff then grep_loop (strtok_all (CHR 0x0A) (cstr temp_buff)) p b 0
          else Inl OutOfBounds))"

definition is_digit :: "char \<Rightarrow> bool" where
  "is_digit c \<longleftrightarrow> c \<in> set ''0123456789''"

fun is_number :: "string \<Rightarrow> bool" where
  "is_number [] = True"
| "is_number (c # cs) = (if is_digit c then is_number cs else False)"

definition atoi_digits :: "string \<Rightarrow> int" where
  "atoi_digits s = fold (\<lambda>c n. n * 10 + int (of_char c) - 48) s 0"

fun fetch_loop :: "string list \<Rightarrow> int \<Rightarrow> int \<Rightarrow> int res" where
  "fetch_loop [] index count = Inr 0"
| "fetch_loop (t # toks) index count =
     (if \<not> is_number t then fetch_loop toks index count
      else if index = count + 1 then i32 (atoi_digits t)
      else fetch_loop toks index (count + 1))"

definition string_fetch_integer :: "string \<Rightarrow> nat \<Rightarrow> int \<Rightarrow> int res" where
  "string_fetch_integer s string_size index =
     (if string_size = 0 then Inr 0
      else if length s < string_size \<or> nul \<notin> set (take string_size s) then Inl OutOfBounds
      else fetch_loop (strtok_all CHR 0x20 (cstr (take string_size s))) index 0)"

end
