(* ===== verification/StringProps.thy ===== *)
theory StringProps
  imports StringUtil
begin

text \<open>
  What the string utilities compute: trimming removes the white space at both ends, the
  tokenizer stores the words of the trimmed line one per block, and the limits of the token
  array are not checked in time: a seventeenth word is written behind the array.
\<close>

section \<open>Blocks with a string\<close>

text \<open>\<open>holds blk s\<close>: the block holds the string \<open>s\<close>.\<close>

definition holds :: "string \<Rightarrow> string \<Rightarrow> bool" where
  "holds blk s \<longleftrightarrow> nul \<in> set blk \<and> cstr blk = s"

lemma cstr_append [simp]: "nul \<notin> set s \<Longrightarrow> cstr (s @ nul # r) = s"
  by (simp add: cstr_def takeWhile_stop)

lemma cstr_no_nul: "nul \<notin> set (cstr b)"
  by (auto simp: cstr_def dest: set_takeWhileD)

lemma cstr_idem [simp]: "nul \<notin> set s \<Longrightarrow> cstr s = s"
  by (auto simp: cstr_def takeWhile_eq_all_conv)

lemma holds_iff: "holds b s \<longleftrightarrow> nul \<notin> set s \<and> (\<exists>r. b = s @ nul # r)"
proof
  assume h: "holds b s"
  then obtain x where "dropWhile (\<lambda>c. c \<noteq> nul) b = nul # x"
    by (auto simp: holds_def) (metis (mono_tags, lifting) dropWhile_eq_Nil_conv dropWhile_eq_Cons_conv neq_Nil_conv)
  then have "b = s @ nul # x"
    using h takeWhile_dropWhile_id [of "\<lambda>c. c \<noteq> nul" b] by (simp add: holds_def cstr_def)
  then show "nul \<notin> set s \<and> (\<exists>r. b = s @ nul # r)"
    using h cstr_no_nul [of b] by (auto simp: holds_def)
next
  assume "nul \<notin> set s \<and> (\<exists>r. b = s @ nul # r)"
  then show "holds b s" by (auto simp: holds_def)
qed

lemma strlen_holds: "holds b s \<Longrightarrow> c_strlen b = Inr (length s)"
  by (simp add: holds_def c_strlen_def)

section \<open>Trimming\<close>

definition trim :: "string \<Rightarrow> string" where
  "trim s = dropWhile isspace (rev (dropWhile isspace (rev s)))"

text \<open>The loop at the back keeps the first character.\<close>

function rtrim1 :: "string \<Rightarrow> string" where
  "rtrim1 s = (if 1 < length s \<and> isspace (last s) then rtrim1 (butlast s) else s)"
  by pat_completeness auto
termination by (relation "measure length") auto

declare rtrim1.simps [simp del]

lemma rtrim1_snoc: "rtrim1 (xs @ [x]) = (if xs \<noteq> [] \<and> isspace x then rtrim1 xs else xs @ [x])"
  by (subst rtrim1.simps) auto

lemma rtrim1_Nil [simp]: "rtrim1 [] = []"
  by (subst rtrim1.simps) simp

lemma rtrim1_length: "length (rtrim1 s) \<le> length s"
  by (induction s rule: rev_induct) (auto simp: rtrim1_snoc)

lemma rtrim1_set: "set (rtrim1 s) \<subseteq> set s"
  by (induction s rule: rev_induct) (auto simp: rtrim1_snoc)

lemma dropWhile_rtrim1: "dropWhile isspace (rtrim1 s) = trim s"
  by (induction s rule: rev_induct) (auto simp: rtrim1_snoc trim_def)

lemma trim_back_rtrim1:
  "trim_back (s @ zs) (length s) =
   (rtrim1 s @ replicate (length s - length (rtrim1 s)) nul @ zs, length (rtrim1 s))"
proof (induction s arbitrary: zs rule: rev_induct)
  case Nil
  then show ?case by simp
next
  case (snoc x xs)
  show ?case
  proof (cases "xs \<noteq> [] \<and> isspace x")
    case True
    have "trim_back ((xs @ [x]) @ zs) (length (xs @ [x])) = trim_back (xs @ nul # zs) (length xs)"
      using True by (simp add: nth_append list_update_append)
    with True snoc.IH [of "nul # zs"] rtrim1_length [of xs] show ?thesis
      by (simp add: rtrim1_snoc Suc_diff_le replicate_snoc [symmetric] del: replicate_Suc)
  next
    case False
    then show ?thesis by (auto simp: rtrim1_snoc nth_append)
  qed
qed

lemma isspace_nul [simp]: "\<not> isspace nul"
  by (simp add: isspace_def nul_def)

lemma trim_front_takeWhile:
  assumes "nul \<notin> set u"
  shows "p \<le> length u \<Longrightarrow> trim_front (u @ nul # r) p l =
    (p + length (takeWhile isspace (drop p u)), l - int (length (takeWhile isspace (drop p u))))"
proof (induction "length u - p" arbitrary: p l)
  case 0
  then have "p = length u" by simp
  then show ?case by (subst trim_front.simps) simp
next
  case (Suc n)
  then have p: "p < length u" by simp
  then have d: "drop p u = u ! p # drop (Suc p) u" by (simp add: Cons_nth_drop_Suc)
  have "u ! p \<noteq> nul" using p assms nth_mem by metis
  with Suc p d show ?case by (subst trim_front.simps) (simp add: nth_append)
qed

text \<open>A string that needs no trimming.\<close>

lemma trim_id: "s \<noteq> [] \<Longrightarrow> \<not> isspace (s ! 0) \<Longrightarrow> \<not> isspace (s ! (length s - 1)) \<Longrightarrow> trim s = s"
proof -
  assume s: "s \<noteq> []" "\<not> isspace (s ! 0)" "\<not> isspace (s ! (length s - 1))"
  then have "\<not> isspace (hd (rev s))" by (simp add: hd_rev last_conv_nth)
  then have "dropWhile isspace (rev s) = rev s" using s(1) by (cases "rev s") auto
  with s show "trim s = s" by (cases s) (auto simp: trim_def)
qed

theorem space_trim_holds:
  assumes "holds b s"
  shows "\<exists>b'. string_space_trim (Some b) = Inr (Some b') \<and> holds b' (trim s) \<and> length b' = length b"
proof -
  obtain r where b: "b = s @ nul # r" "nul \<notin> set s" using assms by (auto simp: holds_iff)
  have len: "c_strlen b = Inr (length s)" using assms by (rule strlen_holds)
  consider "s = []" | "s \<noteq> []" "\<not> isspace (b ! 0)" "\<not> isspace (b ! (length s - 1))"
    | "s \<noteq> []" "isspace (b ! 0) \<or> isspace (b ! (length s - 1))" by blast
  then show ?thesis
  proof cases
    case 1
    with len assms show ?thesis by (auto simp: string_space_trim_def trim_def)
  next
    case 2
    then have "trim s = s" by (intro trim_id) (auto simp: b(1) nth_append)
    with 2 len assms show ?thesis by (auto simp: string_space_trim_def)
  next
    case 3
    define u where "u = rtrim1 s"
    define r' where "r' = replicate (length s - length u) nul @ nul # r"
    obtain r2 where r2: "r' = nul # r2" unfolding r'_def by (cases "length s - length u") auto
    have tb: "trim_back b (length s) = (u @ nul # r2, length u)"
      unfolding b(1) trim_back_rtrim1 r2 [symmetric] r'_def u_def by simp
    have nu: "nul \<notin> set u" using b(2) rtrim1_set [of s] by (auto simp: u_def)
    let ?k = "length (takeWhile isspace u)"
    have k: "?k \<le> length u" by (rule length_takeWhile_le)
    have t: "trim s = drop ?k u" by (simp add: u_def dropWhile_rtrim1 [symmetric] dropWhile_eq_drop)
    have lb: "length b = length u + Suc (length r2)"
      using arg_cong [OF r2, of length] rtrim1_length [of s] by (simp add: b(1) r'_def u_def)
    have "nat (int (length u) - int ?k + 1) = length (trim s) + 1" using k t by simp
    moreover have "take (length (trim s) + 1) (drop ?k (u @ nul # r2)) = trim s @ [nul]"
      using k t by simp
    ultimately have "string_space_trim (Some b) =
        Inr (Some (blit (u @ nul # r2) 0 (trim s @ [nul])))"
      using 3 len tb trim_front_takeWhile [OF nu, of 0 r2] k t
      by (auto simp: string_space_trim_def memcpy_def)
    moreover have "holds (blit (u @ nul # r2) 0 (trim s @ [nul])) (trim s)"
      using nu t by (auto simp: holds_iff blit_def dest: in_set_dropD)
    moreover have "length (blit (u @ nul # r2) 0 (trim s @ [nul])) = length b"
      using k t lb by (simp add: length_blit)
    ultimately show ?thesis by blast
  qed
qed

section \<open>Words\<close>

lemma strtok_all_Nil [simp]: "strtok_all d [] = []"
  by (subst strtok_all.simps) simp

lemma strtok_all_delim [simp]: "strtok_all d (d # s) = strtok_all d s"
  by (subst (1 2) strtok_all.simps) simp

lemma strtok_all_word:
  assumes "w \<noteq> []" "d \<notin> set w"
  shows "strtok_all d (w @ d # s) = w # strtok_all d s" "strtok_all d w = [w]"
proof -
  have dw: "dropWhile (\<lambda>c. c = d) (w @ r) = w @ r" for r using assms by (cases w) auto
  have tw: "takeWhile (\<lambda>c. c \<noteq> d) (w @ d # s) = w" "dropWhile (\<lambda>c. c \<noteq> d) (w @ d # s) = d # s"
    using assms(2) by (simp_all only: takeWhile_stop dropWhile_stop not_False_eq_True)
  have tw2: "takeWhile (\<lambda>c. c \<noteq> d) w = w" "dropWhile (\<lambda>c. c \<noteq> d) w = []"
    using assms(2) by (auto simp: takeWhile_eq_all_conv)
  show "strtok_all d (w @ d # s) = w # strtok_all d s"
    using assms(1) dw [of "d # s"] tw by (subst strtok_all.simps) (simp add: Let_def)
  show "strtok_all d w = [w]"
    using assms(1) dw [of "[]"] by (subst strtok_all.simps) (simp add: Let_def tw2 del: dropWhile_eq_Nil_conv)
qed

text \<open>Words joined by the delimiter are read back.\<close>

fun join :: "char \<Rightarrow> string list \<Rightarrow> string" where
  "join d [] = []"
| "join d [w] = w"
| "join d (w # ws) = w @ d # join d ws"

lemma strtok_join:
  "\<forall>w \<in> set ws. w \<noteq> [] \<and> d \<notin> set w \<Longrightarrow> strtok_all d (join d ws) = ws"
  by (induction d ws rule: join.induct) (auto simp: strtok_all_word)

lemma strtok_words: "w \<in> set (strtok_all d s) \<Longrightarrow> w \<noteq> [] \<and> d \<notin> set w \<and> set w \<subseteq> set s"
proof (induction d s rule: strtok_all.induct)
  case (1 d s)
  let ?s = "dropWhile (\<lambda>c. c = d) s"
  show ?case
  proof (cases "?s = []")
    case True
    with "1.prems" show ?thesis by (subst (asm) strtok_all.simps) simp
  next
    case False
    then obtain x xs where x: "?s = x # xs" "x \<noteq> d"
      by (metis (mono_tags) dropWhile_eq_Cons_conv neq_Nil_conv)
    have sub: "set ?s \<subseteq> set s" by (auto dest: set_dropWhileD)
    have "w = takeWhile (\<lambda>c. c \<noteq> d) ?s \<or> w \<in> set (strtok_all d (dropWhile (\<lambda>c. c \<noteq> d) ?s))"
      using "1.prems" False by (subst (asm) strtok_all.simps) (simp only: Let_def if_False set_simps insert_iff)
    then show ?thesis
    proof
      assume "w = takeWhile (\<lambda>c. c \<noteq> d) ?s"
      with x sub show ?thesis by (auto dest: set_takeWhileD)
    next
      assume "w \<in> set (strtok_all d (dropWhile (\<lambda>c. c \<noteq> d) ?s))"
      from "1.IH" [OF refl False this] sub show ?thesis by (auto dest: set_dropWhileD)
    qed
  qed
qed

section \<open>The token array\<close>

definition tokens_ok :: "token_array \<Rightarrow> bool" where
  "tokens_ok ts \<longleftrightarrow> length ts = 16 \<and> (\<forall>t \<in> set ts. length t = 64)"

lemma init_tokens_ok [simp]: "tokens_ok init_token_array"
  by (simp add: tokens_ok_def init_token_array_def string_sizes)

text \<open>One word is stored: the block is cleared and the characters are copied.\<close>

lemma store_word:
  assumes "tokens_ok ts" "i < 16" "length w < 64" "nul \<notin> set w"
  shows "\<exists>ts'. rbind (untokenize i ts) (copy_token w (length w) i) = Inr ts' \<and> tokens_ok ts' \<and>
    holds (ts' ! i) w \<and> (\<forall>j. j \<noteq> i \<longrightarrow> ts' ! j = ts ! j)"
proof -
  let ?z = "replicate 64 nul"
  let ?b = "blit ?z 0 w"
  have blk: "?b = w @ nul # replicate (63 - length w) nul"
    using assms(3) by (simp add: blit_def Suc_diff_le [symmetric] flip: replicate_Suc)
  have "rbind (untokenize i ts) (copy_token w (length w) i) = Inr (ts[i := ?b])"
    using assms
    by (simp add: untokenize_def store_def copy_token_def c_strncpy_def tokens_ok_def string_sizes
        memcpy_def Let_def)
  moreover have "tokens_ok (ts[i := ?b])"
    using assms(1,3) by (auto simp: tokens_ok_def length_blit dest!: set_update_subset_insert [THEN subsetD])
  moreover have "holds (ts[i := ?b] ! i) w"
    using assms by (auto simp: tokens_ok_def holds_iff blk)
  ultimately show ?thesis by auto
qed

text \<open>Without room for the next word the write behind the array is out of bounds.\<close>

lemma loop_ok:
  assumes "tokens_ok ts" "i + length ws \<le> 16" "\<forall>w \<in> set ws. length w < 64 \<and> nul \<notin> set w"
  shows "\<exists>ts'. tokenizer_loop ws i ts = Inr (ts', i + length ws) \<and> tokens_ok ts' \<and>
    (\<forall>k < length ws. holds (ts' ! (i + k)) (ws ! k)) \<and>
    (\<forall>j. j < i \<or> i + length ws \<le> j \<longrightarrow> ts' ! j = ts ! j)"
  using assms
proof (induction ws arbitrary: i ts)
  case Nil
  then show ?case by simp
next
  case (Cons w ws)
  obtain t1 where t1: "rbind (untokenize i ts) (copy_token w (length w) i) = Inr t1" "tokens_ok t1"
      "holds (t1 ! i) w" "\<forall>j. j \<noteq> i \<longrightarrow> t1 ! j = ts ! j"
    using store_word [of ts i w] Cons.prems by auto
  obtain ts' where ts': "tokenizer_loop ws (Suc i) t1 = Inr (ts', Suc i + length ws)" "tokens_ok ts'"
      "\<forall>k < length ws. holds (ts' ! (Suc i + k)) (ws ! k)"
      "\<forall>j. j < Suc i \<or> Suc i + length ws \<le> j \<longrightarrow> ts' ! j = t1 ! j"
    using Cons.IH [OF t1(2), of "Suc i"] Cons.prems by auto
  have "tokenizer_loop (w # ws) i ts = Inr (ts', i + length (w # ws))"
    using t1(1) ts'(1) Cons.prems(2) by (auto simp: string_sizes)
  moreover have "holds (ts' ! (i + k)) ((w # ws) ! k)" if "k < length (w # ws)" for k
    using that t1(3) ts'(3,4) by (cases k) auto
  moreover have "\<forall>j. j < i \<or> i + length (w # ws) \<le> j \<longrightarrow> ts' ! j = ts ! j"
    using t1(4) ts'(4) by auto
  ultimately show ?case using ts'(2) by blast
qed

lemma copy_token_cases: "copy_token w n i ts = Inl OutOfBounds \<or> (\<exists>b. copy_token w n i ts = Inr (ts[i := b]))"
  by (auto simp: copy_token_def c_strncpy_def memcpy_def Let_def)

lemma loop_overflow:
  "length ts = 16 \<Longrightarrow> i \<le> 16 \<Longrightarrow> 16 < i + length ws \<Longrightarrow> tokenizer_loop ws i ts = Inl OutOfBounds"
proof (induction ws arbitrary: i ts)
  case (Cons w ws)
  show ?case
  proof (cases "i = 16")
    case True
    with Cons.prems show ?thesis by (simp add: untokenize_def store_def)
  next
    case False
    let ?t = "ts[i := replicate 64 nul]"
    have u: "untokenize i ts = Inr ?t"
      using Cons.prems False by (simp add: untokenize_def store_def string_sizes)
    from copy_token_cases [of w "length w" i ?t] show ?thesis
    proof (elim disjE exE)
      fix b assume "copy_token w (length w) i ?t = Inr (?t[i := b])"
      moreover have "tokenizer_loop ws (Suc i) (?t[i := b]) = Inl OutOfBounds"
        using Cons.prems False by (intro Cons.IH) auto
      ultimately show ?thesis using u Cons.prems False by (simp add: string_sizes)
    qed (simp add: u)
  qed
qed simp

lemma tokenizer_start:
  assumes "holds blk s" "length s < 2048"
  shows "tokenizer blk d ts =
    (if trim s = [] then Inr (ts, False, 0)
     else case strtok_all d (trim s) of [] \<Rightarrow> Inr (ts, False, 0)
       | t # toks \<Rightarrow>
           rbind (untokenize 0 ts) (\<lambda>ts.
           rbind (copy_token t (length t) 0 ts) (\<lambda>ts.
           rbind (tokenizer_loop toks 1 ts) (\<lambda>(ts, i). Inr (ts, True, i)))))"
proof -
  let ?a = "s @ nul # replicate (2047 - length s) nul"
  have ns: "nul \<notin> set s" using assms(1) by (simp add: holds_iff)
  have cs: "cstr blk = s" using assms(1) by (simp add: holds_def)
  have "blit (replicate 2048 nul) 0 s = s @ replicate (2048 - length s) nul" by (simp add: blit_def)
  moreover have "2048 - length s = Suc (2047 - length s)" using assms(2) by simp
  ultimately have "c_strncpy (replicate CONS_INPUT_BUFFER_SIZE nul) blk (length s) = Inr ?a"
    using assms(2) by (simp add: c_strncpy_def cs memcpy_def string_sizes Let_def)
  moreover have "store ?a (length s) nul = Inr ?a"
    using assms(2) by (simp add: store_def list_update_append)
  moreover obtain a' where "string_space_trim (Some ?a) = Inr (Some a')" "holds a' (trim s)"
    using space_trim_holds [of ?a s] ns by (auto simp: holds_iff)
  moreover have "c_strlen blk = Inr (length s)" using assms(1) by (rule strlen_holds)
  ultimately show ?thesis
    by (auto simp: tokenizer_def strlen_holds holds_def Let_def less_Suc_eq split: list.splits)
qed

lemma trim_set: "set (trim s) \<subseteq> set s"
  unfolding trim_def by (metis (no_types, lifting) set_dropWhileD set_rev subsetI)

theorem tokenizer_words:
  assumes "holds blk s" "length s < 2048" "tokens_ok ts"
    and "length (strtok_all d (trim s)) \<le> 16" "\<forall>w \<in> set (strtok_all d (trim s)). length w < 64"
  shows "\<exists>ts'. tokenizer blk d ts =
      Inr (ts', strtok_all d (trim s) \<noteq> [], length (strtok_all d (trim s))) \<and> tokens_ok ts' \<and>
    (\<forall>k < length (strtok_all d (trim s)). holds (ts' ! k) (strtok_all d (trim s) ! k))"
proof (cases "strtok_all d (trim s)")
  case Nil
  with tokenizer_start [OF assms(1,2), of d ts] assms(3) show ?thesis by auto
next
  case (Cons t toks)
  have ns: "nul \<notin> set (trim s)" using assms(1) trim_set [of s] by (auto simp: holds_iff)
  then have nn: "\<forall>w \<in> set (t # toks). nul \<notin> set w"
    using strtok_words [of _ d "trim s"] Cons by fastforce
  obtain t1 where t1: "rbind (untokenize 0 ts) (copy_token t (length t) 0) = Inr t1" "tokens_ok t1"
      "holds (t1 ! 0) t"
    using store_word [of ts 0 t] assms(3,5) nn Cons by auto
  obtain ts' where ts': "tokenizer_loop toks 1 t1 = Inr (ts', 1 + length toks)" "tokens_ok ts'"
      "\<forall>k < length toks. holds (ts' ! (1 + k)) (toks ! k)" "ts' ! 0 = t1 ! 0"
    using loop_ok [of t1 1 toks] t1(2) assms(4,5) nn Cons by auto
  have "trim s \<noteq> []" using Cons by auto
  then have "tokenizer blk d ts = Inr (ts', True, Suc (length toks))"
    using tokenizer_start [OF assms(1,2), of d ts] Cons t1(1) ts'(1) by auto
  moreover have "holds (ts' ! k) ((t # toks) ! k)" if "k < length (t # toks)" for k
    using that t1(3) ts'(3,4) by (cases k) auto
  ultimately show ?thesis using ts'(2) Cons by auto
qed

theorem tokenizer_too_many:
  assumes "holds blk s" "length s < 2048" "length ts = 16" "16 < length (strtok_all d (trim s))"
  shows "tokenizer blk d ts = Inl OutOfBounds"
proof -
  have "strtok_all d (trim s) \<noteq> []" using assms(4) by auto
  then obtain t toks where w: "strtok_all d (trim s) = t # toks" "trim s \<noteq> []"
    by (cases "strtok_all d (trim s)"; cases "trim s = []") auto
  let ?t = "ts[0 := replicate 64 nul]"
  have u: "untokenize 0 ts = Inr ?t" using assms(3) by (simp add: untokenize_def store_def string_sizes)
  have "tokenizer_loop toks 1 (?t[0 := b]) = Inl OutOfBounds" for b
    using assms(3,4) w by (intro loop_overflow) auto
  with copy_token_cases [of t "length t" 0 ?t] tokenizer_start [OF assms(1,2), of d ts] w u
  show ?thesis by auto
qed

section \<open>Fetching a number\<close>

text \<open>The \<open>index\<close>-th word made of digits, counted from 1; zero when there is none.\<close>

lemma fetch_loop_nth:
  "fetch_loop ws index count =
   (if count < index \<and> index - count \<le> int (length (filter is_number ws))
    then i32 (atoi_digits (filter is_number ws ! nat (index - count - 1))) else Inr 0)"
proof (induction ws arbitrary: count)
  case (Cons w ws)
  show ?case
  proof (cases "is_number w")
    case True
    show ?thesis
    proof (cases "index = count + 1")
      case False
      then have "nat (index - count - 1) = Suc (nat (index - (count + 1) - 1))" if "count < index"
        using that by linarith
      with True False Cons.IH [of "count + 1"] show ?thesis by auto
    qed (use True in simp)
  qed (use Cons.IH [of count] in simp)
qed auto

theorem fetch_integer_nth:
  assumes "holds b s" "length s < n" "n \<le> length b"
  shows "string_fetch_integer b n index =
    (let ns = filter is_number (strtok_all CHR 0x20 s) in
     if 0 < index \<and> index \<le> int (length ns) then i32 (atoi_digits (ns ! nat (index - 1))) else Inr 0)"
proof -
  obtain r where b: "b = s @ nul # r" "nul \<notin> set s" using assms(1) by (auto simp: holds_iff)
  obtain k where k: "n = length s + Suc k" using assms(2) less_iff_Suc_add by auto
  have "take n b = s @ nul # take k r" by (simp add: b(1) k)
  with b(2) assms(3) k show ?thesis
    by (simp add: string_fetch_integer_def fetch_loop_nth Let_def)
qed

section \<open>Filtering lines\<close>

lemma c_strstr_sublist: "c_strstr s p \<longleftrightarrow> sublist p s"
  by (induction s) (auto simp: sublist_Cons_right)

definition matching_lines :: "string \<Rightarrow> string list \<Rightarrow> string" where
  "matching_lines p toks = concat (map (\<lambda>t. t @ [CHR 0x0A]) (filter (sublist p) toks))"

lemma grep_loop_lines:
  assumes "\<forall>t \<in> set toks. t \<noteq> []" "rc + length (matching_lines p toks) < length b"
  shows "\<exists>b'. grep_loop toks p b rc = Inr (b', rc + length (matching_lines p toks)) \<and>
    length b' = length b \<and> take rc b' = take rc b \<and>
    (b ! rc = nul \<longrightarrow> (\<exists>r. drop rc b' = matching_lines p toks @ nul # r))"
  using assms
proof (induction toks arbitrary: b rc)
  case Nil
  then show ?case by (auto simp: matching_lines_def Cons_nth_drop_Suc [symmetric])
next
  case (Cons t toks)
  show ?case
  proof (cases "sublist p t")
    case False
    then have "matching_lines p (t # toks) = matching_lines p toks" by (simp add: matching_lines_def)
    with False Cons show ?thesis by (simp add: pattern_match_def c_strstr_sublist)
  next
    case True
    let ?l = "t @ [CHR 0x0A]"
    have m: "matching_lines p (t # toks) = ?l @ matching_lines p toks"
      using True by (simp add: matching_lines_def)
    let ?b = "blit b rc (?l @ [nul])"
    have fit: "rc + length (?l @ [nul]) \<le> length b" using Cons.prems(2) m by simp
    then have len: "length ?b = length b" by (simp add: length_blit)
    have nb: "?b ! (rc + length t + 1) = nul" "take rc ?b = take rc b"
      "take (rc + length t + 1) ?b = take rc b @ ?l"
      using fit by (simp_all add: blit_def nth_append min_def)
    have p1: "\<forall>t \<in> set toks. t \<noteq> []" using Cons.prems(1) by simp
    have p2: "rc + length t + 1 + length (matching_lines p toks) < length ?b"
      using Cons.prems(2) m len by simp
    obtain b' where b': "grep_loop toks p ?b (rc + length t + 1) =
        Inr (b', rc + length t + 1 + length (matching_lines p toks))" "length b' = length ?b"
        "take (rc + length t + 1) b' = take (rc + length t + 1) ?b"
        "\<exists>r. drop (rc + length t + 1) b' = matching_lines p toks @ nul # r"
      using Cons.IH [OF p1 p2] nb(1) by blast
    have step: "grep_loop (t # toks) p b rc = Inr (b', rc + length (matching_lines p (t # toks)))"
      using True Cons.prems(1) fit b'(1) m
      by (simp add: pattern_match_def c_strstr_sublist memcpy_def)
    have pre: "take (rc + length t + 1) b' = take rc b @ ?l" using b'(3) nb(3) by simp
    have "take rc (take (rc + length t + 1) b') = take rc b" unfolding pre using fit by simp
    then have "take rc b' = take rc b" by (simp add: min_def)
    moreover have "\<exists>r. drop rc b' = matching_lines p (t # toks) @ nul # r"
    proof -
      obtain r where "drop (rc + length t + 1) b' = matching_lines p toks @ nul # r" using b'(4) by blast
      then have "b' = (take rc b @ ?l) @ matching_lines p toks @ nul # r"
        using pre by (metis append_take_drop_id)
      moreover have "length (take rc b) = rc" using fit by simp
      ultimately have "drop rc b' = ?l @ matching_lines p toks @ nul # r" by simp
      then show ?thesis using m by simp
    qed
    ultimately show ?thesis using step b'(2) len by (intro exI [of _ b']) simp
  qed
qed

theorem grep_lines:
  assumes "holds b s" "length s < n" "n \<le> length b"
    and "length (matching_lines p (strtok_all (CHR 0x0A) s)) < length b"
  shows "\<exists>b'. grep b n p = Inr (b', length (matching_lines p (strtok_all (CHR 0x0A) s))) \<and>
    holds b' (matching_lines p (strtok_all (CHR 0x0A) s)) \<and> length b' = length b"
proof -
  obtain r where b: "b = s @ nul # r" "nul \<notin> set s" using assms(1) by (auto simp: holds_iff)
  obtain k where k: "n = length s + Suc k" using assms(2) less_iff_Suc_add by auto
  have tk: "take n b = s @ nul # take k r" by (simp add: b(1) k)
  let ?z = "blit b 0 (replicate n nul)"
  let ?ws = "strtok_all (CHR 0x0A) s"
  have z: "length ?z = length b" "?z ! 0 = nul"
    using assms(3) k by (auto simp: length_blit blit_def nth_append)
  have ne: "\<forall>t \<in> set ?ws. t \<noteq> [] \<and> set t \<subseteq> set s" using strtok_words by blast
  obtain b' where b': "grep_loop ?ws p ?z 0 = Inr (b', length (matching_lines p ?ws))"
      "length b' = length b" "\<exists>r. drop 0 b' = matching_lines p ?ws @ nul # r"
    using grep_loop_lines [of ?ws 0 p ?z] ne z assms(4) by auto
  have "nul \<noteq> CHR 0x0A" by (simp add: nul_def)
  then have "nul \<notin> set (matching_lines p ?ws)"
    using ne b(2) by (auto simp: matching_lines_def)
  then have "holds b' (matching_lines p ?ws)" using b'(3) by (simp add: holds_iff)
  moreover have "grep b n p = Inr (b', length (matching_lines p ?ws))"
    using assms(3) b'(1) tk b(2) k by (simp add: grep_def memcpy_def)
  ultimately show ?thesis using b'(2) by blast
qed

section \<open>Replacing\<close>

lemma rs_match_differs:
  "i < length s \<Longrightarrow> j < length sub \<Longrightarrow> s ! i \<noteq> sub ! j \<Longrightarrow> rs_match s sub n i j f = Inr (i, j, f)"
  by (subst rs_match.simps) simp

text \<open>Comparing a whole occurrence: the loop ends behind it, at the NUL of the pattern.\<close>

lemma rs_match_occurrence:
  assumes "c \<noteq> nul"
  shows "rs_match (a @ w1 @ w2 @ c # r) (w1 @ w2 @ [nul]) (length (w1 @ w2)) (length a + length w1)
      (length w1) f = Inr (length a + length (w1 @ w2), length (w1 @ w2), f \<or> w2 \<noteq> [])"
proof (induction w2 arbitrary: w1 f)
  case Nil
  then show ?case using assms by (simp add: rs_match_differs nth_append)
next
  case (Cons x w2)
  let ?s = "a @ w1 @ (x # w2) @ c # r" and ?sub = "w1 @ (x # w2) @ [nul]"
  have "rs_match ?s ?sub (length (w1 @ x # w2)) (length a + length w1) (length w1) f =
    rs_match ?s ?sub (length (w1 @ x # w2)) (Suc (length a + length w1)) (Suc (length w1)) (f \<or> w2 = [])"
    by (subst rs_match.simps) (auto simp: nth_append)
  also have "\<dots> = Inr (length a + length (w1 @ x # w2), length (w1 @ x # w2), (f \<or> w2 = []) \<or> w2 \<noteq> [])"
    using Cons.IH [of "w1 @ [x]" "f \<or> w2 = []"] by simp
  finally show ?case by simp
qed

text \<open>At the end of the string the two NULs agree too, and the loop leaves the pattern.\<close>

lemma rs_match_end:
  "rs_match (a @ w1 @ w2 @ nul # r) (w1 @ w2 @ [nul]) n (length a + length w1) (length w1) f =
   Inl OutOfBounds"
proof (induction w2 arbitrary: w1 f)
  case Nil
  then show ?case by (subst rs_match.simps) (simp add: nth_append, subst rs_match.simps, simp)
next
  case (Cons x w2)
  have "rs_match (a @ w1 @ (x # w2) @ nul # r) (w1 @ (x # w2) @ [nul]) n (length a + length w1)
      (length w1) f =
    rs_match (a @ w1 @ (x # w2) @ nul # r) (w1 @ (x # w2) @ [nul]) n (Suc (length a + length w1))
      (Suc (length w1)) (f \<or> int (length w1) = int n - 1)"
    by (subst rs_match.simps) (simp add: nth_append)
  also have "\<dots> = Inl OutOfBounds"
    using Cons.IH [of "w1 @ [x]" "f \<or> int (length w1) = int n - 1"] by simp
  finally show ?case .
qed

lemma shift_left_list:
  "shift_left (a @ x # ys @ r) (length a) (length ys) = Inr (a @ ys @ last (x # ys) # r)"
proof (induction ys arbitrary: a x)
  case (Cons y ys)
  have "shift_left (a @ x # (y # ys) @ r) (length a) (length (y # ys)) =
      shift_left ((a @ [y]) @ y # ys @ r) (length (a @ [y])) (length ys)"
    by (simp add: nth_append list_update_append)
  then show ?case using Cons.IH [of "a @ [y]" y] by simp
qed simp

lemma rs_delete_list:
  "rs_delete (a @ del @ t @ nul # r) (length a) (length a + length del + length t) (length del) =
   Inr (a @ t @ nul # replicate (length del) nul @ r, length a + length t)"
proof (induction del arbitrary: r)
  case (Cons x del)
  have "shift_left (a @ x # (del @ t @ [nul]) @ r) (length a) (length (del @ t @ [nul])) =
      Inr (a @ (del @ t @ [nul]) @ nul # r)"
    using shift_left_list [of a x "del @ t @ [nul]" r] by simp
  then have "rs_delete (a @ (x # del) @ t @ nul # r) (length a) (length a + length (x # del) + length t)
      (length (x # del)) =
    rs_delete (a @ del @ t @ nul # nul # r) (length a) (length a + length del + length t) (length del)"
    by simp
  with Cons.IH [of "nul # r"] show ?case by (simp add: replicate_app_Cons_same)
qed simp

lemma shift_right_list:
  "shift_right (a @ ys @ z # r) (length a) (length ys) =
   Inr (a @ (case ys of [] \<Rightarrow> z | y # _ \<Rightarrow> y) # ys @ r)"
proof (induction ys arbitrary: z r rule: rev_induct)
  case (snoc y ys)
  have "shift_right (a @ (ys @ [y]) @ z # r) (length a) (length (ys @ [y])) =
      shift_right (a @ ys @ y # y # r) (length a) (length ys)"
    by (simp add: nth_append list_update_append)
  with snoc.IH [of y "y # r"] show ?case by (simp split: list.splits)
qed simp

lemma rs_insert_list:
  "length zs = length new \<Longrightarrow>
   rs_insert (a @ t @ nul # zs @ r) (length a) (length a + length t) new =
   Inr (a @ new @ t @ nul # r, length a + length t + length new)"
proof (induction new arbitrary: a zs)
  case (Cons c new)
  then obtain z zs' where zs: "zs = z # zs'" "length zs' = length new" by (cases zs) auto
  have "shift_right (a @ (t @ [nul]) @ z # zs' @ r) (length a) (length (t @ [nul])) =
      Inr (a @ hd (t @ [nul]) # (t @ [nul]) @ zs' @ r)"
    using shift_right_list [of a "t @ [nul]" z "zs' @ r"] by (cases t) simp_all
  then have "rs_insert (a @ t @ nul # zs @ r) (length a) (length a + length t) (c # new) =
      rs_insert ((a @ [c]) @ t @ nul # zs' @ r) (length (a @ [c])) (length (a @ [c]) + length t) new"
    using zs(1) by (simp add: store_def list_update_append Suc_diff_le)
  with Cons.IH [OF zs(2), of "a @ [c]"] show ?case by simp
qed simp

lemma rs_loop_scan:
  assumes "sub \<noteq> []" "l \<le> length s" "\<And>k. i \<le> k \<Longrightarrow> k < l \<Longrightarrow> s ! k \<noteq> sub ! 0"
  shows "rs_loop sub s n new l i = Inr s"
  using assms(3)
proof (induction "l - i" arbitrary: i)
  case 0
  then show ?case by (subst rs_loop.simps) simp
next
  case (Suc m)
  then have "rs_match s sub n i 0 False = Inr (i, 0, False)"
    using assms(1,2) by (intro rs_match_differs) auto
  with Suc show ?case by (subst rs_loop.simps) simp
qed

text \<open>The scan before the first occurrence.\<close>

lemma rs_loop_skip:
  assumes "sub \<noteq> []" "m \<le> l" "l \<le> length s" "\<And>k. k < m \<Longrightarrow> s ! k \<noteq> sub ! 0"
  shows "i \<le> m \<Longrightarrow> rs_loop sub s n new l i = rs_loop sub s n new l m"
proof (induction "m - i" arbitrary: i)
  case (Suc k)
  then have "rs_match s sub n i 0 False = Inr (i, 0, False)"
    using assms by (intro rs_match_differs) auto
  moreover have "rs_loop sub s n new l (Suc i) = rs_loop sub s n new l m"
    using Suc.hyps(2) by (intro Suc.hyps(1)) auto
  moreover have "i < l" using Suc.hyps(2) assms(2) by linarith
  ultimately show ?case by (subst rs_loop.simps) simp
qed simp

theorem replace_occurrence:
  assumes "w \<noteq> []" "hd w \<notin> set pre" "hd w \<notin> set post" "nul \<notin> set (pre @ w @ c # post)"
    and "length new \<le> length w + length r" "nul \<notin> set new"
  shows "\<exists>r'. replaceSubstring (pre @ w @ c # post @ nul # r) (w @ [nul]) (new @ [nul]) =
    Inr (pre @ new @ c # post @ nul # r') \<and> length new + length r' = length w + length r"
proof -
  let ?s = "pre @ w @ c # post @ nul # r" and ?sub = "w @ [nul]"
  let ?l = "length pre + length w + Suc (length post)"
  have h0: "(w @ z) ! 0 = hd w" for z using assms(1) by (simp add: nth_append hd_conv_nth)
  have sc: "hd w \<notin> set x \<Longrightarrow> k < length x \<Longrightarrow> x ! k \<noteq> hd w" for x k using nth_mem by metis
  have len: "c_strlen ?s = Inr ?l" "c_strlen ?sub = Inr (length w)" "c_strlen (new @ [nul]) = Inr (length new)"
      "cstr (new @ [nul]) = new"
    using cstr_append [of "pre @ w @ c # post" r] cstr_append [of w "[]"] cstr_append [of new "[]"] assms(4,6)
    by (simp_all add: c_strlen_def)
  have pre: "rs_loop ?sub ?s (length w) new ?l 0 = rs_loop ?sub ?s (length w) new ?l (length pre)"
    using sc [OF assms(2)] by (intro rs_loop_skip) (auto simp: h0, auto simp: nth_append)
  let ?zs = "replicate (length w) nul @ r"
  define r' where "r' = drop (length new) ?zs"
  have zs: "?zs = take (length new) ?zs @ r'" unfolding r'_def by (rule append_take_drop_id [symmetric])
  have lz: "length (take (length new) ?zs) = length new" using assms(5) by simp
  have del: "rs_delete ?s (length pre) ?l (length w) =
      Inr (pre @ (c # post) @ nul # ?zs, length pre + length (c # post))"
    using rs_delete_list [of pre w "c # post" r] by simp
  have ins: "rs_insert (pre @ (c # post) @ nul # ?zs) (length pre) (length pre + length (c # post)) new =
      Inr (pre @ new @ (c # post) @ nul # r', length pre + length (c # post) + length new)"
    using rs_insert_list [OF lz, of pre "c # post" r'] unfolding zs [symmetric] .
  have "rs_match ?s ?sub (length w) (length pre) 0 False = Inr (length pre + length w, length w, True)"
    using rs_match_occurrence [of c pre "[]" w "post @ nul # r" False] assms(1,4) by auto
  then have "rs_loop ?sub ?s (length w) new ?l (length pre) =
      rs_loop ?sub (pre @ new @ (c # post) @ nul # r') (length w) new
        (length pre + length (c # post) + length new) (Suc (length pre + length new))"
    using del ins by (subst rs_loop.simps) (simp add: ac_simps)
  also have "\<dots> = Inr (pre @ new @ (c # post) @ nul # r')"
  proof (intro rs_loop_scan)
    fix k assume k: "Suc (length pre + length new) \<le> k" "k < length pre + length (c # post) + length new"
    then obtain j where j: "k = length (pre @ new @ [c]) + j" using le_Suc_ex [of "Suc (length pre + length new)" k] by auto
    have "(pre @ new @ (c # post) @ nul # r') ! k = ((pre @ new @ [c]) @ post @ nul # r') ! k" by simp
    also have "\<dots> = post ! j" using k j unfolding j nth_append_length_plus by (simp add: nth_append)
    finally show "(pre @ new @ (c # post) @ nul # r') ! k \<noteq> ?sub ! 0"
      using sc [OF assms(3), of j] k j by (simp add: h0)
  qed auto
  finally show ?thesis
    using pre len assms(5) by (auto simp: replaceSubstring_def r'_def)
qed

theorem replace_at_end_out_of_bounds:
  assumes "w \<noteq> []" "hd w \<notin> set pre" "nul \<notin> set (pre @ w)" "nul \<in> set new"
  shows "replaceSubstring (pre @ w @ nul # r) (w @ [nul]) new = Inl OutOfBounds"
proof -
  let ?s = "pre @ w @ nul # r" and ?sub = "w @ [nul]"
  let ?l = "length pre + length w"
  have h0: "(w @ z) ! 0 = hd w" for z using assms(1) by (simp add: nth_append hd_conv_nth)
  have sc: "hd w \<notin> set x \<Longrightarrow> k < length x \<Longrightarrow> x ! k \<noteq> hd w" for x k using nth_mem by metis
  have len: "c_strlen ?s = Inr ?l" "c_strlen ?sub = Inr (length w)"
    using cstr_append [of "pre @ w" r] cstr_append [of w "[]"] assms(3) by (auto simp: c_strlen_def)
  have pre: "rs_loop ?sub ?s (length w) (cstr new) ?l 0 = rs_loop ?sub ?s (length w) (cstr new) ?l (length pre)"
    using sc [OF assms(2)] by (intro rs_loop_skip) (auto simp: h0, auto simp: nth_append)
  have "rs_match ?s ?sub (length w) (length pre) 0 False = Inl OutOfBounds"
    using rs_match_end [of pre "[]" w r "length w" False] by simp
  then have "rs_loop ?sub ?s (length w) (cstr new) ?l (length pre) = Inl OutOfBounds"
    using assms(1) by (subst rs_loop.simps) simp
  with pre len assms(4) show ?thesis by (simp add: replaceSubstring_def c_strlen_def)
qed

end
