(* ===== verification/SerBuffer.thy ===== *)
theory SerBuffer
  imports Prelude
begin

text \<open>
  The growing byte buffer of the command parser (\<^verbatim>\<open>serialize.c\<close>, \<^verbatim>\<open>serialize.h\<close>):
  a block, its size, the position of the next byte and a checkpoint, all of C's type
  \<^verbatim>\<open>int\<close>. A write that does not fit doubles the size until it does.

  The loop that doubles is a partial function: \<open>None\<close> is a loop that never ends, which is
  what a buffer of size zero gives. The host stores integers low byte first.
\<close>

section \<open>State and operations\<close>

record ser_buff =
  sb_b :: "byte list"
  sb_size :: int
  sb_next :: int
  sb_checkpoint :: int

definition SERIALIZE_BUFFER_DEFAULT_SIZE :: int where "SERIALIZE_BUFFER_DEFAULT_SIZE = 512"

definition init_serialized_buffer_of_defined_size :: "int \<Rightarrow> ser_buff" where
  "init_serialized_buffer_of_defined_size n =
     \<lparr>sb_b = replicate (nat n) 0, sb_size = n, sb_next = 0, sb_checkpoint = 0\<rparr>"

definition init_serialized_buffer :: ser_buff where
  "init_serialized_buffer =
     \<lparr>sb_b = replicate (nat SERIALIZE_BUFFER_DEFAULT_SIZE) 0,
      sb_size = SERIALIZE_BUFFER_DEFAULT_SIZE, sb_next = 0, sb_checkpoint = 0\<rparr>"

definition is_serialized_buffer_empty :: "ser_buff \<Rightarrow> bool" where
  "is_serialized_buffer_empty b = (sb_next b = 0)"

definition get_serialize_buffer_current_ptr_offset :: "ser_buff option \<Rightarrow> int" where
  "get_serialize_buffer_current_ptr_offset bo = (case bo of None \<Rightarrow> -1 | Some b \<Rightarrow> sb_next b)"

text \<open>The pointer into the block, as the index it points at.\<close>

definition get_serialize_buffer_current_ptr :: "ser_buff option \<Rightarrow> int option" where
  "get_serialize_buffer_current_ptr bo = (case bo of None \<Rightarrow> None | Some b \<Rightarrow> Some (sb_next b))"

definition get_serialize_buffer_size :: "ser_buff \<Rightarrow> int" where
  "get_serialize_buffer_size b = sb_next b"

text \<open>
  The doubling loop. \<open>short\<close> is the loop's comparison of the available size with the
  size of the data.
\<close>

partial_function (option) grow :: "(int \<Rightarrow> bool) \<Rightarrow> int \<Rightarrow> int \<Rightarrow> int res option" where [code]:
  "grow short sz nxt =
     (if \<not> i32_ok (sz - nxt) then Some (Inl IntOverflow)
      else if \<not> short (sz - nxt) then Some (Inr sz)
      else if \<not> i32_ok (sz * 2) then Some (Inl IntOverflow)
      else grow short (sz * 2) nxt)"

text \<open>
  An \<^verbatim>\<open>int\<close> is compared with a \<^verbatim>\<open>sizeof\<close> as an unsigned 64-bit number; with a
  byte count of type \<^verbatim>\<open>int\<close> it is compared as it is.
\<close>

definition short_sizeof :: "nat \<Rightarrow> int \<Rightarrow> bool" where
  "short_sizeof n avail \<longleftrightarrow> avail mod 2 ^ 64 < int n"

definition short_int :: "int \<Rightarrow> int \<Rightarrow> bool" where
  "short_int n avail \<longleftrightarrow> avail < n"

text \<open>
  \<^verbatim>\<open>memcpy(b + off, data, n)\<close> on the buffer; a negative count or offset is out of bounds.
\<close>

definition sb_put :: "ser_buff \<Rightarrow> int \<Rightarrow> byte list \<Rightarrow> int \<Rightarrow> ser_buff res" where
  "sb_put b off data n =
     (if off < 0 \<or> n < 0 then Inl OutOfBounds
      else rbind (memcpy (sb_b b) (nat off) data 0 (nat n)) (\<lambda>blk. Inr (b\<lparr>sb_b := blk\<rparr>)))"

text \<open>The body that all serializing functions share.\<close>

definition serialize_bytes ::
  "(nat \<Rightarrow> byte) \<Rightarrow> (int \<Rightarrow> bool) \<Rightarrow> ser_buff option \<Rightarrow> byte list \<Rightarrow> int \<Rightarrow> ser_buff res option" where
  "serialize_bytes junk short bo data n =
     (case bo of
        None \<Rightarrow> Some (Inl AssertFail)
      | Some b \<Rightarrow>
          (case grow short (sb_size b) (sb_next b) of
             None \<Rightarrow> None
           | Some (Inl e) \<Rightarrow> Some (Inl e)
           | Some (Inr sz) \<Rightarrow>
               let isResize = short (sb_size b - sb_next b);
                   b = b\<lparr>sb_size := sz\<rparr>;
                   b = (if isResize then b\<lparr>sb_b := realloc junk (sb_b b) (nat sz)\<rparr> else b)
               in Some (rbind (sb_put b (sb_next b) data n) (\<lambda>b.
                    rbind (i32 (sb_next b + n)) (\<lambda>nx. Inr (b\<lparr>sb_next := nx\<rparr>))))))"

fun le_bytes :: "nat \<Rightarrow> nat \<Rightarrow> byte list" where
  "le_bytes 0 v = []"
| "le_bytes (Suc k) v = of_nat (v mod 256) # le_bytes k (v div 256)"

definition serialize_int :: "(nat \<Rightarrow> byte) \<Rightarrow> ser_buff option \<Rightarrow> u32 \<Rightarrow> ser_buff res option" where
  "serialize_int junk bo d = serialize_bytes junk (short_sizeof 4) bo (le_bytes 4 (unat d)) 4"

definition serialize_int8 :: "(nat \<Rightarrow> byte) \<Rightarrow> ser_buff option \<Rightarrow> byte \<Rightarrow> ser_buff res option" where
  "serialize_int8 junk bo d = serialize_bytes junk (short_sizeof 1) bo [d] 1"

definition serialize_uint8 :: "(nat \<Rightarrow> byte) \<Rightarrow> ser_buff option \<Rightarrow> byte \<Rightarrow> ser_buff res option" where
  "serialize_uint8 junk bo d = serialize_bytes junk (short_sizeof 1) bo [d] 1"

definition serialize_int32 :: "(nat \<Rightarrow> byte) \<Rightarrow> ser_buff option \<Rightarrow> u32 \<Rightarrow> ser_buff res option" where
  "serialize_int32 junk bo d = serialize_bytes junk (short_sizeof 4) bo (le_bytes 4 (unat d)) 4"

definition serialize_uint32 :: "(nat \<Rightarrow> byte) \<Rightarrow> ser_buff option \<Rightarrow> u32 \<Rightarrow> ser_buff res option" where
  "serialize_uint32 junk bo d = serialize_bytes junk (short_sizeof 4) bo (le_bytes 4 (unat d)) 4"

text \<open>Floating-point numbers as the words that represent them.\<close>

definition serialize_float :: "(nat \<Rightarrow> byte) \<Rightarrow> ser_buff option \<Rightarrow> u32 \<Rightarrow> ser_buff res option" where
  "serialize_float junk bo d = serialize_bytes junk (short_sizeof 4) bo (le_bytes 4 (unat d)) 4"

definition serialize_double ::
  "(nat \<Rightarrow> byte) \<Rightarrow> ser_buff option \<Rightarrow> 64 word \<Rightarrow> ser_buff res option" where
  "serialize_double junk bo d = serialize_bytes junk (short_sizeof 8) bo (le_bytes 8 (unat d)) 8"

definition serialize_string ::
  "(nat \<Rightarrow> byte) \<Rightarrow> ser_buff option \<Rightarrow> byte list \<Rightarrow> int \<Rightarrow> ser_buff res option" where
  "serialize_string junk bo data nbytes = serialize_bytes junk (short_int nbytes) bo data nbytes"

definition serialize_buffer_skip :: "(nat \<Rightarrow> byte) \<Rightarrow> ser_buff \<Rightarrow> int \<Rightarrow> ser_buff res option" where
  "serialize_buffer_skip junk b n =
     (if \<not> short_int n (sb_size b - sb_next b)
      then Some (rbind (i32 (sb_next b + n)) (\<lambda>nx. Inr (b\<lparr>sb_next := nx\<rparr>)))
      else
        (case grow (short_int n) (sb_size b) (sb_next b) of
           None \<Rightarrow> None
         | Some (Inl e) \<Rightarrow> Some (Inl e)
         | Some (Inr sz) \<Rightarrow>
             Some (rbind (i32 (sb_next b + n)) (\<lambda>nx.
               Inr (b\<lparr>sb_size := sz, sb_b := realloc junk (sb_b b) (nat sz), sb_next := nx\<rparr>)))))"

definition restore_checkpoint_serialize_buffer :: "ser_buff option \<Rightarrow> ser_buff res" where
  "restore_checkpoint_serialize_buffer bo =
     (case bo of None \<Rightarrow> Inl AssertFail | Some b \<Rightarrow> Inr (b\<lparr>sb_next := sb_checkpoint b\<rparr>))"

definition mark_checkpoint_serialize_buffer :: "ser_buff option \<Rightarrow> ser_buff res" where
  "mark_checkpoint_serialize_buffer bo =
     (case bo of None \<Rightarrow> Inl AssertFail | Some b \<Rightarrow> Inr (b\<lparr>sb_checkpoint := sb_next b\<rparr>))"

definition get_serialize_buffer_checkpoint_offset :: "ser_buff \<Rightarrow> int" where
  "get_serialize_buffer_checkpoint_offset b = sb_checkpoint b"

definition truncate_serialize_buffer :: "ser_buff \<Rightarrow> ser_buff res" where
  "truncate_serialize_buffer b =
     (if sb_next b = sb_size b then Inr b
      else
        let clone = init_serialized_buffer_of_defined_size (sb_next b) in
        rbind (sb_put clone 0 (sb_b b) (sb_next b)) (\<lambda>clone.
          Inr (clone\<lparr>sb_next := sb_size clone\<rparr>)))"

text \<open>
  Reading: the bytes and the buffer. \<^verbatim>\<open>deserialize_primitive\<close> has no check of its own.
\<close>

definition sb_get :: "ser_buff \<Rightarrow> int \<Rightarrow> (byte list \<times> ser_buff) res" where
  "sb_get b n =
     (if n < 0 \<or> sb_next b < 0 \<or> nat (sb_next b) + nat n > length (sb_b b) then Inl OutOfBounds
      else Inr (take (nat n) (drop (nat (sb_next b)) (sb_b b)), b\<lparr>sb_next := sb_next b + n\<rparr>))"

definition deserialize_primitive :: "ser_buff \<Rightarrow> nat \<Rightarrow> (byte list \<times> ser_buff) res" where
  "deserialize_primitive b sz = sb_get b (int sz)"

definition de_serialize_string :: "ser_buff option \<Rightarrow> int \<Rightarrow> (byte list \<times> ser_buff) res" where
  "de_serialize_string bo sz =
     (case bo of
        None \<Rightarrow> Inl AssertFail
      | Some b \<Rightarrow>
          if sz = 0 then Inl AssertFail
          else if sb_size b - sb_next b < sz then Inl AssertFail
          else sb_get b sz)"

text \<open>The two error branches print and return: the buffer stays.\<close>

definition copy_in_serialized_buffer_by_offset ::
  "ser_buff \<Rightarrow> int \<Rightarrow> byte list \<Rightarrow> int \<Rightarrow> ser_buff res" where
  "copy_in_serialized_buffer_by_offset b sz value offset =
     (if sb_size b - sb_next b < sz then Inr b
      else if offset > sb_size b then Inr b
      else sb_put b offset value sz)"

definition reset_serialize_buffer :: "ser_buff \<Rightarrow> ser_buff" where
  "reset_serialize_buffer b = b\<lparr>sb_next := 0, sb_checkpoint := 0\<rparr>"

section \<open>Invariant and abstraction\<close>

text \<open>The buffer's content is the bytes before the position.\<close>

definition sb_ok :: "ser_buff \<Rightarrow> bool" where
  "sb_ok b \<longleftrightarrow> 0 \<le> sb_next b \<and> sb_next b \<le> sb_size b \<and> sb_size b = int (length (sb_b b)) \<and>
     0 \<le> sb_checkpoint b \<and> sb_checkpoint b \<le> sb_size b \<and> i32_ok (sb_size b)"

definition sb_bytes :: "ser_buff \<Rightarrow> byte list" where
  "sb_bytes b = take (nat (sb_next b)) (sb_b b)"

lemma length_sb_bytes: "sb_ok b \<Longrightarrow> length (sb_bytes b) = nat (sb_next b)"
  by (auto simp: sb_ok_def sb_bytes_def)

lemma init_sb_ok [simp]:
  "sb_ok init_serialized_buffer" "sb_bytes init_serialized_buffer = []"
  by (simp_all add: sb_ok_def sb_bytes_def init_serialized_buffer_def
      SERIALIZE_BUFFER_DEFAULT_SIZE_def i32_ok_def)

lemma init_sized_sb_ok:
  "0 \<le> n \<Longrightarrow> i32_ok n \<Longrightarrow> sb_ok (init_serialized_buffer_of_defined_size n)"
  by (simp add: sb_ok_def init_serialized_buffer_of_defined_size_def)

section \<open>The doubling loop\<close>

text \<open>Doubling ends with the first size that is large enough, below twice what is needed.\<close>

lemma grow_ends:
  assumes "0 < sz" "0 \<le> nxt" "nxt \<le> sz" "0 \<le> n" "nxt + n \<le> 1073741824" "i32_ok sz"
    and "\<And>a. 0 \<le> a \<Longrightarrow> i32_ok a \<Longrightarrow> short a \<longleftrightarrow> a < n"
  shows "\<exists>z. grow short sz nxt = Some (Inr z) \<and> sz \<le> z \<and> nxt + n \<le> z \<and> i32_ok z \<and>
    (sz - nxt < n \<or> z = sz)"
  using assms(1,3,6)
proof (induction "nat (nxt + n - sz)" arbitrary: sz rule: less_induct)
  case less
  have ok: "i32_ok (sz - nxt)" "0 \<le> sz - nxt"
    using less.prems assms(2) by (auto simp: i32_ok_def)
  show ?case
  proof (cases "sz - nxt < n")
    case True
    then have d: "i32_ok (sz * 2)" "0 < sz * 2" "nxt \<le> sz * 2"
      using less.prems assms(2,5) by (auto simp: i32_ok_def)
    have "nat (nxt + n - sz * 2) < nat (nxt + n - sz)"
      using True less.prems by linarith
    from less.hyps [OF this d(2,3,1)] obtain z where
      "grow short (sz * 2) nxt = Some (Inr z)" "sz * 2 \<le> z" "nxt + n \<le> z" "i32_ok z"
      by blast
    with True ok d(1) less.prems show ?thesis
      by (subst grow.simps) (auto simp: assms(7))
  next
    case False
    with ok less.prems show ?thesis by (subst grow.simps) (simp add: assms(7))
  qed
qed

lemma short_sizeof_iff: "0 \<le> a \<Longrightarrow> i32_ok a \<Longrightarrow> short_sizeof n a \<longleftrightarrow> a < int n"
  by (simp add: short_sizeof_def i32_ok_def)

text \<open>From size zero the loop never ends.\<close>

lemma grow_zero_aux:
  assumes "grow short sz nxt = Some r"
  shows "\<not> (sz = 0 \<and> nxt = 0 \<and> short 0)"
proof (rule grow.raw_induct [where ?P = "\<lambda>short sz nxt r. \<not> (sz = 0 \<and> nxt = 0 \<and> short 0)", OF _ assms])
  fix g and short :: "int \<Rightarrow> bool" and sz nxt :: int and r
  assume ih: "\<And>short sz nxt r. g short sz nxt = Some r \<Longrightarrow> \<not> (sz = 0 \<and> nxt = 0 \<and> short 0)"
    and eq: "(if \<not> i32_ok (sz - nxt) then Some (Inl IntOverflow)
      else if \<not> short (sz - nxt) then Some (Inr sz)
      else if \<not> i32_ok (sz * 2) then Some (Inl IntOverflow)
      else g short (sz * 2) nxt) = Some r"
  show "\<not> (sz = 0 \<and> nxt = 0 \<and> short 0)"
    using eq ih [of short 0 0 r] by (auto simp: i32_ok_def)
qed

lemma grow_zero: "short 0 \<Longrightarrow> grow short 0 0 = None"
  using grow_zero_aux [of short 0 0] by (cases "grow short 0 0") auto

section \<open>Writing\<close>

lemma sb_put_ok:
  "0 \<le> off \<Longrightarrow> 0 \<le> n \<Longrightarrow> nat off + nat n \<le> length (sb_b b) \<Longrightarrow> nat n \<le> length data \<Longrightarrow>
   sb_put b off data n = Inr (b\<lparr>sb_b := blit (sb_b b) (nat off) (take (nat n) data)\<rparr>)"
  by (simp add: sb_put_def memcpy_ok)

text \<open>
  A write appends: whatever the buffer's size, the bytes are there after it, in front of
  nothing, behind everything that was there; the checkpoint stays.
\<close>

lemma serialize_bytes_appends:
  assumes "sb_ok b" "0 < sb_size b" "0 \<le> n" "nat n \<le> length data"
    and "sb_next b + n \<le> 1073741824"
    and "\<And>a. 0 \<le> a \<Longrightarrow> i32_ok a \<Longrightarrow> short a \<longleftrightarrow> a < n"
  shows "\<exists>b'. serialize_bytes junk short (Some b) data n = Some (Inr b') \<and> sb_ok b' \<and>
    sb_bytes b' = sb_bytes b @ take (nat n) data \<and> sb_next b' = sb_next b + n \<and>
    sb_checkpoint b' = sb_checkpoint b \<and> 0 < sb_size b'"
proof -
  have b: "0 \<le> sb_next b" "sb_next b \<le> sb_size b" "sb_size b = int (length (sb_b b))"
      "0 \<le> sb_checkpoint b" "sb_checkpoint b \<le> sb_size b" "i32_ok (sb_size b)"
    using assms(1) by (auto simp: sb_ok_def)
  obtain z where z: "grow short (sb_size b) (sb_next b) = Some (Inr z)" "sb_size b \<le> z"
      "sb_next b + n \<le> z" "i32_ok z" "sb_size b - sb_next b < n \<or> z = sb_size b"
    using grow_ends [OF assms(2) b(1,2) assms(3,5) b(6) assms(6)] by blast
  define blk where "blk = (if short (sb_size b - sb_next b) then realloc junk (sb_b b) (nat z) else sb_b b)"
  have sh: "short (sb_size b - sb_next b) \<longleftrightarrow> sb_size b - sb_next b < n"
    using assms(6) b by (auto simp: i32_ok_def)
  have len: "int (length blk) = z"
    using z(2,5) b sh by (auto simp: blk_def mem_simps)
  have pre: "take (nat (sb_next b)) blk = sb_bytes b"
    using b z(2) by (auto simp: blk_def sb_bytes_def take_realloc nat_mono)
  have fits: "nat (sb_next b) + nat n \<le> length blk" using z(3) len b(1) assms(3) by linarith
  let ?blk = "blit blk (nat (sb_next b)) (take (nat n) data)"
  let ?b = "b\<lparr>sb_size := z, sb_b := ?blk, sb_next := sb_next b + n\<rparr>"
  have ok32: "i32_ok (sb_next b + n)" using assms(3,5) b(1) by (simp add: i32_ok_def)
  have "serialize_bytes junk short (Some b) data n = Some (Inr ?b)"
    using z(1) fits b(1) assms(3,4) ok32
    by (cases "short (sb_size b - sb_next b)")
      (simp_all add: serialize_bytes_def sb_put_ok blk_def i32_def)
  moreover have "sb_ok ?b"
    using len b z(2,3,4) assms(3,4) fits by (simp add: sb_ok_def length_blit)
  moreover have "sb_bytes ?b = sb_bytes b @ take (nat n) data"
    using take_blit_append [of "nat (sb_next b)" "take (nat n) data" blk] fits assms(3,4) b(1) pre
    by (simp add: sb_bytes_def nat_add_distrib)
  ultimately show ?thesis using z(2) assms(2) by auto
qed

lemmas serialize_defs = serialize_int_def serialize_int8_def serialize_uint8_def
  serialize_int32_def serialize_uint32_def serialize_float_def serialize_double_def
  serialize_string_def

lemma serialize_string_appends:
  assumes "sb_ok b" "0 < sb_size b" "sb_next b + int (length data) \<le> 1073741824"
  shows "\<exists>b'. serialize_string junk (Some b) data (int (length data)) = Some (Inr b') \<and> sb_ok b' \<and>
    sb_bytes b' = sb_bytes b @ data \<and> sb_next b' = sb_next b + int (length data) \<and>
    sb_checkpoint b' = sb_checkpoint b \<and> 0 < sb_size b'"
  using serialize_bytes_appends [OF assms(1,2) _ _ assms(3), of data "short_int (int (length data))" junk]
  by (simp add: serialize_string_def short_int_def)

lemma length_le_bytes [simp]: "length (le_bytes k v) = k"
  by (induction k v rule: le_bytes.induct) auto

lemma serialize_int32_appends:
  assumes "sb_ok b" "0 < sb_size b" "sb_next b + 4 \<le> 1073741824"
  shows "\<exists>b'. serialize_int32 junk (Some b) d = Some (Inr b') \<and> sb_ok b' \<and>
    sb_bytes b' = sb_bytes b @ le_bytes 4 (unat d) \<and> sb_next b' = sb_next b + 4 \<and>
    sb_checkpoint b' = sb_checkpoint b \<and> 0 < sb_size b'"
  using serialize_bytes_appends [OF assms(1,2) _ _ assms(3), of "le_bytes 4 (unat d)" "short_sizeof 4" junk]
  by (simp add: serialize_int32_def short_sizeof_iff)

text \<open>Writing to a buffer that was truncated while empty never returns.\<close>

lemma truncate_empty:
  "sb_next b = 0 \<Longrightarrow> sb_size b \<noteq> 0 \<Longrightarrow>
   truncate_serialize_buffer b = Inr \<lparr>sb_b = [], sb_size = 0, sb_next = 0, sb_checkpoint = 0\<rparr>"
  by (simp add: truncate_serialize_buffer_def init_serialized_buffer_of_defined_size_def sb_put_def
      memcpy_def blit_def)

lemma serialize_string_size_0:
  "sb_size b = 0 \<Longrightarrow> sb_next b = 0 \<Longrightarrow> 0 < n \<Longrightarrow> serialize_string junk (Some b) data n = None"
  by (simp add: serialize_string_def serialize_bytes_def grow_zero short_int_def)

lemma truncate_keeps:
  assumes "sb_ok b"
  shows "\<exists>b'. truncate_serialize_buffer b = Inr b' \<and> sb_ok b' \<and> sb_bytes b' = sb_bytes b \<and>
    sb_next b' = sb_next b \<and> sb_size b' = sb_next b"
proof (cases "sb_next b = sb_size b")
  case True
  with assms show ?thesis by (simp add: truncate_serialize_buffer_def)
next
  case False
  let ?n = "nat (sb_next b)"
  have b: "0 \<le> sb_next b" "?n \<le> length (sb_b b)" using assms by (auto simp: sb_ok_def)
  then have "blit (replicate ?n 0) 0 (take ?n (sb_b b)) = take ?n (sb_b b)"
    by (simp add: blit_def)
  with False b assms show ?thesis
    by (auto simp: truncate_serialize_buffer_def init_serialized_buffer_of_defined_size_def
        sb_put_ok sb_ok_def sb_bytes_def i32_ok_def)
qed

section \<open>Reading back\<close>

text \<open>What is written after a checkpoint is read back after the checkpoint is restored.\<close>

lemma sb_get_ok:
  assumes "sb_ok b" "0 \<le> n" "sb_next b + n \<le> sb_size b"
  shows "sb_get b n = Inr (take (nat n) (drop (nat (sb_next b)) (sb_b b)), b\<lparr>sb_next := sb_next b + n\<rparr>)"
  using assms by (auto simp: sb_get_def sb_ok_def)

lemma checkpoint_roundtrip:
  assumes "sb_ok b" "0 < sb_size b" "data \<noteq> []" "sb_next b + int (length data) \<le> 1073741824"
  shows "\<exists>b1 b2 b3 b4. mark_checkpoint_serialize_buffer (Some b) = Inr b1 \<and>
    serialize_string junk (Some b1) data (int (length data)) = Some (Inr b2) \<and>
    restore_checkpoint_serialize_buffer (Some b2) = Inr b3 \<and> sb_next b3 = sb_next b \<and>
    de_serialize_string (Some b3) (int (length data)) = Inr (data, b4) \<and> sb_next b4 = sb_next b2 \<and>
    sb_bytes b4 = sb_bytes b @ data"
proof -
  let ?b1 = "b\<lparr>sb_checkpoint := sb_next b\<rparr>"
  have ok1: "sb_ok ?b1" using assms(1) by (auto simp: sb_ok_def)
  obtain b2 where b2: "serialize_string junk (Some ?b1) data (int (length data)) = Some (Inr b2)"
      "sb_ok b2" "sb_bytes b2 = sb_bytes b @ data" "sb_next b2 = sb_next b + int (length data)"
      "sb_checkpoint b2 = sb_next b"
    using serialize_string_appends [OF ok1, of data junk] assms(2,4) by (auto simp: sb_bytes_def)
  let ?b3 = "b2\<lparr>sb_next := sb_next b\<rparr>"
  have "0 \<le> sb_next b" using assms(1) by (auto simp: sb_ok_def)
  have len: "length (sb_bytes b) = nat (sb_next b)"
    using assms(1) by (auto simp: sb_ok_def sb_bytes_def)
  have "take (length data) (drop (nat (sb_next b)) (sb_b b2)) =
      drop (nat (sb_next b)) (take (nat (sb_next b2)) (sb_b b2))"
    using b2(4) \<open>0 \<le> sb_next b\<close> by (simp add: take_drop nat_add_distrib add.commute)
  also have "\<dots> = data" using b2(3) len by (simp add: sb_bytes_def)
  finally have "de_serialize_string (Some ?b3) (int (length data)) = Inr (data, b2)"
    using b2(2,4) assms(1,3) by (auto simp: de_serialize_string_def sb_ok_def sb_get_def)
  then show ?thesis
    using b2 by (auto simp: mark_checkpoint_serialize_buffer_def restore_checkpoint_serialize_buffer_def)
qed

text \<open>Little-endian words read back.\<close>

fun of_le_bytes :: "byte list \<Rightarrow> nat" where
  "of_le_bytes [] = 0"
| "of_le_bytes (x # xs) = unat x + 256 * of_le_bytes xs"

lemma of_le_bytes_le_bytes: "v < 256 ^ k \<Longrightarrow> of_le_bytes (le_bytes k v) = v"
proof (induction k v rule: le_bytes.induct)
  case (2 k v)
  have "v div 256 < 256 ^ k" using 2(2) by (simp add: less_mult_imp_div_less mult.commute)
  with 2(1) show ?case by (simp add: unat_of_nat_byte del: unat_of_nat)
qed simp

text \<open>
  The check of the overwrite at an offset looks at the free space behind the position, not at
  the place it writes to.
\<close>

lemma copy_by_offset_out_of_bounds:
  assumes "sb_ok b" "0 < n" "n \<le> sb_size b - sb_next b" "off \<le> sb_size b" "sb_size b < off + n"
  shows "copy_in_serialized_buffer_by_offset b n v off = Inl OutOfBounds"
  using assms by (auto simp: copy_in_serialized_buffer_by_offset_def sb_put_def memcpy_def sb_ok_def)

lemma copy_by_offset_in_bounds:
  assumes "sb_ok b" "0 \<le> n" "n \<le> sb_size b - sb_next b" "0 \<le> off" "off + n \<le> sb_size b"
    and "nat n \<le> length v"
  shows "\<exists>b'. copy_in_serialized_buffer_by_offset b n v off = Inr b' \<and> sb_ok b' \<and>
    sb_b b' = blit (sb_b b) (nat off) (take (nat n) v) \<and> sb_next b' = sb_next b"
  using assms
  by (auto simp: copy_in_serialized_buffer_by_offset_def sb_put_ok sb_ok_def length_blit nat_add_distrib)

end
