(* ===== verification/CmdTlv.thy ===== *)
theory CmdTlv
  imports SerBuffer StringProps
begin

text \<open>
  The type-length-value records the command parser collects on the serialized buffer
  (\<^verbatim>\<open>cmdtlv.h\<close>): a packed structure of 4 + 32 + 64 bytes per leaf of the command, and
  a last one that holds the command code.
\<close>

section \<open>Leaf types\<close>

text \<open>\<^verbatim>\<open>leaf_type_t\<close>, in the order of the enumeration.\<close>

datatype leaf_type_t = LT_INT | LT_STRING | LT_IPV4 | LT_FLOAT | LT_IPV6 | LT_BOOLEAN | LT_INVALID | LT_LEAF_MAX

fun leaf_code :: "leaf_type_t \<Rightarrow> nat" where
  "leaf_code LT_INT = 0" | "leaf_code LT_STRING = 1" | "leaf_code LT_IPV4 = 2" | "leaf_code LT_FLOAT = 3"
| "leaf_code LT_IPV6 = 4" | "leaf_code LT_BOOLEAN = 5" | "leaf_code LT_INVALID = 6" | "leaf_code LT_LEAF_MAX = 7"

lemma leaf_code_inj: "leaf_code a = leaf_code b \<Longrightarrow> a = b"
  by (cases a; cases b) auto

instantiation leaf_type_t :: linorder
begin

definition less_eq_leaf_type_t :: "leaf_type_t \<Rightarrow> leaf_type_t \<Rightarrow> bool" where
  "less_eq_leaf_type_t a b = (leaf_code a \<le> leaf_code b)"

definition less_leaf_type_t :: "leaf_type_t \<Rightarrow> leaf_type_t \<Rightarrow> bool" where
  "less_leaf_type_t a b = (leaf_code a < leaf_code b)"

instance
  by standard (auto simp: less_eq_leaf_type_t_def less_leaf_type_t_def dest: leaf_code_inj)

end

definition leaf_type_of_code :: "nat \<Rightarrow> leaf_type_t option" where
  "leaf_type_of_code n =
     (if n < 8 then Some ([LT_INT, LT_STRING, LT_IPV4, LT_FLOAT, LT_IPV6, LT_BOOLEAN, LT_INVALID, LT_LEAF_MAX] ! n)
      else None)"

lemma leaf_type_of_code [simp]: "leaf_type_of_code (leaf_code t) = Some t"
  by (cases t) (simp_all add: leaf_type_of_code_def)

fun get_str_leaf_type :: "leaf_type_t \<Rightarrow> string" where
  "get_str_leaf_type LT_INT = ''INT''"
| "get_str_leaf_type LT_STRING = ''STRING''"
| "get_str_leaf_type LT_IPV4 = ''IPV4''"
| "get_str_leaf_type LT_FLOAT = ''FLOAT''"
| "get_str_leaf_type LT_IPV6 = ''IPV6''"
| "get_str_leaf_type LT_BOOLEAN = ''BOOLEAN''"
| "get_str_leaf_type LT_LEAF_MAX = ''LEAF_MAX''"
| "get_str_leaf_type LT_INVALID = ''Unknown''"

section \<open>Bytes of characters\<close>

definition byte_of_char :: "char \<Rightarrow> byte" where
  "byte_of_char c = of_nat (of_char c)"

definition char_of_byte :: "byte \<Rightarrow> char" where
  "char_of_byte b = char_of (unat b)"

lemma char_of_byte_of_char [simp]: "char_of_byte (byte_of_char c) = c"
  by (simp add: char_of_byte_def byte_of_char_def unat_of_nat_byte del: unat_of_nat)

section \<open>The structure\<close>

definition LEAF_ID_SIZE :: nat where "LEAF_ID_SIZE = 32"
definition TLV_SIZE :: nat where "TLV_SIZE = 100"

record tlv_struct =
  tlv_leaf_type :: leaf_type_t
  tlv_leaf_id :: string
  tlv_value :: string

text \<open>\<^verbatim>\<open>memset(&tlv, 0, sizeof(tlv_struct_t))\<close>\<close>

definition tlv_zero :: tlv_struct where
  "tlv_zero = \<lparr>tlv_leaf_type = LT_INT, tlv_leaf_id = replicate LEAF_ID_SIZE nul,
     tlv_value = replicate LEAF_VALUE_HOLDER_SIZE nul\<rparr>"

definition tlv_bytes :: "tlv_struct \<Rightarrow> byte list" where
  "tlv_bytes t = le_bytes 4 (leaf_code (tlv_leaf_type t)) @ map byte_of_char (tlv_leaf_id t) @
     map byte_of_char (tlv_value t)"

definition tlv_of_bytes :: "byte list \<Rightarrow> tlv_struct" where
  "tlv_of_bytes bs =
     \<lparr>tlv_leaf_type = (case leaf_type_of_code (of_le_bytes (take 4 bs)) of None \<Rightarrow> LT_INVALID | Some t \<Rightarrow> t),
      tlv_leaf_id = map char_of_byte (take LEAF_ID_SIZE (drop 4 bs)),
      tlv_value = map char_of_byte (take LEAF_VALUE_HOLDER_SIZE (drop (4 + LEAF_ID_SIZE) bs))\<rparr>"

text \<open>\<open>leaf_type\<close> and \<open>leaf_id\<close> of the leaf, and the value, go into the structure.\<close>

definition prepare_tlv_from_leaf :: "leaf_type_t \<Rightarrow> string \<Rightarrow> tlv_struct \<Rightarrow> tlv_struct res" where
  "prepare_tlv_from_leaf ty leaf_id t =
     rbind (c_strncpy (tlv_leaf_id t) leaf_id (min LEAF_ID_SIZE (length (cstr leaf_id)))) (\<lambda>b.
       Inr (t\<lparr>tlv_leaf_type := ty, tlv_leaf_id := b\<rparr>))"

definition put_value_in_tlv :: "tlv_struct \<Rightarrow> string \<Rightarrow> tlv_struct res" where
  "put_value_in_tlv t val =
     rbind (c_strncpy (tlv_value t) val (min LEAF_VALUE_HOLDER_SIZE (length (cstr val)))) (\<lambda>b.
       Inr (t\<lparr>tlv_value := b\<rparr>))"

definition collect_tlv :: "(nat \<Rightarrow> byte) \<Rightarrow> ser_buff option \<Rightarrow> tlv_struct \<Rightarrow> ser_buff res option" where
  "collect_tlv junk bo t = serialize_string junk bo (tlv_bytes t) (int TLV_SIZE)"

section \<open>Reading the buffer\<close>

definition tlv_at :: "byte list \<Rightarrow> nat \<Rightarrow> tlv_struct res" where
  "tlv_at blk i =
     (if (i + 1) * TLV_SIZE \<le> length blk then Inr (tlv_of_bytes (take TLV_SIZE (drop (i * TLV_SIZE) blk)))
      else Inl OutOfBounds)"

definition tlv_units :: "ser_buff \<Rightarrow> nat" where
  "tlv_units b = nat (get_serialize_buffer_size b) div TLV_SIZE"

fun tlv_loop_from :: "byte list \<Rightarrow> nat \<Rightarrow> nat \<Rightarrow> tlv_struct list res" where
  "tlv_loop_from blk i 0 = Inr []"
| "tlv_loop_from blk i (Suc n) =
     rbind (tlv_at blk i) (\<lambda>t. rbind (tlv_loop_from blk (Suc i) n) (\<lambda>ts. Inr (t # ts)))"

text \<open>
  \<^verbatim>\<open>TLV_LOOP_BEGIN\<close>: the structures the loop visits, all but the last; with none in the
  buffer the unsigned \<^verbatim>\<open>k-1\<close> wraps around.
\<close>

definition TLV_LOOP :: "ser_buff option \<Rightarrow> tlv_struct list res" where
  "TLV_LOOP bo =
     (case bo of
        None \<Rightarrow> Inl AssertFail
      | Some b \<Rightarrow>
          if tlv_units b = 0 then Inl OutOfBounds else tlv_loop_from (sb_b b) 0 (tlv_units b - 1))"

text \<open>\<^verbatim>\<open>atoi\<close> on a string that starts with the number.\<close>

definition atoi :: "string \<Rightarrow> int res" where
  "atoi s =
     (case dropWhile isspace s of
        [] \<Rightarrow> Inr 0
      | c # cs \<Rightarrow>
          if c = CHR ''-'' then i32 (- atoi_digits (takeWhile is_digit cs))
          else if c = CHR ''+'' then i32 (atoi_digits (takeWhile is_digit cs))
          else i32 (atoi_digits (takeWhile is_digit (c # cs))))"

definition EXTRACT_CMD_CODE :: "ser_buff \<Rightarrow> int res" where
  "EXTRACT_CMD_CODE b =
     (if tlv_units b = 0 then Inl OutOfBounds
      else rbind (tlv_at (sb_b b) (tlv_units b - 1)) (\<lambda>t. atoi (cstr (tlv_value t))))"

definition parser_match_leaf_id :: "string \<Rightarrow> string \<Rightarrow> bool" where
  "parser_match_leaf_id lid leaf_id_manual =
     (if length lid \<noteq> length leaf_id_manual then False
      else take (length lid) lid = take (length lid) leaf_id_manual)"

definition swap_tlv_units :: "byte list \<Rightarrow> nat \<Rightarrow> nat \<Rightarrow> byte list res" where
  "swap_tlv_units blk i j =
     rbind (tlv_at blk i) (\<lambda>_. rbind (tlv_at blk j) (\<lambda>_.
       let bi = take TLV_SIZE (drop (i * TLV_SIZE) blk); bj = take TLV_SIZE (drop (j * TLV_SIZE) blk) in
       Inr (blit (blit blk (i * TLV_SIZE) bj) (j * TLV_SIZE) bi)))"

text \<open>The line \<^verbatim>\<open>"%d"\<close> prints.\<close>

fun dec_digits :: "nat \<Rightarrow> string" where
  "dec_digits n = (if n < 10 then [char_of (48 + n)] else dec_digits (n div 10) @ [char_of (48 + n mod 10)])"

declare dec_digits.simps [simp del]

definition print_d :: "int \<Rightarrow> string" where
  "print_d n = (if n < 0 then CHR ''-'' # dec_digits (nat (- n)) else dec_digits (nat n))"

section \<open>The show extension\<close>

datatype show_ext = brief | detail | extensive | no_extension

definition strn_prefix :: "string \<Rightarrow> string \<Rightarrow> bool" where
  "strn_prefix s p = prefix p s"

text \<open>
  The structure before the command code (or the only one) decides; an extension with an unknown
  value fails an assertion.
\<close>

definition get_show_extension_type :: "ser_buff option \<Rightarrow> show_ext res" where
  "get_show_extension_type bo =
     (case bo of
        None \<Rightarrow> Inl AssertFail
      | Some b \<Rightarrow>
          if tlv_units b = 0 then Inr no_extension
          else
            rbind (tlv_at (sb_b b) (if tlv_units b = 1 then 0 else tlv_units b - 2)) (\<lambda>t.
              if \<not> strn_prefix (cstr (tlv_leaf_id t)) ''SHOW_EXTENSIONS'' then Inr no_extension
              else if strn_prefix (cstr (tlv_value t)) ''SHOW_BRIEF'' then Inr brief
              else if strn_prefix (cstr (tlv_value t)) ''SHOW_DETAIL'' then Inr detail
              else if strn_prefix (cstr (tlv_value t)) ''SHOW_EXTENSIVE'' then Inr extensive
              else Inl AssertFail))"

section \<open>What the structures carry\<close>

definition tlv_ok :: "tlv_struct \<Rightarrow> bool" where
  "tlv_ok t \<longleftrightarrow> length (tlv_leaf_id t) = 32 \<and> length (tlv_value t) = 64"

lemma tlv_zero_ok [simp]: "tlv_ok tlv_zero"
  by (simp add: tlv_ok_def tlv_zero_def LEAF_ID_SIZE_def LEAF_VALUE_HOLDER_SIZE_def)

lemma length_tlv_bytes: "tlv_ok t \<Longrightarrow> length (tlv_bytes t) = 100"
  by (simp add: tlv_ok_def tlv_bytes_def)

lemma tlv_of_tlv_bytes: "tlv_ok t \<Longrightarrow> tlv_of_bytes (tlv_bytes t) = t"
proof -
  assume t: "tlv_ok t"
  have "leaf_code (tlv_leaf_type t) < 256 ^ 4" by (cases "tlv_leaf_type t") auto
  then have "of_le_bytes (le_bytes 4 (leaf_code (tlv_leaf_type t))) = leaf_code (tlv_leaf_type t)"
    by (rule of_le_bytes_le_bytes)
  with t show "tlv_of_bytes (tlv_bytes t) = t"
    by (simp add: tlv_of_bytes_def tlv_bytes_def tlv_ok_def LEAF_ID_SIZE_def LEAF_VALUE_HOLDER_SIZE_def comp_def)
qed

text \<open>A block that starts with the bytes of structures.\<close>

lemma tlv_at_concat:
  assumes "\<forall>t \<in> set ts. tlv_ok t" "i < length ts" "blk = concat (map tlv_bytes ts) @ r"
  shows "tlv_at blk i = Inr (ts ! i)"
  using assms
proof (induction ts arbitrary: i blk)
  case (Cons t ts)
  have lt: "length (tlv_bytes t) = 100" using Cons.prems(1) by (simp add: length_tlv_bytes)
  show ?case
  proof (cases i)
    case 0
    with Cons.prems lt show ?thesis by (simp add: tlv_at_def TLV_SIZE_def tlv_of_tlv_bytes)
  next
    case (Suc k)
    have "tlv_at (concat (map tlv_bytes ts) @ r) k = Inr (ts ! k)"
      using Cons.prems Suc by (intro Cons.IH) auto
    with Suc Cons.prems(3) lt show ?thesis by (simp add: tlv_at_def TLV_SIZE_def split: if_splits)
  qed
qed simp

definition sb_tlvs :: "ser_buff \<Rightarrow> tlv_struct list \<Rightarrow> bool" where
  "sb_tlvs b ts \<longleftrightarrow> sb_ok b \<and> 0 < sb_size b \<and> (\<forall>t \<in> set ts. tlv_ok t) \<and>
     sb_bytes b = concat (map tlv_bytes ts)"

lemma length_concat_tlvs: "\<forall>t \<in> set ts. tlv_ok t \<Longrightarrow> length (concat (map tlv_bytes ts)) = 100 * length ts"
  by (induction ts) (auto simp: length_tlv_bytes)

lemma sb_tlvs_next: "sb_tlvs b ts \<Longrightarrow> sb_next b = int (100 * length ts)"
proof -
  assume b: "sb_tlvs b ts"
  then have "length (sb_bytes b) = nat (sb_next b)" unfolding sb_tlvs_def by (blast intro: length_sb_bytes)
  with b show ?thesis using length_concat_tlvs [of ts] by (auto simp: sb_tlvs_def sb_ok_def)
qed

lemma sb_tlvs_units: "sb_tlvs b ts \<Longrightarrow> tlv_units b = length ts"
  using sb_tlvs_next [of b ts] by (simp add: tlv_units_def get_serialize_buffer_size_def TLV_SIZE_def nat_mult_distrib)

lemma sb_tlvs_block: "sb_tlvs b ts \<Longrightarrow> \<exists>r. sb_b b = concat (map tlv_bytes ts) @ r"
  unfolding sb_tlvs_def sb_bytes_def by (metis append_take_drop_id)

lemma sb_tlvs_at: "sb_tlvs b ts \<Longrightarrow> i < length ts \<Longrightarrow> tlv_at (sb_b b) i = Inr (ts ! i)"
  using sb_tlvs_block [of b ts] by (auto simp: sb_tlvs_def intro: tlv_at_concat)

text \<open>Collecting a structure appends it.\<close>

lemma collect_tlv_appends:
  assumes "sb_tlvs b ts" "tlv_ok t" "length ts < 10000000"
  shows "\<exists>b'. collect_tlv junk (Some b) t = Some (Inr b') \<and> sb_tlvs b' (ts @ [t]) \<and>
    sb_checkpoint b' = sb_checkpoint b"
proof -
  have "sb_next b + int (length (tlv_bytes t)) \<le> 1073741824"
    using sb_tlvs_next [OF assms(1)] assms(2,3) by (simp add: length_tlv_bytes)
  from serialize_string_appends [OF _ _ this, of junk] assms show ?thesis
    by (auto simp: sb_tlvs_def collect_tlv_def length_tlv_bytes TLV_SIZE_def)
qed

lemma tlv_loop_from_take:
  "(\<And>i. i < length ts \<Longrightarrow> tlv_at blk i = Inr (ts ! i)) \<Longrightarrow> k + n \<le> length ts \<Longrightarrow>
   tlv_loop_from blk k n = Inr (take n (drop k ts))"
  by (induction n arbitrary: k) (auto simp: take_Suc_conv_app_nth Cons_nth_drop_Suc [symmetric])

text \<open>A handler's loop sees the leaves in order, and the code of the command behind them.\<close>

lemma TLV_LOOP_leaves:
  assumes "sb_tlvs b (ts @ [code])"
  shows "TLV_LOOP (Some b) = Inr ts" "EXTRACT_CMD_CODE b = atoi (cstr (tlv_value code))"
  using sb_tlvs_units [OF assms] sb_tlvs_at [OF assms] tlv_loop_from_take [of "ts @ [code]" "sb_b b" 0 "length ts"]
  by (simp_all add: TLV_LOOP_def EXTRACT_CMD_CODE_def)

section \<open>Printing and reading the command code\<close>

text \<open>Collecting one leaf after the other.\<close>

fun collect_all :: "(nat \<Rightarrow> byte) \<Rightarrow> ser_buff \<Rightarrow> tlv_struct list \<Rightarrow> ser_buff res option" where
  "collect_all junk b [] = Some (Inr b)"
| "collect_all junk b (t # ts) =
     (case collect_tlv junk (Some b) t of
        Some (Inr b) \<Rightarrow> collect_all junk b ts
      | r \<Rightarrow> r)"

lemma collect_all_appends:
  "sb_tlvs b ts \<Longrightarrow> \<forall>t \<in> set us. tlv_ok t \<Longrightarrow> length ts + length us \<le> 10000000 \<Longrightarrow>
   \<exists>b'. collect_all junk b us = Some (Inr b') \<and> sb_tlvs b' (ts @ us)"
proof (induction us arbitrary: b ts)
  case (Cons u us)
  then obtain b1 where "collect_tlv junk (Some b) u = Some (Inr b1)" "sb_tlvs b1 (ts @ [u])"
    using collect_tlv_appends [of b ts u junk] by auto
  with Cons.IH [of b1 "ts @ [u]"] Cons.prems show ?case by auto
qed auto

lemma init_sb_tlvs: "0 < n \<Longrightarrow> i32_ok n \<Longrightarrow> sb_tlvs (init_serialized_buffer_of_defined_size n) []"
  using init_sized_sb_ok [of n] by (simp add: sb_tlvs_def sb_bytes_def init_serialized_buffer_of_defined_size_def)

lemma of_char_digit: "(d :: nat) < 10 \<Longrightarrow> (of_char (char_of (48 + d) :: char) :: nat) = 48 + d"
  by simp

lemma digit_cases: "(d :: nat) < 10 \<Longrightarrow> is_digit (char_of (48 + d))"
proof -
  assume "d < 10"
  then have "d \<in> {0, 1, 2, 3, 4, 5, 6, 7, 8, 9}" by auto
  then show "is_digit (char_of (48 + d))" by (elim insertE emptyE) (simp_all add: is_digit_def char_of_def bit_iff_odd)
qed

lemma dec_digits_all: "list_all is_digit (dec_digits n) \<and> dec_digits n \<noteq> []"
  by (induction n rule: dec_digits.induct) (subst (1 2) dec_digits.simps, auto simp: digit_cases)

lemma atoi_digits_snoc: "atoi_digits (s @ [c]) = atoi_digits s * 10 + int (of_char c) - 48"
  by (simp add: atoi_digits_def)

lemma atoi_dec_digits: "atoi_digits (dec_digits n) = int n"
proof (induction n rule: dec_digits.induct)
  case (1 n)
  show ?case
  proof (cases "n < 10")
    case True
    then show ?thesis by (subst dec_digits.simps) (simp add: atoi_digits_def of_char_digit)
  next
    case False
    have "int (n div 10) * 10 + int (n mod 10) = int n" by (simp add: zdiv_int zmod_int)
    with False 1 show ?thesis by (subst dec_digits.simps) (simp add: atoi_digits_snoc)
  qed
qed

lemma digit_not_space: "is_digit c \<Longrightarrow> \<not> isspace c \<and> c \<noteq> CHR ''-'' \<and> c \<noteq> CHR ''+'' \<and> c \<noteq> nul"
  by (auto simp: is_digit_def isspace_def nul_def)

lemma dec_digits_length: "n < 10 ^ Suc k \<Longrightarrow> length (dec_digits n) \<le> Suc k"
proof (induction k arbitrary: n)
  case 0
  then show ?case by (subst dec_digits.simps) simp
next
  case (Suc k)
  then have "n div 10 < 10 ^ Suc k" by (simp add: less_mult_imp_div_less)
  from Suc.IH [OF this] show ?case by (subst dec_digits.simps) simp
qed

lemma takeWhile_digits: "list_all is_digit s \<Longrightarrow> takeWhile is_digit s = s"
  by (simp add: list_all_iff takeWhile_eq_all_conv)

theorem atoi_print_d:
  assumes "i32_ok n"
  shows "atoi (print_d n) = Inr n"
proof -
  obtain c cs where d: "dec_digits (nat \<bar>n\<bar>) = c # cs"
    using dec_digits_all [of "nat \<bar>n\<bar>"] by (cases "dec_digits (nat \<bar>n\<bar>)") auto
  have c: "is_digit c" "takeWhile is_digit (c # cs) = c # cs"
    using dec_digits_all [of "nat \<bar>n\<bar>"] d takeWhile_digits by auto
  have v: "atoi_digits (c # cs) = \<bar>n\<bar>" using atoi_dec_digits [of "nat \<bar>n\<bar>"] d by simp
  show ?thesis
  proof (cases "n < 0")
    case True
    then have "print_d n = CHR ''-'' # c # cs" using d by (simp add: print_d_def)
    then show ?thesis
      using True v assms by (simp only: atoi_def) (simp add: isspace_def i32_def c(2) del: takeWhile.simps)
  next
    case False
    then have "print_d n = c # cs" using d by (simp add: print_d_def)
    then show ?thesis
      using False c v assms digit_not_space [OF c(1)]
      by (simp only: atoi_def) (simp add: i32_def c(2) del: takeWhile.simps)
  qed
qed

end
