(* ===== verification/CmdHier.thy ===== *)
theory CmdHier
  imports CmdTlv
begin

text \<open>
  The command tree of the command line (\<^verbatim>\<open>cmd_hier.c\<close>, \<^verbatim>\<open>cmd_hier.h\<close>): parameters
  on a heap with their options and parent, the registration functions, the cursor into the tree,
  the prompt, and the rebuilding of the serialized buffer from the leaves of a branch.

  The static parameters of the source are fixed addresses. A parameter's command or leaf is a
  union in the source; reading the leaf of a command is out of bounds, except where the bytes
  read are those of the (zero padded) name.
\<close>

section \<open>Parameters\<close>

type_synonym pptr = nat

text \<open>The callbacks that the library registers, and those of the application.\<close>

datatype cmd_callback =
    mode_enter_callback | display_sub_options_callback | display_cmd_expansion_callback
  | show_help_handler | show_history_callback | show_resgistered_cmd_handler | ut_test_handler
  | show_cmd_tree | config_mode_enter_handler | load_file_handler | supportsave_handler
  | cli_terminate_handler | repeat_last_command | config_console_name_handler
  | clear_screen_handler | exit_cmd_handler | end_cmd_handler | show_extension_param_handler
  | negate_callback | app_callback nat

datatype user_validation = enable_disable_validation_handler | app_validation nat

record leaf_t =
  lf_type :: leaf_type_t
  lf_value :: string
  lf_user_validation :: "user_validation option"
  lf_id :: string

datatype cmd_union = CmdP string | LeafP leaf_t | NoCmdP string

record param_t =
  p_kind :: cmd_union
  p_callback :: "cmd_callback option"
  p_ishidden :: bool
  p_help :: string
  p_options :: "pptr option list"
  p_parent :: "pptr option"
  p_disp_callback :: "nat option"
  p_CMDCODE :: int

type_synonym param_heap = "pptr \<rightharpoonup> param_t"

definition MAX_OPTION_SIZE :: nat where "MAX_OPTION_SIZE = 16"
definition MODE_PARAM_INDEX :: nat where "MODE_PARAM_INDEX = 0"
definition SUBOPTIONS_INDEX :: nat where "SUBOPTIONS_INDEX = 1"
definition CMD_EXPANSION_INDEX :: nat where "CMD_EXPANSION_INDEX = 2"
definition CHILDREN_START_INDEX :: nat where "CHILDREN_START_INDEX = 3"
definition CHILDREN_END_INDEX :: nat where "CHILDREN_END_INDEX = 15"
definition POSSIBILITY_ARRAY_SIZE :: nat where "POSSIBILITY_ARRAY_SIZE = 10"

lemmas option_sizes = MAX_OPTION_SIZE_def MODE_PARAM_INDEX_def SUBOPTIONS_INDEX_def
  CMD_EXPANSION_INDEX_def CHILDREN_START_INDEX_def CHILDREN_END_INDEX_def POSSIBILITY_ARRAY_SIZE_def

text \<open>The static parameters.\<close>

definition libcli_get_root :: pptr where "libcli_get_root = 0"
definition libcli_get_do_hook :: pptr where "libcli_get_do_hook = 1"
definition libcli_get_show_hook :: pptr where "libcli_get_show_hook = 2"
definition libcli_get_debug_hook :: pptr where "libcli_get_debug_hook = 3"
definition libcli_get_debug_show_hook :: pptr where "libcli_get_debug_show_hook = 4"
definition libcli_get_config_hook :: pptr where "libcli_get_config_hook = 5"
definition libcli_get_clear_hook :: pptr where "libcli_get_clear_hook = 6"
definition libcli_get_run_hook :: pptr where "libcli_get_run_hook = 7"
definition libcli_get_repeat_hook :: pptr where "libcli_get_repeat_hook = 8"
definition libcli_get_show_brief_extension_param :: pptr where
  "libcli_get_show_brief_extension_param = 9"
definition libcli_get_mode_param :: pptr where "libcli_get_mode_param = 10"
definition libcli_get_suboptions_param :: pptr where "libcli_get_suboptions_param = 11"
definition libcli_get_cmd_expansion_param :: pptr where "libcli_get_cmd_expansion_param = 12"

lemmas hook_defs = libcli_get_root_def libcli_get_do_hook_def libcli_get_show_hook_def
  libcli_get_debug_hook_def libcli_get_debug_show_hook_def libcli_get_config_hook_def
  libcli_get_clear_hook_def libcli_get_run_hook_def libcli_get_repeat_hook_def
  libcli_get_show_brief_extension_param_def libcli_get_mode_param_def
  libcli_get_suboptions_param_def libcli_get_cmd_expansion_param_def

definition pget :: "param_heap \<Rightarrow> pptr \<Rightarrow> param_t res" where
  "pget h p = (case h p of None \<Rightarrow> Inl UseAfterFree | Some c \<Rightarrow> Inr c)"

fun IS_PARAM_CMD :: "param_t \<Rightarrow> bool" where
  "IS_PARAM_CMD c = (case p_kind c of CmdP _ \<Rightarrow> True | _ \<Rightarrow> False)"

fun IS_PARAM_LEAF :: "param_t \<Rightarrow> bool" where
  "IS_PARAM_LEAF c = (case p_kind c of LeafP _ \<Rightarrow> True | _ \<Rightarrow> False)"

fun IS_PARAM_NO_CMD :: "param_t \<Rightarrow> bool" where
  "IS_PARAM_NO_CMD c = (case p_kind c of NoCmdP _ \<Rightarrow> True | _ \<Rightarrow> False)"

definition GET_CMD_NAME :: "param_t \<Rightarrow> string res" where
  "GET_CMD_NAME c = (case p_kind c of CmdP n \<Rightarrow> Inr n | NoCmdP n \<Rightarrow> Inr n | LeafP _ \<Rightarrow> Inl OutOfBounds)"

text \<open>
  The value holder lies four bytes into the leaf: of a command, these are the bytes of its name
  from the fifth on, and clearing it writes behind the command.
\<close>

definition GET_LEAF_VALUE :: "param_t \<Rightarrow> string res" where
  "GET_LEAF_VALUE c =
     (case p_kind c of LeafP l \<Rightarrow> Inr (lf_value l) | CmdP n \<Rightarrow> Inr (drop 4 n @ [nul])
      | NoCmdP n \<Rightarrow> Inr (drop 4 n @ [nul]))"

definition clear_leaf_value :: "param_t \<Rightarrow> param_t res" where
  "clear_leaf_value c =
     (case p_kind c of
        LeafP l \<Rightarrow> Inr (c\<lparr>p_kind := LeafP (l\<lparr>lf_value := replicate LEAF_VALUE_HOLDER_SIZE nul\<rparr>)\<rparr>)
      | _ \<Rightarrow> Inl OutOfBounds)"

section \<open>Building the tree\<close>

datatype param_type = CMD | LEAF | NO_CMD

text \<open>
  \<^verbatim>\<open>init_param\<close> on the parameter at \<open>p\<close>. Names and identifiers are cut to leave room
  for their NUL; a \<^verbatim>\<open>NULL\<close> name of a command, or identifier of a leaf, is dereferenced.
\<close>

definition init_param ::
  "pptr \<Rightarrow> param_type \<Rightarrow> string option \<Rightarrow> cmd_callback option \<Rightarrow> user_validation option \<Rightarrow>
   leaf_type_t \<Rightarrow> string option \<Rightarrow> string \<Rightarrow> param_heap \<Rightarrow> param_heap res" where
  "init_param p param_type cmd_name callback user_validation_cb_fn leaf_type leaf_id help h =
     rbind
       (case param_type of
          CMD \<Rightarrow> (case cmd_name of None \<Rightarrow> Inl NullDeref | Some n \<Rightarrow> Inr (CmdP (take 31 n)))
        | LEAF \<Rightarrow>
            (case leaf_id of None \<Rightarrow> Inl NullDeref
             | Some i \<Rightarrow> Inr (LeafP \<lparr>lf_type = leaf_type, lf_value = replicate LEAF_VALUE_HOLDER_SIZE nul,
                               lf_user_validation = user_validation_cb_fn, lf_id = take 31 i\<rparr>))
        | NO_CMD \<Rightarrow> Inr (NoCmdP ''no''))
       (\<lambda>k. Inr (h(p \<mapsto> \<lparr>p_kind = k, p_callback = callback, p_ishidden = False, p_help = take 63 help,
              p_options = replicate MAX_OPTION_SIZE None, p_parent = None, p_disp_callback = None,
              p_CMDCODE = -1\<rparr>)))"

definition set_param_cmd_code :: "pptr \<Rightarrow> int \<Rightarrow> param_heap \<Rightarrow> param_heap res" where
  "set_param_cmd_code p code h =
     rbind (pget h p) (\<lambda>c.
       if p_callback c = None then Inl AssertFail else Inr (h(p \<mapsto> c\<lparr>p_CMDCODE := code\<rparr>)))"

definition HIDE_PARAM :: "pptr \<Rightarrow> param_heap \<Rightarrow> param_heap res" where
  "HIDE_PARAM p h = rbind (pget h p) (\<lambda>c. Inr (h(p \<mapsto> c\<lparr>p_ishidden := True\<rparr>)))"

definition libcli_register_display_callback :: "pptr \<Rightarrow> nat \<Rightarrow> param_heap \<Rightarrow> param_heap res" where
  "libcli_register_display_callback p disp h =
     rbind (pget h p) (\<lambda>c.
       if IS_PARAM_NO_CMD c then Inl AssertFail else Inr (h(p \<mapsto> c\<lparr>p_disp_callback := Some disp\<rparr>)))"

definition fill_option :: "nat \<Rightarrow> pptr \<Rightarrow> pptr option list \<Rightarrow> pptr option list" where
  "fill_option i p os = (if os ! i = None then os[i := Some p] else os)"

text \<open>The first free slot from \<open>i\<close> on, \<open>n\<close> slots to look at.\<close>

fun free_slot :: "pptr option list \<Rightarrow> nat \<Rightarrow> nat \<Rightarrow> nat option" where
  "free_slot os i 0 = None"
| "free_slot os i (Suc n) = (if os ! i = None then Some i else free_slot os (Suc i) n)"

definition child_slot :: "pptr option list \<Rightarrow> nat option" where
  "child_slot os = free_slot os CHILDREN_START_INDEX (Suc CHILDREN_END_INDEX - CHILDREN_START_INDEX)"

definition libcli_register_param :: "pptr option \<Rightarrow> pptr \<Rightarrow> param_heap \<Rightarrow> param_heap res" where
  "libcli_register_param parent child h =
     (let parent = (case parent of None \<Rightarrow> libcli_get_root | Some p \<Rightarrow> p) in
      rbind (pget h parent) (\<lambda>pc.
        let os = fill_option CMD_EXPANSION_INDEX libcli_get_cmd_expansion_param
                   (fill_option SUBOPTIONS_INDEX libcli_get_suboptions_param
                     (fill_option MODE_PARAM_INDEX libcli_get_mode_param (p_options pc)))
        in case child_slot os of
             None \<Rightarrow> Inl AssertFail
           | Some i \<Rightarrow>
               let h = h(parent \<mapsto> pc\<lparr>p_options := os[i := Some child]\<rparr>) in
               rbind (pget h child) (\<lambda>cc. Inr (h(child \<mapsto> cc\<lparr>p_parent := Some parent\<rparr>)))))"

definition enable_show_extension_param_brief :: "pptr \<Rightarrow> param_heap \<Rightarrow> param_heap res" where
  "enable_show_extension_param_brief p h =
     rbind (pget h p) (\<lambda>c.
       if p_callback c = None then Inl AssertFail
       else libcli_register_param (Some p) libcli_get_show_brief_extension_param h)"

section \<open>Looking up a command\<close>

text \<open>Whether the string is a prefix of the command's name, and whether it is the whole name.\<close>

definition is_cmd_string_match :: "string \<Rightarrow> string \<Rightarrow> bool \<times> bool" where
  "is_cmd_string_match cmd_name str =
     (let rc = (take (length str) cmd_name = str) in (rc, rc \<and> length str = length cmd_name))"

text \<open>
  The loop over the options: the index of the last leaf and the matches found; it stops at the
  first empty slot, at the end, and at an exact match.
\<close>

fun match_loop ::
  "param_heap \<Rightarrow> pptr option list \<Rightarrow> string \<Rightarrow> pptr option \<Rightarrow> pptr list \<Rightarrow> (pptr option \<times> pptr list) res" where
  "match_loop h [] name lf poss = Inr (lf, poss)"
| "match_loop h (None # os) name lf poss = Inr (lf, poss)"
| "match_loop h (Some p # os) name lf poss =
     rbind (pget h p) (\<lambda>c.
       if IS_PARAM_LEAF c then match_loop h os name (Some p) poss
       else rbind (GET_CMD_NAME c) (\<lambda>n.
         case is_cmd_string_match n name of
           (m, ex) \<Rightarrow>
             if \<not> m then match_loop h os name lf poss
             else if ex then Inr (lf, [p])
             else if length poss + 1 < POSSIBILITY_ARRAY_SIZE then match_loop h os name lf (poss @ [p])
             else Inl AssertFail))"

text \<open>\<open>choice\<close> is the number the user types when several commands match.\<close>

definition find_matching_param :: "param_heap \<Rightarrow> int \<Rightarrow> pptr option list \<Rightarrow> string \<Rightarrow> pptr option res" where
  "find_matching_param h choice options name =
     rbind (match_loop h options name None []) (\<lambda>(lf, poss).
       case poss of
         [] \<Rightarrow> Inr lf
       | [p] \<Rightarrow> Inr (Some p)
       | _ \<Rightarrow> if choice < 0 \<or> choice > int (length poss) - 1 then Inr None
              else Inr (Some (poss ! nat choice)))"

section \<open>Branches\<close>

partial_function (option) branch_loop :: "param_heap \<Rightarrow> pptr \<Rightarrow> pptr res option" where [code]:
  "branch_loop h p =
     (case pget h p of
        Inl e \<Rightarrow> Some (Inl e)
      | Inr c \<Rightarrow>
          (case p_parent c of
             None \<Rightarrow> Some (Inl NullDeref)
           | Some q \<Rightarrow> if q = libcli_get_root then Some (Inr p) else branch_loop h q))"

definition get_current_branch_hook :: "param_heap \<Rightarrow> pptr option \<Rightarrow> pptr res option" where
  "get_current_branch_hook h po =
     (case po of
        None \<Rightarrow> Some (Inl AssertFail)
      | Some p \<Rightarrow> if p = libcli_get_root then Some (Inl AssertFail) else branch_loop h p)"

text \<open>
  The negation command of a branch of the configuration: it gets the children that the command
  has at that time. \<open>new\<close> is the address of the parameter it allocates.
\<close>

fun copy_children :: "pptr option list \<Rightarrow> pptr option list \<Rightarrow> nat \<Rightarrow> nat \<Rightarrow> pptr option list \<times> nat" where
  "copy_children src dst i 0 = (dst, i)"
| "copy_children src dst i (Suc n) =
     (if src ! i \<noteq> None then copy_children src (dst[i := src ! i]) (Suc i) n else (dst, i))"

definition support_cmd_negation :: "pptr \<Rightarrow> int \<Rightarrow> pptr \<Rightarrow> param_heap \<Rightarrow> param_heap res option" where
  "support_cmd_negation new choice p h =
     (case get_current_branch_hook h (Some p) of
        None \<Rightarrow> None
      | Some (Inl e) \<Rightarrow> Some (Inl e)
      | Some (Inr b) \<Rightarrow>
          if b \<noteq> libcli_get_config_hook then Some (Inl AssertFail)
          else Some (
            rbind (pget h p) (\<lambda>c.
            rbind (find_matching_param h choice (p_options c) ''no'') (\<lambda>neg.
            rbind (case neg of None \<Rightarrow> Inr False | Some q \<Rightarrow> rbind (pget h q) (\<lambda>qc. Inr (IS_PARAM_NO_CMD qc)))
              (\<lambda>dup.
              if dup then Inr h
              else
                rbind (init_param new NO_CMD (Some ''no'') (Some negate_callback) None LT_INVALID None
                         ''Command Negation'' h) (\<lambda>h.
                rbind (pget h new) (\<lambda>nc.
                  case copy_children (p_options c)
                         ((p_options nc)[MODE_PARAM_INDEX := Some libcli_get_suboptions_param,
                                         SUBOPTIONS_INDEX := Some libcli_get_suboptions_param,
                                         CMD_EXPANSION_INDEX := Some libcli_get_cmd_expansion_param])
                         CHILDREN_START_INDEX (Suc CHILDREN_END_INDEX - CHILDREN_START_INDEX) of
                    (os, i) \<Rightarrow>
                      if i > CHILDREN_END_INDEX then Inl AssertFail
                      else Inr (h(new \<mapsto> nc\<lparr>p_options := os, p_parent := Some p\<rparr>,
                                  p \<mapsto> c\<lparr>p_options := (p_options c)[i := Some new]\<rparr>)))))))))"

section \<open>The cursor and the prompt\<close>

text \<open>The global state of the command line.\<close>

record cli =
  cl_params :: param_heap
  cl_cursor :: "pptr option"
  cl_tlv_buff :: ser_buff
  cl_tokens :: token_array
  cl_console :: string

definition TERMINAL_NAME_SIZE :: nat where "TERMINAL_NAME_SIZE = 2048"

definition reset_cmd_tree_cursor :: "cli \<Rightarrow> cli" where
  "reset_cmd_tree_cursor s =
     s\<lparr>cl_cursor := Some libcli_get_root, cl_tlv_buff := reset_serialize_buffer (cl_tlv_buff s)\<rparr>"

definition set_cmd_tree_cursor :: "pptr option \<Rightarrow> cli \<Rightarrow> cli res" where
  "set_cmd_tree_cursor p s = (case p of None \<Rightarrow> Inl AssertFail | Some _ \<Rightarrow> Inr (s\<lparr>cl_cursor := p\<rparr>))"

definition get_cmd_tree_cursor :: "cli \<Rightarrow> pptr option" where
  "get_cmd_tree_cursor s = cl_cursor s"

definition is_user_in_cmd_mode :: "cli \<Rightarrow> bool" where
  "is_user_in_cmd_mode s = (get_cmd_tree_cursor s \<noteq> Some libcli_get_root)"

definition c_sprintf :: "string \<Rightarrow> string \<Rightarrow> string res" where
  "c_sprintf blk s = memcpy blk 0 (s @ [nul]) 0 (length s + 1)"

definition c_strcat :: "string \<Rightarrow> string \<Rightarrow> string res" where
  "c_strcat blk s = rbind (c_strlen blk) (\<lambda>n. memcpy blk n (s @ [nul]) 0 (length s + 1))"

text \<open>
  The first token of the prompt, what stands before its \<open>>\<close>. The tokenizer gives no array for
  an empty prompt.
\<close>

definition prompt_tokens :: "cli \<Rightarrow> (cli \<times> bool \<times> nat) res" where
  "prompt_tokens s =
     rbind (tokenizer (cl_console s) CHR ''>'' (cl_tokens s)) (\<lambda>(ts, arr, cnt).
       Inr (s\<lparr>cl_tokens := ts\<rparr>, arr, cnt))"

definition token_str :: "cli \<Rightarrow> bool \<Rightarrow> nat \<Rightarrow> string res" where
  "token_str s arr i =
     (if \<not> arr then Inl NullDeref
      else rbind (get_token i (cl_tokens s)) (\<lambda>b. rbind (c_strlen b) (\<lambda>_. Inr (cstr b))))"

definition reset_prompt :: "cli \<Rightarrow> cli res" where
  "reset_prompt s =
     rbind (prompt_tokens s) (\<lambda>(s, arr, cnt).
     rbind (token_str s arr 0) (\<lambda>t.
     rbind (c_sprintf (cl_console s) (t @ ''>'')) (\<lambda>c. Inr (s\<lparr>cl_console := c\<rparr>))))"

definition set_device_name :: "string option \<Rightarrow> cli \<Rightarrow> cli res" where
  "set_device_name name s =
     (case name of None \<Rightarrow> Inl AssertFail
      | Some n \<Rightarrow>
        rbind (c_strlen (cl_console s)) (\<lambda>len.
        rbind (if len \<noteq> 0 then prompt_tokens s else Inr (s, False, 0)) (\<lambda>(s, arr, cnt).
        rbind (c_sprintf (cl_console s) (n @ ''>'')) (\<lambda>c.
          if cnt > 1 then
            rbind (c_strcat c '' '') (\<lambda>c.
            rbind (get_token 1 (cl_tokens s)) (\<lambda>t.
            rbind (string_space_trim (Some t)) (\<lambda>to.
              case to of None \<Rightarrow> Inl NullDeref
              | Some t \<Rightarrow>
                  rbind (c_strlen t) (\<lambda>_. rbind (c_strcat c (cstr t)) (\<lambda>c.
                    Inr (s\<lparr>cl_console := c, cl_tokens := (cl_tokens s)[1 := t]\<rparr>))))))
          else Inr (s\<lparr>cl_console := c\<rparr>)))))"

text \<open>
  The names from the top of the branch down to \<open>p\<close>, in the array of 16 names of 64
  characters; \<open>room\<close> counts the free ones.
\<close>

partial_function (option) mode_names ::
  "param_heap \<Rightarrow> pptr \<Rightarrow> nat \<Rightarrow> string list \<Rightarrow> string list res option" where [code]:
  "mode_names h p room names =
     (if room = 0 then Some (Inl AssertFail)
      else case pget h p of
        Inl e \<Rightarrow> Some (Inl e)
      | Inr c \<Rightarrow>
          (case (if IS_PARAM_CMD c then GET_CMD_NAME c
                 else rbind (GET_LEAF_VALUE c) (\<lambda>v. rbind (c_strlen v) (\<lambda>_. Inr (cstr v)))) of
             Inl e \<Rightarrow> Some (Inl e)
           | Inr a \<Rightarrow>
               if \<not> length a < LEAF_VALUE_HOLDER_SIZE then Some (Inl OutOfBounds)
               else
                 (case p_parent c of
                    None \<Rightarrow> Some (Inl NullDeref)
                  | Some q \<Rightarrow> if q = libcli_get_root then Some (Inr (a # names))
                              else mode_names h q (room - 1) (a # names))))"

fun join_names :: "string list \<Rightarrow> string \<Rightarrow> string res" where
  "join_names [] c = Inr c"
| "join_names [n] c = c_strcat c n"
| "join_names (n # ns) c = rbind (c_strcat c n) (\<lambda>c. rbind (c_strcat c ''-'') (join_names ns))"

definition build_mode_console_name :: "pptr option \<Rightarrow> cli \<Rightarrow> cli res option" where
  "build_mode_console_name dst s =
     (case dst of
        None \<Rightarrow> Some (Inl AssertFail)
      | Some p \<Rightarrow>
          if p = libcli_get_root then Some (Inl AssertFail)
          else
            (case rbind (prompt_tokens s) (\<lambda>(s, arr, cnt).
                  rbind (token_str s arr 0) (\<lambda>t.
                  rbind (c_sprintf (cl_console s) (t @ ''> '')) (\<lambda>c. Inr (s\<lparr>cl_console := c\<rparr>)))) of
               Inl e \<Rightarrow> Some (Inl e)
             | Inr s \<Rightarrow>
                 (case mode_names (cl_params s) p MAX_CMD_TREE_DEPTH [] of
                    None \<Rightarrow> None
                  | Some (Inl e) \<Rightarrow> Some (Inl e)
                  | Some (Inr ns) \<Rightarrow>
                      Some (rbind (join_names ns (cl_console s)) (\<lambda>c. Inr (s\<lparr>cl_console := c\<rparr>))))))"

text \<open>Leaving the mode: the leaf values of the branch are cleared, up to the root.\<close>

partial_function (option) top_loop :: "pptr \<Rightarrow> param_heap \<Rightarrow> param_heap res option" where [code]:
  "top_loop p h =
     (case pget h p of
        Inl e \<Rightarrow> Some (Inl e)
      | Inr c \<Rightarrow>
          (case (if IS_PARAM_CMD c then Inr h
                 else rbind (clear_leaf_value c) (\<lambda>c. Inr (h(p \<mapsto> c)))) of
             Inl e \<Rightarrow> Some (Inl e)
           | Inr h \<Rightarrow>
               (case p_parent c of
                  None \<Rightarrow> Some (Inl NullDeref)
                | Some q \<Rightarrow> if q = libcli_get_root then Some (Inr h) else top_loop q h)))"

definition goto_top_of_cmd_tree :: "pptr option \<Rightarrow> cli \<Rightarrow> cli res option" where
  "goto_top_of_cmd_tree po s =
     (case po of
        None \<Rightarrow> Some (Inl AssertFail)
      | Some p \<Rightarrow>
          if p = libcli_get_root then Some (Inr s)
          else
            (case top_loop p (cl_params s) of
               None \<Rightarrow> None
             | Some (Inl e) \<Rightarrow> Some (Inl e)
             | Some (Inr h) \<Rightarrow> Some (reset_prompt (reset_cmd_tree_cursor (s\<lparr>cl_params := h\<rparr>)))))"

definition go_one_level_up_cmd_tree :: "(nat \<Rightarrow> byte) \<Rightarrow> pptr option \<Rightarrow> cli \<Rightarrow> cli res option" where
  "go_one_level_up_cmd_tree junk po s =
     (case po of
        None \<Rightarrow> Some (Inl AssertFail)
      | Some p \<Rightarrow>
          if p = libcli_get_root then Some (Inr s)
          else
            (case pget (cl_params s) p of
               Inl e \<Rightarrow> Some (Inl e)
             | Inr c \<Rightarrow>
                 (case (if IS_PARAM_LEAF c
                        then
                          (case serialize_buffer_skip junk (cl_tlv_buff s) (-1 * int TLV_SIZE) of
                             None \<Rightarrow> None
                           | Some r \<Rightarrow> Some (
                               rbind (clear_leaf_value c) (\<lambda>c.
                               rbind r (\<lambda>b. rbind (mark_checkpoint_serialize_buffer (Some b)) (\<lambda>b.
                                 Inr (s\<lparr>cl_params := (cl_params s)(p \<mapsto> c), cl_tlv_buff := b\<rparr>))))))
                        else Some (Inr s)) of
                    None \<Rightarrow> None
                  | Some (Inl e) \<Rightarrow> Some (Inl e)
                  | Some (Inr s) \<Rightarrow>
                      (case set_cmd_tree_cursor (p_parent c) s of
                         Inl e \<Rightarrow> Some (Inl e)
                       | Inr s \<Rightarrow>
                           if get_cmd_tree_cursor s = Some libcli_get_root
                           then Some (rbind (reset_prompt s) (\<lambda>s.
                                  Inr (s\<lparr>cl_tlv_buff := reset_serialize_buffer (cl_tlv_buff s)\<rparr>)))
                           else build_mode_console_name (get_cmd_tree_cursor s) s))))"

section \<open>Rebuilding the leaves of a branch\<close>

definition collect_leaf :: "(nat \<Rightarrow> byte) \<Rightarrow> param_t \<Rightarrow> ser_buff \<Rightarrow> ser_buff res option" where
  "collect_leaf junk c b =
     (case p_kind c of
        LeafP l \<Rightarrow>
          (case rbind (prepare_tlv_from_leaf (lf_type l) (lf_id l) tlv_zero) (\<lambda>t. put_value_in_tlv t (lf_value l)) of
             Inl e \<Rightarrow> Some (Inl e)
           | Inr t \<Rightarrow> collect_tlv junk (Some b) t)
      | _ \<Rightarrow> Some (Inl OutOfBounds))"

partial_function (option) leaves_loop ::
  "(nat \<Rightarrow> byte) \<Rightarrow> param_heap \<Rightarrow> pptr \<Rightarrow> pptr \<Rightarrow> ser_buff \<Rightarrow> ser_buff res option" where [code]:
  "leaves_loop junk h src dst b =
     (if dst = src then Some (Inr b)
      else case pget h dst of
        Inl e \<Rightarrow> Some (Inl e)
      | Inr c \<Rightarrow>
          (case (if IS_PARAM_CMD c then Some (Inr b) else collect_leaf junk c b) of
             None \<Rightarrow> None
           | Some (Inl e) \<Rightarrow> Some (Inl e)
           | Some (Inr b) \<Rightarrow>
               (case p_parent c of
                  None \<Rightarrow> Some (Inl NullDeref)
                | Some q \<Rightarrow> leaves_loop junk h src q b)))"

fun reverse_loop :: "byte list \<Rightarrow> nat \<Rightarrow> nat \<Rightarrow> nat \<Rightarrow> byte list res" where
  "reverse_loop blk i j 0 = Inr blk"
| "reverse_loop blk i j (Suc n) = rbind (swap_tlv_units blk i j) (\<lambda>blk. reverse_loop blk (Suc i) (j - 1) n)"

definition reverse_tlvs :: "ser_buff \<Rightarrow> ser_buff res" where
  "reverse_tlvs b =
     (if get_serialize_buffer_size b < 2 * int TLV_SIZE then Inr b
      else rbind (reverse_loop (sb_b b) 0 (tlv_units b - 1) (tlv_units b div 2)) (\<lambda>blk. Inr (b\<lparr>sb_b := blk\<rparr>)))"

definition build_cmd_tree_leaves_data ::
  "(nat \<Rightarrow> byte) \<Rightarrow> param_heap \<Rightarrow> ser_buff option \<Rightarrow> pptr option \<Rightarrow> pptr option \<Rightarrow> ser_buff res option" where
  "build_cmd_tree_leaves_data junk h bo src_param dst_param =
     (case (bo, src_param, dst_param) of
        (Some b, Some src, Some dst) \<Rightarrow>
          (case leaves_loop junk h src dst (reset_serialize_buffer b) of
             None \<Rightarrow> None
           | Some (Inl e) \<Rightarrow> Some (Inl e)
           | Some (Inr b) \<Rightarrow>
               (case pget h src of
                  Inl e \<Rightarrow> Some (Inl e)
                | Inr c \<Rightarrow>
                    (case (if IS_PARAM_LEAF c then collect_leaf junk c b else Some (Inr b)) of
                       None \<Rightarrow> None
                     | Some (Inl e) \<Rightarrow> Some (Inl e)
                     | Some (Inr b) \<Rightarrow> Some (reverse_tlvs b))))
      | _ \<Rightarrow> Some (Inl AssertFail))"

section \<open>Initialisation\<close>

fun run_steps :: "('s \<Rightarrow> 's res) list \<Rightarrow> 's \<Rightarrow> 's res" where
  "run_steps [] s = Inr s"
| "run_steps (f # fs) s = rbind (f s) (run_steps fs)"

definition init_cmd :: "pptr \<Rightarrow> string \<Rightarrow> cmd_callback option \<Rightarrow> string \<Rightarrow> param_heap \<Rightarrow> param_heap res" where
  "init_cmd p name cb help = init_param p CMD (Some name) cb None LT_INVALID None help"

text \<open>The static parameters inside the function, in the order of their declarations.\<close>

definition the_help :: pptr where "the_help = 13"
definition show_history :: pptr where "show_history = 14"
definition no_of_commands :: pptr where "no_of_commands = 15"
definition show_resgistered :: pptr where "show_resgistered = 16"
definition show_resgistered_cmds :: pptr where "show_resgistered_cmds = 17"
definition debug_ut :: pptr where "debug_ut = 18"
definition debug_ut_enable :: pptr where "debug_ut_enable = 19"
definition debug_show_cmdtree :: pptr where "debug_show_cmdtree = 20"
definition config_load :: pptr where "config_load = 21"
definition load_file_name :: pptr where "load_file_name = 22"
definition supportsave :: pptr where "supportsave = 23"
definition supportsave_enable :: pptr where "supportsave_enable = 24"
definition run_terminate :: pptr where "run_terminate = 25"
definition run_ut :: pptr where "run_ut = 26"
definition ut_file_path :: pptr where "ut_file_path = 27"
definition ut_tc_no :: pptr where "ut_tc_no = 28"
definition config_console :: pptr where "config_console = 29"
definition config_console_name :: pptr where "config_console_name = 30"
definition config_console_name_name :: pptr where "config_console_name_name = 31"
definition cls_cmd :: pptr where "cls_cmd = 32"
definition exit_cmd :: pptr where "exit_cmd = 33"
definition end_cmd :: pptr where "end_cmd = 34"

lemmas static_param_defs = the_help_def show_history_def no_of_commands_def show_resgistered_def
  show_resgistered_cmds_def debug_ut_def debug_ut_enable_def debug_show_cmdtree_def config_load_def
  load_file_name_def supportsave_def supportsave_enable_def run_terminate_def run_ut_def
  ut_file_path_def ut_tc_no_def config_console_def config_console_name_def
  config_console_name_name_def cls_cmd_def exit_cmd_def end_cmd_def

definition fill_do_hook :: "param_heap \<Rightarrow> param_heap res" where
  "fill_do_hook h =
     rbind (pget h libcli_get_do_hook) (\<lambda>c.
       Inr (h(libcli_get_do_hook \<mapsto> c\<lparr>p_options := (p_options c)
         [MODE_PARAM_INDEX := Some libcli_get_suboptions_param,
          SUBOPTIONS_INDEX := Some libcli_get_suboptions_param,
          CMD_EXPANSION_INDEX := Some libcli_get_cmd_expansion_param,
          CHILDREN_START_INDEX := Some libcli_get_show_hook,
          CHILDREN_START_INDEX + 1 := Some libcli_get_debug_hook,
          CHILDREN_START_INDEX + 2 := Some libcli_get_clear_hook]\<rparr>)))"

definition init_show_and_debug :: "(param_heap \<Rightarrow> param_heap res) list" where
  "init_show_and_debug =
    [init_cmd libcli_get_mode_param ''/'' (Some mode_enter_callback) ''ENTER MODE'',
     init_cmd libcli_get_suboptions_param ''?'' (Some display_sub_options_callback) ''Sub-Options'',
     init_cmd libcli_get_cmd_expansion_param ''.'' (Some display_cmd_expansion_callback)
       ''All possible Command expansions'',
     init_cmd libcli_get_show_hook ''show'' None ''show cmds'',
     libcli_register_param (Some libcli_get_root) libcli_get_show_hook,
     init_cmd the_help ''help'' (Some show_help_handler) ''help how to use this CLI'',
     libcli_register_param (Some libcli_get_show_hook) the_help,
     set_param_cmd_code the_help 1,
     init_cmd show_history ''history'' (Some show_history_callback) ''Command history'',
     libcli_register_param (Some libcli_get_show_hook) show_history,
     set_param_cmd_code show_history 2,
     init_param no_of_commands LEAF (Some ''N'') (Some show_history_callback) None LT_INT (Some ''N'')
       ''No Of Commands to fetch'',
     libcli_register_param (Some show_history) no_of_commands,
     set_param_cmd_code no_of_commands 3,
     init_cmd show_resgistered ''registered'' None ''registered'',
     libcli_register_param (Some libcli_get_show_hook) show_resgistered,
     init_cmd show_resgistered_cmds ''commands'' (Some show_resgistered_cmd_handler) ''commands'',
     libcli_register_param (Some show_resgistered) show_resgistered_cmds,
     set_param_cmd_code show_resgistered_cmds 4,
     init_cmd libcli_get_debug_hook ''debug'' None ''debug cmds'',
     libcli_register_param (Some libcli_get_root) libcli_get_debug_hook,
     init_cmd debug_ut ''ut'' None ''debug ut'',
     libcli_register_param (Some libcli_get_debug_hook) debug_ut,
     init_param debug_ut_enable LEAF None (Some ut_test_handler) (Some enable_disable_validation_handler)
       LT_STRING (Some ''ut-enable'') ''enable | disable'',
     libcli_register_param (Some debug_ut) debug_ut_enable,
     set_param_cmd_code debug_ut_enable 10,
     init_cmd libcli_get_debug_show_hook ''show'' None ''debug show commands'',
     libcli_register_param (Some libcli_get_debug_hook) libcli_get_debug_show_hook,
     init_cmd debug_show_cmdtree ''cmdtree'' (Some show_cmd_tree) ''Display command tree'',
     libcli_register_param (Some libcli_get_debug_show_hook) debug_show_cmdtree,
     set_param_cmd_code debug_show_cmdtree 7]"

definition init_config_and_run :: "(param_heap \<Rightarrow> param_heap res) list" where
  "init_config_and_run =
    [init_cmd libcli_get_config_hook ''config'' (Some config_mode_enter_handler) ''config cmds'',
     libcli_register_param (Some libcli_get_root) libcli_get_config_hook,
     init_cmd config_load ''load'' None ''load cmds'',
     libcli_register_param (Some libcli_get_config_hook) config_load,
     init_param load_file_name LEAF None (Some load_file_handler) None LT_STRING (Some ''file-name'')
       ''Name of the file'',
     libcli_register_param (Some config_load) load_file_name,
     set_param_cmd_code load_file_name 8,
     init_cmd supportsave ''supportsave'' None ''Collect Support Save Data'',
     libcli_register_param (Some libcli_get_config_hook) supportsave,
     init_cmd supportsave_enable ''enable'' (Some supportsave_handler)
       ''enable/disable Support Save Data Collection'',
     libcli_register_param (Some supportsave) supportsave_enable,
     set_param_cmd_code supportsave_enable 5,
     init_cmd libcli_get_clear_hook ''clear'' None ''clear cmds'',
     libcli_register_param (Some libcli_get_root) libcli_get_clear_hook,
     init_cmd libcli_get_run_hook ''run'' None ''run cmds'',
     libcli_register_param (Some libcli_get_root) libcli_get_run_hook,
     init_cmd run_terminate ''term'' (Some cli_terminate_handler) ''Terminate appln'',
     libcli_register_param (Some libcli_get_run_hook) run_terminate,
     init_cmd run_ut ''ut'' None ''Unit Test'',
     libcli_register_param (Some libcli_get_run_hook) run_ut,
     init_param ut_file_path LEAF None None None LT_STRING (Some ''ut-file-name'') ''UT file name'',
     libcli_register_param (Some run_ut) ut_file_path,
     init_param ut_tc_no LEAF None (Some ut_test_handler) None LT_INT (Some ''tc-no'') ''Test Case Number'',
     libcli_register_param (Some ut_file_path) ut_tc_no,
     set_param_cmd_code ut_tc_no 9]"

definition init_do_and_console :: "(param_heap \<Rightarrow> param_heap res) list" where
  "init_do_and_console =
    [init_cmd libcli_get_do_hook ''DO_HOOK'' None ''operational commands shortcut'',
     fill_do_hook,
     init_cmd libcli_get_repeat_hook ''repeat'' (Some repeat_last_command) ''repeat'',
     libcli_register_param (Some libcli_get_root) libcli_get_repeat_hook,
     init_cmd config_console ''console'' None ''console'',
     libcli_register_param (Some libcli_get_config_hook) config_console,
     init_cmd config_console_name ''name'' None ''name'',
     libcli_register_param (Some config_console) config_console_name,
     init_param config_console_name_name LEAF None (Some config_console_name_handler) None LT_STRING
       (Some ''cons-name'') ''Name of Console'',
     libcli_register_param (Some config_console_name) config_console_name_name,
     set_param_cmd_code config_console_name_name 6,
     init_cmd cls_cmd ''cls'' (Some clear_screen_handler) ''clear screen'',
     HIDE_PARAM cls_cmd,
     libcli_register_param None cls_cmd,
     init_cmd exit_cmd ''cd..'' (Some exit_cmd_handler) ''Move One Level Up'',
     HIDE_PARAM exit_cmd,
     libcli_register_param None exit_cmd,
     init_cmd end_cmd ''cd'' (Some end_cmd_handler) ''Goto Top level'',
     HIDE_PARAM end_cmd,
     libcli_register_param None end_cmd,
     init_cmd libcli_get_show_brief_extension_param ''brief'' (Some show_extension_param_handler)
       ''brief output'']"

definition init_params :: "param_heap res" where
  "init_params =
     rbind (init_cmd libcli_get_root ''ROOT'' None ''ROOT'' Map.empty)
       (run_steps (init_show_and_debug @ init_config_and_run @ init_do_and_console))"

text \<open>
  Before initialisation the statics are zero: no tokens, an empty prompt. The device name is set
  before the token array exists, which the tokenizer does not need for an empty prompt.
\<close>

definition init_libcli :: "cli res" where
  "init_libcli =
     rbind init_params (\<lambda>h.
     rbind (set_device_name (Some ''TcpServerProject'')
       (reset_cmd_tree_cursor
         \<lparr>cl_params = h, cl_cursor = None, cl_tlv_buff = init_serialized_buffer_of_defined_size 1024,
          cl_tokens = [], cl_console = replicate TERMINAL_NAME_SIZE nul\<rparr>)) (\<lambda>s.
       Inr (s\<lparr>cl_tokens := init_token_array\<rparr>)))"

end
