(* ===== verification/CmdHierProps.thy ===== *)
theory CmdHierProps
  imports CmdHier
begin

text \<open>
  Properties of the command tree: what a lookup returns, that registration makes a command
  reachable, that the branch walk ends at the top of the branch, that rebuilding the buffer gives
  the leaves of the branch from the top down, and what moving up does to buffer and leaves.
\<close>

section \<open>Lookup\<close>

text \<open>The options before the first empty slot.\<close>

definition live_options :: "pptr option list \<Rightarrow> pptr list" where
  "live_options os = map the (takeWhile (\<lambda>x. x \<noteq> None) os)"

lemma live_options_simps [simp]:
  "live_options [] = []" "live_options (None # os) = []" "live_options (Some p # os) = p # live_options os"
  by (simp_all add: live_options_def)

definition is_leaf :: "param_heap \<Rightarrow> pptr \<Rightarrow> bool" where
  "is_leaf h p = (case h p of None \<Rightarrow> False | Some c \<Rightarrow> IS_PARAM_LEAF c)"

definition name_of :: "param_heap \<Rightarrow> pptr \<Rightarrow> string" where
  "name_of h p = (case h p of None \<Rightarrow> [] | Some c \<Rightarrow> (case p_kind c of CmdP n \<Rightarrow> n | NoCmdP n \<Rightarrow> n | LeafP _ \<Rightarrow> []))"

text \<open>The commands a string abbreviates.\<close>

definition candidates :: "param_heap \<Rightarrow> string \<Rightarrow> pptr list \<Rightarrow> pptr list" where
  "candidates h name ps = filter (\<lambda>p. \<not> is_leaf h p \<and> prefix name (name_of h p)) ps"

lemma is_cmd_string_match_prefix:
  "is_cmd_string_match n s = (prefix s n, s = n)"
proof -
  have 1: "take (length s) n = s \<longleftrightarrow> prefix s n"
  proof
    assume "take (length s) n = s"
    then show "prefix s n" using take_is_prefix [of "length s" n] by simp
  next
    assume "prefix s n"
    then show "take (length s) n = s" by (auto elim: prefixE)
  qed
  have 2: "prefix s n \<and> length s = length n \<longleftrightarrow> s = n" by (auto elim: prefixE)
  show ?thesis unfolding is_cmd_string_match_def Let_def 1 2 ..
qed

lemma match_step:
  assumes c: "h p = Some c"
  shows "match_loop h (Some p # os) name lf poss =
    (if is_leaf h p then match_loop h os name (Some p) poss
     else if \<not> prefix name (name_of h p) then match_loop h os name lf poss
     else if name = name_of h p then Inr (lf, [p])
     else if length poss < 9 then match_loop h os name lf (poss @ [p]) else Inl AssertFail)"
proof -
  have p: "pget h p = Inr c" by (simp add: pget_def c)
  have n: "length poss + 1 < POSSIBILITY_ARRAY_SIZE \<longleftrightarrow> length poss < 9" by (simp add: POSSIBILITY_ARRAY_SIZE_def)
  show ?thesis
  proof (cases "p_kind c")
    case (CmdP x)
    then show ?thesis
      unfolding match_loop.simps(3) p rbind.simps n
      by (simp add: is_leaf_def name_of_def c GET_CMD_NAME_def is_cmd_string_match_prefix)
  next
    case (LeafP x)
    then show ?thesis
      unfolding match_loop.simps(3) p rbind.simps n by (simp add: is_leaf_def c)
  next
    case (NoCmdP x)
    then show ?thesis
      unfolding match_loop.simps(3) p rbind.simps n
      by (simp add: is_leaf_def name_of_def c GET_CMD_NAME_def is_cmd_string_match_prefix)
  qed
qed

declare match_loop.simps(3) [simp del]

lemma match_loop_result:
  assumes "set (live_options os) \<subseteq> dom h" "length poss + length (candidates h name (live_options os)) \<le> 9"
    and "\<forall>p \<in> set (live_options os). is_leaf h p \<or> name_of h p \<noteq> name"
  shows "match_loop h os name lf poss =
    Inr (let ls = filter (is_leaf h) (live_options os) in if ls = [] then lf else Some (last ls),
         poss @ candidates h name (live_options os))"
  using assms
proof (induction os arbitrary: lf poss)
  case (Cons o1 os)
  show ?case
  proof (cases o1)
    case (Some p)
    then obtain c where "h p = Some c" using Cons.prems(1) by auto
    with Cons Some show ?thesis
      by (auto simp: match_step candidates_def Let_def split: if_splits)
  qed (simp add: candidates_def)
qed (simp add: candidates_def)

text \<open>An exact name wins over every abbreviation, before it or behind it.\<close>

lemma match_loop_exact:
  assumes "live_options os = as @ p # bs" "set (as @ [p]) \<subseteq> dom h" "\<not> is_leaf h p" "name_of h p = name"
    and "\<forall>q \<in> set as. is_leaf h q \<or> name_of h q \<noteq> name" "length poss + length (candidates h name as) \<le> 9"
  shows "\<exists>lf'. match_loop h os name lf poss = Inr (lf', [p])"
  using assms
proof (induction os arbitrary: as lf poss)
  case (Cons o1 os)
  then obtain q where q: "o1 = Some q" by (cases o1) auto
  show ?case
  proof (cases as)
    case Nil
    with Cons.prems q obtain c where "h p = Some c" "q = p" by auto
    with q Cons.prems show ?thesis by (simp add: match_step)
  next
    case (Cons a as')
    have a: "a = q" and rest1: "live_options os = as' @ p # bs"
      using Cons.prems(1) Cons q by simp_all
    have "q \<in> dom h" and rest2: "set (as' @ [p]) \<subseteq> dom h" using Cons.prems(2) Cons a by simp_all
    then obtain c where c: "h q = Some c" by blast
    have ne: "is_leaf h q \<or> name_of h q \<noteq> name"
      and rest3: "\<forall>q \<in> set as'. is_leaf h q \<or> name_of h q \<noteq> name"
      using Cons.prems(5) Cons a by simp_all
    note IH = Cons.IH [OF rest1 rest2 Cons.prems(3,4) rest3]
    show ?thesis
    proof (cases "\<not> is_leaf h q \<and> prefix name (name_of h q)")
      case True
      then have "length (poss @ [q]) + length (candidates h name as') \<le> 9" "length poss < 9"
        using Cons.prems(6) Cons a by (simp_all add: candidates_def)
      with IH [of "poss @ [q]"] True ne c q show ?thesis by (simp add: match_step)
    next
      case False
      then have "length poss + length (candidates h name as') \<le> 9"
        using Cons.prems(6) Cons a by (simp add: candidates_def split: if_splits)
      with IH [of poss] False c q show ?thesis by (auto simp: match_step)
    qed
  qed
qed simp

lemma find_exact:
  assumes "live_options os = as @ p # bs" "set (as @ [p]) \<subseteq> dom h" "\<not> is_leaf h p" "name_of h p = name"
    and "\<forall>q \<in> set as. is_leaf h q \<or> name_of h q \<noteq> name" "length (candidates h name as) \<le> 9"
  shows "find_matching_param h choice os name = Inr (Some p)"
proof -
  obtain lf' where "match_loop h os name None [] = Inr (lf', [p])"
    using match_loop_exact [OF assms(1-5), of "[]" None] assms(6) by auto
  then show ?thesis by (simp add: find_matching_param_def)
qed

lemma find_abbreviation:
  assumes "set (live_options os) \<subseteq> dom h" "length (candidates h name (live_options os)) \<le> 9"
    and "\<forall>p \<in> set (live_options os). is_leaf h p \<or> name_of h p \<noteq> name"
  shows "find_matching_param h choice os name =
    Inr (case candidates h name (live_options os) of
           [] \<Rightarrow> (let ls = filter (is_leaf h) (live_options os) in if ls = [] then None else Some (last ls))
         | [p] \<Rightarrow> Some p
         | ps \<Rightarrow> if choice < 0 \<or> int (length ps) \<le> choice then None else Some (ps ! nat choice))"
  using match_loop_result [OF assms(1) _ assms(3), of "[]" None] assms(2)
  by (auto simp: find_matching_param_def Let_def split: list.splits)

section \<open>Registration\<close>

text \<open>The options of a parent are filled from the front: the capabilities, then the children.\<close>

definition options_ok :: "pptr option list \<Rightarrow> bool" where
  "options_ok os \<longleftrightarrow> length os = 16 \<and>
     (os = replicate 16 None \<or> (\<exists>n \<ge> 3. n \<le> 16 \<and> (\<forall>i < 16. os ! i = None \<longleftrightarrow> n \<le> i)))"

lemma free_slot_first:
  "(\<And>k. i \<le> k \<Longrightarrow> k < m \<Longrightarrow> os ! k \<noteq> None) \<Longrightarrow> os ! m = None \<Longrightarrow> i \<le> m \<Longrightarrow> m < i + n \<Longrightarrow>
   free_slot os i n = Some m"
proof (induction n arbitrary: i)
  case (Suc n)
  show ?case
  proof (cases "i = m")
    case False
    with Suc.prems have "os ! i \<noteq> None" "free_slot os (Suc i) n = Some m" by (auto intro!: Suc.IH)
    then show ?thesis by auto
  qed (use Suc.prems in simp)
qed simp

lemma free_slot_full: "(\<And>k. i \<le> k \<Longrightarrow> k < i + n \<Longrightarrow> os ! k \<noteq> None) \<Longrightarrow> free_slot os i n = None"
  by (induction n arbitrary: i) auto

section \<open>Branches\<close>

text \<open>\<open>branch h p ps\<close>: from \<open>p\<close> up through its parents \<open>ps\<close> to a child of the root.\<close>

fun branch :: "param_heap \<Rightarrow> pptr \<Rightarrow> pptr list \<Rightarrow> bool" where
  "branch h p [] = False"
| "branch h p [x] = (x = p \<and> p \<noteq> libcli_get_root \<and>
     (\<exists>c. h p = Some c \<and> p_parent c = Some libcli_get_root))"
| "branch h p (x # y # r) = (x = p \<and> p \<noteq> libcli_get_root \<and>
     (\<exists>c. h p = Some c \<and> p_parent c = Some y) \<and> branch h y (y # r))"

lemma branch_root: "branch h p ps \<Longrightarrow> p \<noteq> libcli_get_root"
  by (induction h p ps rule: branch.induct) auto

lemma branch_loop_top: "branch h p ps \<Longrightarrow> branch_loop h p = Some (Inr (last ps))"
proof (induction h p ps rule: branch.induct)
  case (2 h p x)
  then show ?case by (subst branch_loop.simps) (auto simp: pget_def)
next
  case (3 h p x y r)
  then have "y \<noteq> libcli_get_root" using branch_root by auto
  with 3 show ?case by (subst branch_loop.simps) (auto simp: pget_def)
qed simp

lemma current_branch_hook_top:
  "branch h p ps \<Longrightarrow> get_current_branch_hook h (Some p) = Some (Inr (last ps))"
  by (simp add: get_current_branch_hook_def branch_loop_top branch_root)

section \<open>Reversing the structures\<close>

lemma concat_split:
  "i < length ts \<Longrightarrow> concat (map f ts) = concat (map f (take i ts)) @ f (ts ! i) @ concat (map f (drop (Suc i) ts))"
  by (metis concat.simps(2) concat_append id_take_nth_drop list.simps(9) map_append)

lemma length_concat_take:
  assumes "\<forall>t \<in> set ts. tlv_ok t" "i < length ts"
  shows "length (concat (map tlv_bytes (take i ts))) = i * 100"
proof -
  have "\<forall>t \<in> set (take i ts). tlv_ok t" using assms(1) by (meson in_set_takeD)
  from length_concat_tlvs [OF this] show ?thesis using assms(2) by simp
qed

lemma tlv_chunk:
  assumes "\<forall>t \<in> set ts. tlv_ok t" "i < length ts"
  shows "take 100 (drop (i * 100) (concat (map tlv_bytes ts) @ r)) = tlv_bytes (ts ! i)"
proof -
  have "length (concat (map tlv_bytes (take i ts))) = i * 100"
    using assms by (simp add: length_concat_take)
  moreover have "length (tlv_bytes (ts ! i)) = 100" using assms by (simp add: length_tlv_bytes)
  ultimately show ?thesis by (simp add: concat_split [OF assms(2)])
qed

lemma blit_chunk:
  assumes "\<forall>t \<in> set ts. tlv_ok t" "i < length ts" "tlv_ok u"
  shows "blit (concat (map tlv_bytes ts) @ r) (i * 100) (tlv_bytes u) = concat (map tlv_bytes (ts[i := u])) @ r"
proof -
  have "length (concat (map tlv_bytes (take i ts))) = i * 100"
    using assms by (simp add: length_concat_take)
  moreover have "length (tlv_bytes (ts ! i)) = 100" "length (tlv_bytes u) = 100"
    using assms by (simp_all add: length_tlv_bytes)
  ultimately show ?thesis
    using assms(2) by (simp add: concat_split [OF assms(2)] blit_def upd_conv_take_nth_drop)
qed

lemma swap_units_list:
  assumes "\<forall>t \<in> set ts. tlv_ok t" "i < length ts" "j < length ts"
  shows "swap_tlv_units (concat (map tlv_bytes ts) @ r) i j =
    Inr (concat (map tlv_bytes (ts[i := ts ! j, j := ts ! i])) @ r)"
proof -
  have "\<forall>t \<in> set (ts[i := ts ! j]). tlv_ok t"
    using assms set_update_subset_insert [of ts i "ts ! j"] by auto
  moreover have "tlv_ok (ts ! i)" "tlv_ok (ts ! j)" using assms by simp_all
  ultimately show ?thesis
    using assms tlv_at_concat [OF assms(1,2) refl, of r] tlv_at_concat [OF assms(1,3) refl, of r]
    by (simp only: swap_tlv_units_def TLV_SIZE_def tlv_chunk blit_chunk Let_def rbind.simps length_list_update)
qed

lemma reverse_loop_list:
  assumes "\<forall>t \<in> set (as @ xs @ bs). tlv_ok t"
  shows "reverse_loop (concat (map tlv_bytes (as @ xs @ bs)) @ r) (length as) (length as + length xs - 1)
      (length xs div 2) = Inr (concat (map tlv_bytes (as @ rev xs @ bs)) @ r)"
  using assms
proof (induction "length xs div 2" arbitrary: as xs bs)
  case 0
  then have "xs = [] \<or> (\<exists>x. xs = [x])" by (cases xs; cases "tl xs") auto
  then show ?case by auto
next
  case (Suc n)
  then obtain x xs1 where "xs = x # xs1" "xs1 \<noteq> []" by (cases xs; cases "tl xs") auto
  then obtain m y where xs: "xs = x # m @ [y]" by (cases xs1 rule: rev_cases) auto
  let ?ts = "as @ xs @ bs" and ?j = "length as + length m + 1"
  have n: "length m div 2 = n" using Suc.hyps(2) xs by simp
  have "?ts ! length as = x" "?ts ! ?j = y" by (simp_all add: xs nth_append)
  moreover have "?ts[length as := y, ?j := x] = (as @ [y]) @ m @ x # bs"
    by (simp add: xs list_update_append)
  ultimately have "swap_tlv_units (concat (map tlv_bytes ?ts) @ r) (length as) ?j =
      Inr (concat (map tlv_bytes ((as @ [y]) @ m @ x # bs)) @ r)"
    using swap_units_list [OF Suc.prems, of "length as" ?j r] by (simp add: xs)
  moreover have "reverse_loop (concat (map tlv_bytes ((as @ [y]) @ m @ x # bs)) @ r) (length (as @ [y]))
      (length (as @ [y]) + length m - 1) (length m div 2) =
      Inr (concat (map tlv_bytes ((as @ [y]) @ rev m @ x # bs)) @ r)"
    using Suc.prems n xs by (intro Suc.hyps(1)) auto
  ultimately show ?case using n by (simp add: xs)
qed

lemma reverse_tlvs_rev:
  assumes "sb_tlvs b ts"
  shows "\<exists>b'. reverse_tlvs b = Inr b' \<and> sb_tlvs b' (rev ts) \<and> sb_next b' = sb_next b \<and>
    sb_checkpoint b' = sb_checkpoint b"
proof (cases "length ts < 2")
  case True
  then have "rev ts = ts" by (cases ts; cases "tl ts") auto
  with True assms sb_tlvs_next [OF assms] show ?thesis
    by (simp add: reverse_tlvs_def get_serialize_buffer_size_def TLV_SIZE_def)
next
  case False
  obtain r where r: "sb_b b = concat (map tlv_bytes ts) @ r" using sb_tlvs_block [OF assms] by blast
  have ok: "\<forall>t \<in> set ts. tlv_ok t" using assms by (simp add: sb_tlvs_def)
  let ?blk = "concat (map tlv_bytes (rev ts)) @ r"
  have len: "length (concat (map tlv_bytes (rev ts))) = length (concat (map tlv_bytes ts))"
    using ok by (simp add: length_concat_tlvs)
  have "reverse_tlvs b = Inr (b\<lparr>sb_b := ?blk\<rparr>)"
    using False sb_tlvs_next [OF assms] sb_tlvs_units [OF assms] reverse_loop_list [of "[]" ts "[]" r] ok r
    by (simp add: reverse_tlvs_def get_serialize_buffer_size_def TLV_SIZE_def)
  moreover have "sb_tlvs (b\<lparr>sb_b := ?blk\<rparr>) (rev ts)"
    using assms len r sb_tlvs_next [OF assms] length_concat_tlvs [of "rev ts"] ok
    by (auto simp: sb_tlvs_def sb_ok_def sb_bytes_def)
  ultimately show ?thesis by simp
qed

section \<open>The leaves of a branch\<close>

definition leaf_tlv :: "leaf_t \<Rightarrow> tlv_struct" where
  "leaf_tlv l =
     \<lparr>tlv_leaf_type = lf_type l, tlv_leaf_id = cstr (lf_id l) @ replicate (32 - length (cstr (lf_id l))) nul,
      tlv_value = cstr (lf_value l) @ replicate (64 - length (cstr (lf_value l))) nul\<rparr>"

definition leaf_ok :: "leaf_t \<Rightarrow> bool" where
  "leaf_ok l \<longleftrightarrow> length (cstr (lf_id l)) \<le> 32 \<and> length (cstr (lf_value l)) \<le> 64"

text \<open>The structures of the leaves among some parameters.\<close>

fun leaf_tlvs :: "param_heap \<Rightarrow> pptr list \<Rightarrow> tlv_struct list" where
  "leaf_tlvs h [] = []"
| "leaf_tlvs h (p # ps) =
     (case h p of
        None \<Rightarrow> leaf_tlvs h ps
      | Some c \<Rightarrow> (case p_kind c of LeafP l \<Rightarrow> leaf_tlv l # leaf_tlvs h ps | _ \<Rightarrow> leaf_tlvs h ps))"

lemma leaf_tlvs_append [simp]: "leaf_tlvs h (ps @ qs) = leaf_tlvs h ps @ leaf_tlvs h qs"
  by (induction ps) (auto split: option.splits cmd_union.splits)

lemma leaf_tlvs_rev: "leaf_tlvs h (rev ps) = rev (leaf_tlvs h ps)"
  by (induction ps) (auto split: option.splits cmd_union.splits)

lemma length_leaf_tlvs: "length (leaf_tlvs h ps) \<le> length ps"
  by (induction ps) (auto split: option.splits cmd_union.splits)

text \<open>A branch of commands and leaves, without the negation command.\<close>

definition plain :: "param_heap \<Rightarrow> pptr list \<Rightarrow> bool" where
  "plain h ps \<longleftrightarrow> (\<forall>p \<in> set ps. \<forall>c. h p = Some c \<longrightarrow>
     (case p_kind c of CmdP _ \<Rightarrow> True | LeafP l \<Rightarrow> leaf_ok l | NoCmdP _ \<Rightarrow> False))"

lemma strncpy_zero:
  "length (cstr s) \<le> k \<Longrightarrow> c_strncpy (replicate k nul) s (length (cstr s)) =
   Inr (cstr s @ replicate (k - length (cstr s)) nul)"
  by (simp add: c_strncpy_def memcpy_def blit_def Let_def)

lemma leaf_tlv_ok: "leaf_ok l \<Longrightarrow> tlv_ok (leaf_tlv l)"
  by (simp add: leaf_ok_def tlv_ok_def leaf_tlv_def)

lemma collect_leaf_appends:
  assumes "p_kind c = LeafP l" "leaf_ok l" "sb_tlvs b ts" "length ts < 10000000"
  shows "\<exists>b'. collect_leaf junk c b = Some (Inr b') \<and> sb_tlvs b' (ts @ [leaf_tlv l]) \<and>
    sb_checkpoint b' = sb_checkpoint b"
proof -
  have "rbind (prepare_tlv_from_leaf (lf_type l) (lf_id l) tlv_zero) (\<lambda>t. put_value_in_tlv t (lf_value l)) =
      Inr (leaf_tlv l)"
    using assms(2)
    by (simp add: prepare_tlv_from_leaf_def put_value_in_tlv_def tlv_zero_def leaf_ok_def leaf_tlv_def
        strncpy_zero LEAF_ID_SIZE_def LEAF_VALUE_HOLDER_SIZE_def min_absorb2)
  then have "collect_leaf junk c b = collect_tlv junk (Some b) (leaf_tlv l)"
    by (simp only: collect_leaf_def assms(1) cmd_union.case sum.case)
  with collect_tlv_appends [OF assms(3) leaf_tlv_ok [OF assms(2)] assms(4), of junk] show ?thesis by simp
qed

lemma leaves_loop_collects:
  "branch h p ps \<Longrightarrow> plain h ps \<Longrightarrow> sb_tlvs b ts \<Longrightarrow> length ts + length ps < 10000000 \<Longrightarrow>
   \<exists>b'. leaves_loop junk h libcli_get_root p b = Some (Inr b') \<and> sb_tlvs b' (ts @ leaf_tlvs h ps) \<and>
     sb_checkpoint b' = sb_checkpoint b"
proof (induction h p ps arbitrary: b ts rule: branch.induct)
  case (1 h p)
  then show ?case by simp
next
  case (2 h p x)
  then obtain c where c: "h p = Some c" "p_parent c = Some libcli_get_root" "x = p" "p \<noteq> libcli_get_root"
    by auto
  have root: "leaves_loop junk h libcli_get_root libcli_get_root b = Some (Inr b)" for b
    by (subst leaves_loop.simps) simp
  show ?case
  proof (cases "p_kind c")
    case (CmdP n)
    with c 2 root show ?thesis by (subst leaves_loop.simps) (simp add: pget_def)
  next
    case (LeafP l)
    then have "leaf_ok l" using 2(2) c by (auto simp: plain_def)
    from collect_leaf_appends [OF LeafP this "2.prems"(3), of junk] 2(4) obtain b'
      where "collect_leaf junk c b = Some (Inr b')" "sb_tlvs b' (ts @ [leaf_tlv l])"
        "sb_checkpoint b' = sb_checkpoint b" by auto
    with LeafP c root show ?thesis by (subst leaves_loop.simps) (simp add: pget_def)
  next
    case (NoCmdP n)
    with 2(2) c show ?thesis by (auto simp: plain_def)
  qed
next
  case (3 h p x y r)
  then obtain c where c: "h p = Some c" "p_parent c = Some y" "x = p" "p \<noteq> libcli_get_root"
    and br: "branch h y (y # r)" by auto
  have pl: "plain h (y # r)" using 3(3) by (auto simp: plain_def)
  show ?case
  proof (cases "p_kind c")
    case (CmdP n)
    with c "3.IH" [OF br pl "3.prems"(3)] 3(5) show ?thesis
      by (subst leaves_loop.simps) (simp add: pget_def)
  next
    case (LeafP l)
    then have "leaf_ok l" using 3(3) c by (auto simp: plain_def)
    from collect_leaf_appends [OF LeafP this "3.prems"(3), of junk] 3(5) obtain b'
      where b': "collect_leaf junk c b = Some (Inr b')" "sb_tlvs b' (ts @ [leaf_tlv l])"
        "sb_checkpoint b' = sb_checkpoint b" by auto
    with LeafP c "3.IH" [OF br pl b'(2)] 3(5) show ?thesis
      by (subst leaves_loop.simps) (simp add: pget_def)
  next
    case (NoCmdP n)
    with 3(3) c show ?thesis by (auto simp: plain_def)
  qed
qed

definition root_ok :: "param_heap \<Rightarrow> bool" where
  "root_ok h \<longleftrightarrow> (\<exists>c n. h libcli_get_root = Some c \<and> p_kind c = CmdP n)"

lemma build_leaves_data:
  assumes "branch h p ps" "plain h ps" "root_ok h" "sb_ok b" "0 < sb_size b" "length ps < 10000000"
  shows "\<exists>b'. build_cmd_tree_leaves_data junk h (Some b) (Some libcli_get_root) (Some p) = Some (Inr b') \<and>
    sb_tlvs b' (leaf_tlvs h (rev ps))"
proof -
  have "sb_tlvs (reset_serialize_buffer b) []"
    using assms(4,5) by (auto simp: sb_tlvs_def reset_serialize_buffer_def sb_ok_def sb_bytes_def)
  from leaves_loop_collects [OF assms(1,2) this, of junk] assms(6) obtain b1 where b1:
    "leaves_loop junk h libcli_get_root p (reset_serialize_buffer b) = Some (Inr b1)"
    "sb_tlvs b1 (leaf_tlvs h ps)" by auto
  obtain c n where "h libcli_get_root = Some c" "p_kind c = CmdP n" using assms(3) by (auto simp: root_ok_def)
  then show ?thesis
    using b1 reverse_tlvs_rev [OF b1(2)]
    by (auto simp: build_cmd_tree_leaves_data_def pget_def leaf_tlvs_rev)
qed

section \<open>Moving up\<close>

text \<open>Leaving a leaf takes its structure off the buffer.\<close>

lemma skip_back_one:
  assumes "sb_tlvs b (ts @ [t])"
  shows "\<exists>b'. serialize_buffer_skip junk b (-1 * int TLV_SIZE) = Some (Inr b') \<and> sb_tlvs b' ts"
proof -
  have nx: "sb_next b = int (100 * length ts) + 100" using sb_tlvs_next [OF assms] by simp
  have ok: "sb_ok b" using assms by (simp add: sb_tlvs_def)
  let ?b = "b\<lparr>sb_next := int (100 * length ts)\<rparr>"
  have len: "length (concat (map tlv_bytes ts)) = 100 * length ts"
    using assms length_concat_tlvs [of ts] by (simp add: sb_tlvs_def)
  have "i32_ok (int (100 * length ts))" using ok nx by (auto simp: sb_ok_def i32_ok_def)
  then have "serialize_buffer_skip junk b (-1 * int TLV_SIZE) = Some (Inr ?b)"
    using nx ok by (auto simp: serialize_buffer_skip_def TLV_SIZE_def short_int_def i32_def sb_ok_def)
  moreover have "sb_bytes ?b = concat (map tlv_bytes ts)"
  proof -
    have "sb_bytes ?b = take (100 * length ts) (sb_bytes b)"
      using nx by (simp add: sb_bytes_def nat_add_distrib nat_mult_distrib min_def)
    also have "\<dots> = concat (map tlv_bytes ts)"
      using assms len by (simp add: sb_tlvs_def)
    finally show ?thesis .
  qed
  moreover have "sb_ok ?b" using ok nx by (auto simp: sb_ok_def)
  ultimately show ?thesis using assms by (auto simp: sb_tlvs_def)
qed

text \<open>Going to the top clears the values of all leaves on the way.\<close>

definition cleared :: "param_t \<Rightarrow> param_t" where
  "cleared c = (case p_kind c of
     LeafP l \<Rightarrow> c\<lparr>p_kind := LeafP (l\<lparr>lf_value := replicate LEAF_VALUE_HOLDER_SIZE nul\<rparr>)\<rparr> | _ \<Rightarrow> c)"

lemma cleared_parent [simp]: "p_parent (cleared c) = p_parent c"
  by (simp add: cleared_def split: cmd_union.split)

lemma top_loop_clears:
  "branch h p ps \<Longrightarrow> plain h ps \<Longrightarrow> distinct ps \<Longrightarrow>
   top_loop p h = Some (Inr (\<lambda>q. if q \<in> set ps then map_option cleared (h q) else h q))"
proof (induction ps arbitrary: h p)
  case Nil
  then show ?case by simp
next
  case (Cons x ps)
  obtain c where c: "h p = Some c" "x = p" "p_parent c = Some (if ps = [] then libcli_get_root else hd ps)"
    using Cons.prems(1) by (cases ps) auto
  let ?h = "h(p \<mapsto> cleared c)"
  have step: "(if IS_PARAM_CMD c then Inr h else rbind (clear_leaf_value c) (\<lambda>c. Inr (h(p \<mapsto> c)))) = Inr ?h"
    using Cons.prems(2) c by (auto simp: plain_def clear_leaf_value_def cleared_def fun_upd_idem split: cmd_union.splits)
  show ?case
  proof (cases ps)
    case Nil
    with c step show ?thesis
      by (subst top_loop.simps) (auto simp: pget_def fun_eq_iff)
  next
    case (Cons y ys)
    have br: "branch h y ps" using Cons.prems(1) Cons by auto
    have "branch ?h y ps"
    proof -
      have "branch g q qs \<Longrightarrow> p \<notin> set qs \<Longrightarrow> branch (g(p \<mapsto> c')) q qs" for g q qs c'
        by (induction g q qs rule: branch.induct) auto
      with br Cons.prems(3) c(2) show ?thesis by simp
    qed
    moreover have "plain ?h ps" using Cons.prems(2,3) c(2) by (auto simp: plain_def)
    moreover have "distinct ps" using Cons.prems(3) by simp
    ultimately have "top_loop y ?h = Some (Inr (\<lambda>q. if q \<in> set ps then map_option cleared (?h q) else ?h q))"
      by (rule Cons.IH)
    moreover have "y \<noteq> libcli_get_root" using br branch_root by blast
    moreover have "(\<lambda>q. if q \<in> set ps then map_option cleared (?h q) else ?h q) =
        (\<lambda>q. if q \<in> set (x # ps) then map_option cleared (h q) else h q)"
      using Cons.prems(3) c by (auto simp: fun_eq_iff)
    ultimately show ?thesis
      using c step Cons by (subst top_loop.simps) (simp add: pget_def)
  qed
qed

text \<open>Resetting the prompt leaves its first token, the device name.\<close>

lemma reset_prompt_name:
  assumes "holds (cl_console s) str" "length str < 2048" "length (cl_console s) = 2048"
    and "tokens_ok (cl_tokens s)" "strtok_all CHR ''>'' (trim str) = name # ws" "length ws < 16"
    and "\<forall>w \<in> set (name # ws). length w < 64"
  shows "\<exists>s'. reset_prompt s = Inr s' \<and> holds (cl_console s') (name @ ''>'') \<and>
    tokens_ok (cl_tokens s') \<and> length (cl_console s') = 2048 \<and> cl_params s' = cl_params s \<and>
    cl_cursor s' = cl_cursor s \<and> cl_tlv_buff s' = cl_tlv_buff s"
proof -
  obtain ts where ts: "tokenizer (cl_console s) CHR ''>'' (cl_tokens s) = Inr (ts, True, Suc (length ws))"
      "tokens_ok ts" "holds (ts ! 0) name"
    using tokenizer_words [OF assms(1,2,4), of "CHR ''>''"] assms(5-7) by auto
  have t: "token_str (s\<lparr>cl_tokens := ts\<rparr>) True 0 = Inr name"
    using ts(2,3) strlen_holds [OF ts(3)] by (simp add: token_str_def get_token_def tokens_ok_def holds_def)
  have n: "nul \<notin> set (name @ ''>'')" "length name < 64"
    using ts(3) assms(7) by (simp_all add: holds_iff nul_def)
  then have c: "c_sprintf (cl_console s) (name @ ''>'') = Inr (blit (cl_console s) 0 (name @ ''>'' @ [nul]))"
    using assms(3) by (simp add: c_sprintf_def memcpy_ok)
  have "holds (blit (cl_console s) 0 (name @ ''>'' @ [nul])) (name @ ''>'')"
    using n(1) by (auto simp: holds_iff blit_def)
  moreover have "length (blit (cl_console s) 0 (name @ ''>'' @ [nul])) = 2048"
    using n(2) assms(3) by (simp add: length_blit)
  ultimately show ?thesis using ts(1,2) t c by (simp add: reset_prompt_def prompt_tokens_def)
qed

text \<open>Leaving a mode: the branch's leaf values, the cursor, the collected leaves and the prompt are reset.\<close>

lemma goto_top_resets:
  assumes "branch (cl_params s) p ps" "plain (cl_params s) ps" "distinct ps"
    and "holds (cl_console s) str" "length str < 2048" "length (cl_console s) = 2048"
    and "tokens_ok (cl_tokens s)" "strtok_all CHR ''>'' (trim str) = name # ws" "length ws < 16"
    and "\<forall>w \<in> set (name # ws). length w < 64"
  shows "\<exists>s'. goto_top_of_cmd_tree (Some p) s = Some (Inr s') \<and> cl_cursor s' = Some libcli_get_root \<and>
    cl_params s' = (\<lambda>q. if q \<in> set ps then map_option cleared (cl_params s q) else cl_params s q) \<and>
    holds (cl_console s') (name @ ''>'') \<and> is_serialized_buffer_empty (cl_tlv_buff s')"
proof -
  let ?s = "reset_cmd_tree_cursor (s\<lparr>cl_params := \<lambda>q. if q \<in> set ps then map_option cleared (cl_params s q)
    else cl_params s q\<rparr>)"
  have "p \<noteq> libcli_get_root" using assms(1) by (rule branch_root)
  then have "goto_top_of_cmd_tree (Some p) s = Some (reset_prompt ?s)"
    using top_loop_clears [OF assms(1-3)] by (simp add: goto_top_of_cmd_tree_def)
  moreover have "cl_console ?s = cl_console s" "cl_tokens ?s = cl_tokens s" "cl_cursor ?s = Some libcli_get_root"
      "is_serialized_buffer_empty (cl_tlv_buff ?s)"
    by (simp_all add: reset_cmd_tree_cursor_def reset_serialize_buffer_def is_serialized_buffer_empty_def)
  moreover have "cl_params ?s = (\<lambda>q. if q \<in> set ps then map_option cleared (cl_params s q) else cl_params s q)"
    by (simp add: reset_cmd_tree_cursor_def)
  ultimately show ?thesis using reset_prompt_name [of ?s str name ws] assms(4-10) by auto
qed

text \<open>The mode character at the root prompt asks for the branch of the root.\<close>

theorem branch_hook_or_assert:
  assumes "branch h p ps"
  shows "get_current_branch_hook h (Some p) = Some (Inr (last ps)) \<and>
    get_current_branch_hook h (Some libcli_get_root) = Some (Inl AssertFail)"
  using current_branch_hook_top [OF assms] by (simp add: get_current_branch_hook_def)

end
