(* ===== verification/GlThread.thy ===== *)
theory GlThread
  imports Prelude
begin

text \<open>
  The intrusive doubly linked list of the command parser (\<^verbatim>\<open>gluethread/glthread.c\<close>,
  \<^verbatim>\<open>glthread.h\<close>) on an explicit heap of nodes: every operation is the sequence of
  pointer reads and writes the source makes. \<open>gl_list\<close> says that a heap holds a given list
  behind a head node; the operations are shown to be the list operations under it.

  The iteration macro is a partial function: \<open>None\<close> is a loop that never ends, as on a
  cyclic list.
\<close>

section \<open>Nodes and the heap\<close>

type_synonym glptr = nat

record glnode =
  left_ptr :: "glptr option"
  right_ptr :: "glptr option"

type_synonym gl_heap = "glptr \<rightharpoonup> glnode"

definition gl_get :: "gl_heap \<Rightarrow> glptr \<Rightarrow> glnode res" where
  "gl_get h p = (case h p of None \<Rightarrow> Inl UseAfterFree | Some n \<Rightarrow> Inr n)"

definition set_left :: "glptr \<Rightarrow> glptr option \<Rightarrow> gl_heap \<Rightarrow> gl_heap res" where
  "set_left p v h = rbind (gl_get h p) (\<lambda>n. Inr (h(p \<mapsto> n\<lparr>left_ptr := v\<rparr>)))"

definition set_right :: "glptr \<Rightarrow> glptr option \<Rightarrow> gl_heap \<Rightarrow> gl_heap res" where
  "set_right p v h = rbind (gl_get h p) (\<lambda>n. Inr (h(p \<mapsto> n\<lparr>right_ptr := v\<rparr>)))"

text \<open>Reading through a pointer that may be \<^verbatim>\<open>NULL\<close>.\<close>

definition via :: "glptr option \<Rightarrow> glptr res" where
  "via q = (case q of None \<Rightarrow> Inl NullDeref | Some p \<Rightarrow> Inr p)"

section \<open>The operations\<close>

definition init_glthread :: "glptr \<Rightarrow> gl_heap \<Rightarrow> gl_heap res" where
  "init_glthread p h = rbind (set_left p None h) (set_right p None)"

definition glthread_add_next :: "glptr \<Rightarrow> glptr \<Rightarrow> gl_heap \<Rightarrow> gl_heap res" where
  "glthread_add_next cur new h =
     rbind (gl_get h cur) (\<lambda>c.
       case right_ptr c of
         None \<Rightarrow> rbind (set_right cur (Some new) h) (set_left new (Some cur))
       | Some temp \<Rightarrow>
           rbind (set_right cur (Some new) h) (\<lambda>h.
           rbind (set_left new (Some cur) h) (\<lambda>h.
           rbind (set_right new (Some temp) h) (set_left temp (Some new)))))"

definition glthread_add_before :: "glptr \<Rightarrow> glptr \<Rightarrow> gl_heap \<Rightarrow> gl_heap res" where
  "glthread_add_before cur new h =
     rbind (gl_get h cur) (\<lambda>c.
       case left_ptr c of
         None \<Rightarrow>
           rbind (set_left new None h) (\<lambda>h.
           rbind (set_right new (Some cur) h) (set_left cur (Some new)))
       | Some temp \<Rightarrow>
           rbind (set_right temp (Some new) h) (\<lambda>h.
           rbind (set_left new (Some temp) h) (\<lambda>h.
           rbind (set_right new (Some cur) h) (set_left cur (Some new)))))"

text \<open>The fields are read again where the source reads them again.\<close>

definition remove_glthread :: "glptr \<Rightarrow> gl_heap \<Rightarrow> gl_heap res" where
  "remove_glthread cur h =
     rbind (gl_get h cur) (\<lambda>c.
       case (left_ptr c, right_ptr c) of
         (None, Some r) \<Rightarrow> rbind (set_left r None h) (set_right cur None)
       | (None, None) \<Rightarrow> Inr h
       | (Some l, None) \<Rightarrow> rbind (set_right l None h) (set_left cur None)
       | (Some l, Some r) \<Rightarrow>
           rbind (set_right l (Some r) h) (\<lambda>h.
           rbind (gl_get h cur) (\<lambda>c.
           rbind (via (right_ptr c)) (\<lambda>r.
           rbind (set_left r (left_ptr c) h) (\<lambda>h.
           rbind (set_left cur None h) (set_right cur None))))))"

text \<open>
  \<^verbatim>\<open>ITERATE_GLTHREAD_BEGIN\<close> on a state whose heap is \<open>hp st\<close>: the next pointer is read
  before the body runs; the body says whether it returns from the function.
\<close>

partial_function (option) iterate_glthread ::
  "('s \<Rightarrow> gl_heap) \<Rightarrow> (glptr \<Rightarrow> 's \<Rightarrow> (bool \<times> 's) res) \<Rightarrow> glptr option \<Rightarrow> 's \<Rightarrow> 's res option" where [code]:
  "iterate_glthread hp body cur st =
     (case cur of
        None \<Rightarrow> Some (Inr st)
      | Some p \<Rightarrow>
          (case gl_get (hp st) p of
             Inl e \<Rightarrow> Some (Inl e)
           | Inr n \<Rightarrow>
               (case body p st of
                  Inl e \<Rightarrow> Some (Inl e)
                | Inr (returns, st') \<Rightarrow>
                    if returns then Some (Inr st')
                    else iterate_glthread hp body (right_ptr n) st')))"

definition IS_GLTHREAD_LIST_EMPTY :: "glnode \<Rightarrow> bool" where
  "IS_GLTHREAD_LIST_EMPTY n \<longleftrightarrow> right_ptr n = None \<and> left_ptr n = None"

definition IS_QUEUED_UP_IN_THREAD :: "glnode \<Rightarrow> bool" where
  "IS_QUEUED_UP_IN_THREAD n \<longleftrightarrow> \<not> (right_ptr n = None \<and> left_ptr n = None)"

definition GLTHREAD_GET_USER_DATA_FROM_OFFSET :: "glptr \<Rightarrow> int \<Rightarrow> int" where
  "GLTHREAD_GET_USER_DATA_FROM_OFFSET p offset = int p - offset"

definition delete_glthread_list :: "glptr \<Rightarrow> gl_heap \<Rightarrow> gl_heap res option" where
  "delete_glthread_list head h =
     (case gl_get h head of
        Inl e \<Rightarrow> Some (Inl e)
      | Inr n \<Rightarrow> iterate_glthread (\<lambda>h. h) (\<lambda>p h. rbind (remove_glthread p h) (\<lambda>h. Inr (False, h)))
                  (right_ptr n) h)"

definition glthread_add_last :: "glptr \<Rightarrow> glptr \<Rightarrow> gl_heap \<Rightarrow> gl_heap res option" where
  "glthread_add_last head new h =
     (case gl_get h head of
        Inl e \<Rightarrow> Some (Inl e)
      | Inr n \<Rightarrow>
          (case iterate_glthread fst (\<lambda>p (h, prev). Inr (False, (h, Some p))) (right_ptr n) (h, None) of
             None \<Rightarrow> None
           | Some (Inl e) \<Rightarrow> Some (Inl e)
           | Some (Inr (h, prev)) \<Rightarrow>
               (case prev of
                  Some p \<Rightarrow> Some (glthread_add_next p new h)
                | None \<Rightarrow> Some (glthread_add_next head new h))))"

definition get_glthread_list_count :: "glptr \<Rightarrow> gl_heap \<Rightarrow> u32 res option" where
  "get_glthread_list_count head h =
     (case gl_get h head of
        Inl e \<Rightarrow> Some (Inl e)
      | Inr n \<Rightarrow>
          (case iterate_glthread fst (\<lambda>p (h, c). Inr (False, (h, c + 1))) (right_ptr n) (h, 0) of
             None \<Rightarrow> None
           | Some (Inl e) \<Rightarrow> Some (Inl e)
           | Some (Inr (h, c)) \<Rightarrow> Some (Inr c)))"

text \<open>
  The comparison function gets the two user structures. The state of the loop is the heap, the
  previous node and whether the function has returned from inside.
\<close>

definition priority_body ::
  "(int \<Rightarrow> int \<Rightarrow> int) \<Rightarrow> int \<Rightarrow> glptr \<Rightarrow> glptr \<Rightarrow> glptr \<Rightarrow> gl_heap \<times> glptr option \<times> bool \<Rightarrow>
   (bool \<times> gl_heap \<times> glptr option \<times> bool) res" where
  "priority_body comp_fn offset head new cur = (\<lambda>(h, prev, fin).
     if comp_fn (GLTHREAD_GET_USER_DATA_FROM_OFFSET new offset)
          (GLTHREAD_GET_USER_DATA_FROM_OFFSET cur offset) \<noteq> -1
     then Inr (False, h, Some cur, fin)
     else rbind (glthread_add_next (case prev of None \<Rightarrow> head | Some p \<Rightarrow> p) new h)
            (\<lambda>h. Inr (True, h, prev, True)))"

definition glthread_priority_insert ::
  "(int \<Rightarrow> int \<Rightarrow> int) \<Rightarrow> int \<Rightarrow> glptr \<Rightarrow> glptr \<Rightarrow> gl_heap \<Rightarrow> gl_heap res option" where
  "glthread_priority_insert comp_fn offset head new h =
     (case init_glthread new h of
        Inl e \<Rightarrow> Some (Inl e)
      | Inr h \<Rightarrow>
        (case gl_get h head of
           Inl e \<Rightarrow> Some (Inl e)
         | Inr hdn \<Rightarrow>
             if IS_GLTHREAD_LIST_EMPTY hdn then Some (glthread_add_next head new h)
             else
               (case (case right_ptr hdn of None \<Rightarrow> Inr None
                      | Some r \<Rightarrow> rbind (gl_get h r) (\<lambda>n.
                          Inr (if right_ptr n = None then Some r else None))) of
                  Inl e \<Rightarrow> Some (Inl e)
                | Inr (Some r) \<Rightarrow>
                    if comp_fn (GLTHREAD_GET_USER_DATA_FROM_OFFSET new offset)
                         (GLTHREAD_GET_USER_DATA_FROM_OFFSET r offset) = -1
                    then Some (glthread_add_next head new h)
                    else Some (glthread_add_next r new h)
                | Inr None \<Rightarrow>
                    (case iterate_glthread fst (priority_body comp_fn offset head new)
                            (right_ptr hdn) (h, None, False) of
                       None \<Rightarrow> None
                     | Some (Inl e) \<Rightarrow> Some (Inl e)
                     | Some (Inr (h, prev, fin)) \<Rightarrow>
                         if fin then Some (Inr h)
                         else Some (rbind (via prev) (\<lambda>p. glthread_add_next p new h))))))"

definition dequeue_glthread_first :: "glptr \<Rightarrow> gl_heap \<Rightarrow> (glptr option \<times> gl_heap) res" where
  "dequeue_glthread_first base h =
     rbind (gl_get h base) (\<lambda>n.
       case right_ptr n of
         None \<Rightarrow> Inr (None, h)
       | Some temp \<Rightarrow> rbind (remove_glthread temp h) (\<lambda>h. Inr (Some temp, h)))"

section \<open>The list behind a head node\<close>

definition right_of :: "gl_heap \<Rightarrow> glptr \<Rightarrow> glptr option" where
  "right_of h p = (case h p of None \<Rightarrow> None | Some n \<Rightarrow> right_ptr n)"

definition left_of :: "gl_heap \<Rightarrow> glptr \<Rightarrow> glptr option" where
  "left_of h p = (case h p of None \<Rightarrow> None | Some n \<Rightarrow> left_ptr n)"

definition linked :: "gl_heap \<Rightarrow> glptr \<Rightarrow> glptr \<Rightarrow> bool" where
  "linked h a b \<longleftrightarrow> right_of h a = Some b \<and> left_of h b = Some a"

text \<open>
  \<open>gl_list h hdn xs\<close>: behind the head node \<open>hdn\<close> are the nodes \<open>xs\<close>, all different and
  allocated, each linked with the next in both directions, and the two ends are open.
\<close>

definition gl_list :: "gl_heap \<Rightarrow> glptr \<Rightarrow> glptr list \<Rightarrow> bool" where
  "gl_list h hdn xs \<longleftrightarrow> distinct (hdn # xs) \<and> set (hdn # xs) \<subseteq> dom h \<and>
     successively (linked h) (hdn # xs) \<and> left_of h hdn = None \<and> right_of h (last (hdn # xs)) = None"

text \<open>A node that is in no list.\<close>

definition gl_free :: "gl_heap \<Rightarrow> glptr \<Rightarrow> bool" where
  "gl_free h p \<longleftrightarrow> p \<in> dom h \<and> left_of h p = None \<and> right_of h p = None"

lemma gl_get_Inr [simp]: "gl_get h p = Inr n \<longleftrightarrow> h p = Some n"
  by (simp add: gl_get_def split: option.split)

lemma gl_get_Some: "h p = Some n \<Longrightarrow> gl_get h p = Inr n"
  by simp

lemma set_left_Some: "h p = Some n \<Longrightarrow> set_left p v h = Inr (h(p \<mapsto> n\<lparr>left_ptr := v\<rparr>))"
  by (simp add: set_left_def gl_get_Some)

lemma set_right_Some: "h p = Some n \<Longrightarrow> set_right p v h = Inr (h(p \<mapsto> n\<lparr>right_ptr := v\<rparr>))"
  by (simp add: set_right_def gl_get_Some)

lemmas gl_access = gl_get_Some set_left_Some set_right_Some

lemma of_upd [simp]:
  "right_of (h(p \<mapsto> n)) q = (if q = p then right_ptr n else right_of h q)"
  "left_of (h(p \<mapsto> n)) q = (if q = p then left_ptr n else left_of h q)"
  by (simp_all add: right_of_def left_of_def)

lemma of_Some: "h p = Some n \<Longrightarrow> right_of h p = right_ptr n" "h p = Some n \<Longrightarrow> left_of h p = left_ptr n"
  by (simp_all add: right_of_def left_of_def)

text \<open>A chain depends on the right pointers of all but its last and the left ones of all but its first.\<close>

lemma links_cong:
  "successively (linked h) xs \<Longrightarrow> (\<And>x. x \<in> set (butlast xs) \<Longrightarrow> right_of h' x = right_of h x) \<Longrightarrow>
   (\<And>x. x \<in> set (tl xs) \<Longrightarrow> left_of h' x = left_of h x) \<Longrightarrow> successively (linked h') xs"
proof (induction xs rule: induct_list012)
  case (3 x y zs)
  have "successively (linked h') (y # zs)"
    using 3 by (intro "3.IH"(2)) auto
  with 3 show ?case by (simp add: linked_def)
qed auto

lemma successively_join:
  "successively P (zs @ [c]) \<Longrightarrow> successively P ys \<Longrightarrow> (ys \<noteq> [] \<Longrightarrow> P c (hd ys)) \<Longrightarrow>
   successively P (zs @ c # ys)"
  by (cases ys) (auto simp: successively_append_iff)

lemma successively_join2:
  "successively P (zs @ [c]) \<Longrightarrow> successively P ys \<Longrightarrow> P c x \<Longrightarrow> (ys \<noteq> [] \<Longrightarrow> P x (hd ys)) \<Longrightarrow>
   successively P (zs @ c # x # ys)"
  by (cases ys) (auto simp: successively_append_iff)

section \<open>Inserting\<close>

text \<open>The effect of inserting behind a node, on all pointers.\<close>

lemma add_next_pointers:
  assumes "c \<in> dom h" "new \<in> dom h" "c \<noteq> new"
    and "\<And>t. right_of h c = Some t \<Longrightarrow> t \<in> dom h \<and> t \<noteq> c \<and> t \<noteq> new"
  shows "\<exists>h'. glthread_add_next c new h = Inr h' \<and> dom h' = dom h \<and>
    right_of h' = (right_of h)(c := Some new,
      new := (case right_of h c of None \<Rightarrow> right_of h new | Some t \<Rightarrow> Some t)) \<and>
    left_of h' = (\<lambda>q. if q = new then Some c else if right_of h c = Some q then Some new else left_of h q)"
proof -
  obtain nc nn where n: "h c = Some nc" "h new = Some nn" using assms(1,2) by auto
  note np = of_Some [of h c nc, OF n(1)] of_Some [of h new nn, OF n(2)]
  show ?thesis
  proof (cases "right_of h c")
    case None
    with np have r: "right_ptr nc = None" by simp
    show ?thesis
      by (rule exI [of _ "h(c \<mapsto> nc\<lparr>right_ptr := Some new\<rparr>, new \<mapsto> nn\<lparr>left_ptr := Some c\<rparr>)"])
        (use None r n np assms(3) in
          \<open>auto simp: glthread_add_next_def gl_access gl_access [of h c nc] dom_def fun_eq_iff\<close>)
  next
    case (Some t)
    with np have r: "right_ptr nc = Some t" by simp
    obtain nt where t: "h t = Some nt" "t \<noteq> c" "t \<noteq> new" using Some assms(4) by blast
    show ?thesis
      by (rule exI [of _ "h(c \<mapsto> nc\<lparr>right_ptr := Some new\<rparr>,
            new \<mapsto> nn\<lparr>left_ptr := Some c, right_ptr := Some t\<rparr>, t \<mapsto> nt\<lparr>left_ptr := Some new\<rparr>)"])
        (use Some r t n np of_Some [of h t nt, OF t(1)] assms(3) in
          \<open>auto simp: glthread_add_next_def gl_access gl_access [of h c nc] dom_def fun_eq_iff\<close>)
  qed
qed

text \<open>Inserting behind a node of the list, or behind its head.\<close>

lemma add_next_list:
  assumes "gl_list h hdn (xs @ ys)" "new \<notin> set (hdn # xs @ ys)" "gl_free h new"
  shows "\<exists>h'. glthread_add_next (last (hdn # xs)) new h = Inr h' \<and> dom h' = dom h \<and>
    gl_list h' hdn (xs @ new # ys) \<and> (\<forall>p. p \<notin> set (hdn # xs @ new # ys) \<longrightarrow>
      right_of h' p = right_of h p \<and> left_of h' p = left_of h p)"
proof -
  let ?c = "last (hdn # xs)" and ?zs = "butlast (hdn # xs)"
  have split: "hdn # xs = ?zs @ [?c]" by (metis append_butlast_last_id list.discI)
  then have all: "hdn # xs @ ys = ?zs @ ?c # ys" by (metis append_Cons append.assoc append_Nil)
  have g: "distinct (?zs @ ?c # ys)" "set (?zs @ ?c # ys) \<subseteq> dom h" "successively (linked h) (?zs @ ?c # ys)"
      "left_of h hdn = None" "right_of h (last (?zs @ ?c # ys)) = None"
    using assms(1) unfolding gl_list_def all by auto
  have c: "right_of h ?c = (case ys of [] \<Rightarrow> None | t # _ \<Rightarrow> Some t)"
    using g(3,5) by (cases ys) (auto simp: successively_append_iff linked_def)
  have new: "new \<notin> set (?zs @ ?c # ys)" using assms(2) unfolding all [symmetric] by simp
  have "\<exists>h'. glthread_add_next ?c new h = Inr h' \<and> dom h' = dom h \<and>
    right_of h' = (right_of h)(?c := Some new,
      new := (case right_of h ?c of None \<Rightarrow> right_of h new | Some t \<Rightarrow> Some t)) \<and>
    left_of h' = (\<lambda>q. if q = new then Some ?c else if right_of h ?c = Some q then Some new else left_of h q)"
    using g(1,2) new assms(3) c
    by (intro add_next_pointers) (auto simp: gl_free_def split: list.splits)
  then obtain h' where h0: "glthread_add_next ?c new h = Inr h'" "dom h' = dom h"
    "right_of h' = (right_of h)(?c := Some new,
      new := (case right_of h ?c of None \<Rightarrow> right_of h new | Some t \<Rightarrow> Some t))"
    "left_of h' = (\<lambda>q. if q = new then Some ?c else if right_of h ?c = Some q then Some new else left_of h q)"
    by blast
  have h': "glthread_add_next ?c new h = Inr h'" "dom h' = dom h"
      "right_of h' = (right_of h)(?c := Some new, new := (case ys of [] \<Rightarrow> None | t # _ \<Rightarrow> Some t))"
      "left_of h' = (\<lambda>q. if q = new then Some ?c else if ys \<noteq> [] \<and> q = hd ys then Some new else left_of h q)"
    using h0 c assms(3) by (auto simp: gl_free_def fun_eq_iff split: list.splits)
  have d: "distinct (hdn # xs @ ys)" "ys \<noteq> [] \<Longrightarrow> hd ys \<in> set ys"
      "?c \<notin> set ys"
    using assms(1) g(1) by (auto simp: gl_list_def)
  have "successively (linked h') (?zs @ [?c])"
    by (rule links_cong [of h]) (use g d assms(2) in \<open>auto simp: successively_append_iff h'(3,4) hd_in_set
      dest: in_set_butlastD list.set_sel(2) split: list.splits\<close>)
  moreover have "successively (linked h) ys"
    using g(3) unfolding successively_append_iff by (cases ys) auto
  then have "successively (linked h') ys"
    using d assms(2) g(1)
    by (cases ys) (auto intro!: links_cong [of h] simp: h'(3,4) simp del: butlast.simps
      dest: in_set_butlastD split: if_splits)
  moreover have "linked h' ?c new" "ys \<noteq> [] \<Longrightarrow> linked h' new (hd ys)"
    using new by (auto simp: linked_def h'(3,4) split: list.splits)
  ultimately have "successively (linked h') (?zs @ ?c # new # ys)"
    by (rule successively_join2)
  then have "successively (linked h') (hdn # xs @ new # ys)"
    using split by (metis append_Cons append.assoc append_Nil)
  moreover have "left_of h' hdn = None"
    using g(1,4) assms(1,2) by (auto simp: h'(4) gl_list_def hd_in_set)
  moreover have "right_of h' (last (hdn # xs @ new # ys)) = None"
    using g(1,5) new by (auto simp: h'(3) hd_in_set split: list.splits) (metis last_in_set)
  moreover have "distinct (hdn # xs @ new # ys)" "set (hdn # xs @ new # ys) \<subseteq> dom h'"
    using assms(1-3) h'(2) by (auto simp: gl_list_def gl_free_def)
  moreover have "\<forall>p. p \<notin> set (hdn # xs @ new # ys) \<longrightarrow>
      right_of h' p = right_of h p \<and> left_of h' p = left_of h p"
  proof (intro allI impI)
    fix p assume "p \<notin> set (hdn # xs @ new # ys)"
    moreover have "?c \<in> set (hdn # xs)" using last_in_set by blast
    ultimately show "right_of h' p = right_of h p \<and> left_of h' p = left_of h p"
      by (auto simp: h'(3,4) hd_in_set)
  qed
  ultimately show ?thesis using h'(1,2) unfolding gl_list_def by blast
qed

section \<open>Removing\<close>

text \<open>The nodes around a node of the list.\<close>

lemma gl_list_around:
  assumes "gl_list h hdn (xs @ x # ys)"
  shows "left_of h x = Some (last (hdn # xs))" "right_of h (last (hdn # xs)) = Some x"
    "right_of h x = (case ys of [] \<Rightarrow> None | y # _ \<Rightarrow> Some y)"
    "ys \<noteq> [] \<Longrightarrow> left_of h (hd ys) = Some x"
proof -
  have "successively (linked h) ((hdn # xs) @ x # ys)" "right_of h (last (hdn # xs @ x # ys)) = None"
    using assms by (auto simp: gl_list_def)
  then show "left_of h x = Some (last (hdn # xs))" "right_of h (last (hdn # xs)) = Some x"
      "right_of h x = (case ys of [] \<Rightarrow> None | y # _ \<Rightarrow> Some y)"
      "ys \<noteq> [] \<Longrightarrow> left_of h (hd ys) = Some x"
    unfolding successively_append_iff by (cases ys; simp add: linked_def)+
qed

lemma remove_pointers:
  assumes "x \<in> dom h" "left_of h x = Some l" "l \<in> dom h" "l \<noteq> x"
    and "\<And>r. right_of h x = Some r \<Longrightarrow> r \<in> dom h \<and> r \<noteq> x \<and> r \<noteq> l"
  shows "\<exists>h'. remove_glthread x h = Inr h' \<and> dom h' = dom h \<and>
    right_of h' = (right_of h)(l := right_of h x, x := None) \<and>
    left_of h' = (\<lambda>q. if q = x then None else if right_of h x = Some q then Some l else left_of h q)"
proof -
  obtain nx nl where n: "h x = Some nx" "h l = Some nl" using assms(1,3) by auto
  note np = of_Some [of h x nx, OF n(1)] of_Some [of h l nl, OF n(2)]
  show ?thesis
  proof (cases "right_of h x")
    case None
    with np assms(2) have r: "right_ptr nx = None" "left_ptr nx = Some l" by simp_all
    show ?thesis
      by (rule exI [of _ "h(l \<mapsto> nl\<lparr>right_ptr := None\<rparr>, x \<mapsto> nx\<lparr>left_ptr := None\<rparr>)"])
        (use None r n np assms(4) in
          \<open>auto simp: remove_glthread_def gl_access gl_access [of h x nx] dom_def fun_eq_iff\<close>)
  next
    case (Some r)
    with np assms(2) have e: "right_ptr nx = Some r" "left_ptr nx = Some l" by simp_all
    obtain nr where r: "h r = Some nr" "r \<noteq> x" "r \<noteq> l" using Some assms(5) by blast
    show ?thesis
      by (rule exI [of _ "h(l \<mapsto> nl\<lparr>right_ptr := Some r\<rparr>, r \<mapsto> nr\<lparr>left_ptr := Some l\<rparr>,
            x \<mapsto> nx\<lparr>left_ptr := None, right_ptr := None\<rparr>)"])
        (use Some e r n np of_Some [of h r nr, OF r(1)] assms(4) in
          \<open>auto simp: remove_glthread_def gl_access gl_access [of h x nx] via_def dom_def fun_eq_iff\<close>)
  qed
qed

lemma remove_list:
  assumes "gl_list h hdn (xs @ x # ys)"
  shows "\<exists>h'. remove_glthread x h = Inr h' \<and> dom h' = dom h \<and> gl_list h' hdn (xs @ ys) \<and>
    gl_free h' x \<and> (\<forall>p. p \<notin> set (hdn # xs @ x # ys) \<longrightarrow>
      right_of h' p = right_of h p \<and> left_of h' p = left_of h p)"
proof -
  let ?c = "last (hdn # xs)" and ?zs = "butlast (hdn # xs)"
  have split: "hdn # xs = ?zs @ [?c]" by (metis append_butlast_last_id list.discI)
  then have all: "hdn # xs @ x # ys = ?zs @ ?c # x # ys" by (metis append_Cons append.assoc append_Nil)
  have g: "distinct (?zs @ ?c # x # ys)" "set (?zs @ ?c # x # ys) \<subseteq> dom h"
      "successively (linked h) (?zs @ ?c # x # ys)"
      "left_of h hdn = None" "right_of h (last (?zs @ ?c # x # ys)) = None"
    using assms(1) unfolding gl_list_def all by auto
  note ar = gl_list_around [OF assms]
  have "\<exists>h'. remove_glthread x h = Inr h' \<and> dom h' = dom h \<and>
    right_of h' = (right_of h)(?c := right_of h x, x := None) \<and>
    left_of h' = (\<lambda>q. if q = x then None else if right_of h x = Some q then Some ?c else left_of h q)"
    using g(1,2) ar by (intro remove_pointers) (auto split: list.splits)
  then obtain h' where h0: "remove_glthread x h = Inr h'" "dom h' = dom h"
      "right_of h' = (right_of h)(?c := right_of h x, x := None)"
      "left_of h' = (\<lambda>q. if q = x then None else if right_of h x = Some q then Some ?c else left_of h q)"
    by blast
  have h': "remove_glthread x h = Inr h'" "dom h' = dom h"
      "right_of h' = (right_of h)(?c := (case ys of [] \<Rightarrow> None | t # _ \<Rightarrow> Some t), x := None)"
      "left_of h' = (\<lambda>q. if q = x then None else if ys \<noteq> [] \<and> q = hd ys then Some ?c else left_of h q)"
    using h0 ar(3) by (auto simp: fun_eq_iff split: list.splits)
  have d: "distinct (hdn # xs @ x # ys)" "ys \<noteq> [] \<Longrightarrow> hd ys \<in> set ys"
      "?c \<notin> set ys"
    using assms(1) g(1) by (auto simp: gl_list_def)
  have "successively (linked h') (?zs @ [?c])"
    by (rule links_cong [of h]) (use g d in \<open>auto simp: successively_append_iff h'(3,4) hd_in_set
      dest: in_set_butlastD list.set_sel(2) split: list.splits\<close>)
  moreover have "successively (linked h) ys"
    using g(3) unfolding successively_append_iff by (cases ys) auto
  then have "successively (linked h') ys"
    using d g(1)
    by (cases ys) (auto intro!: links_cong [of h] simp: h'(3,4) simp del: butlast.simps
      dest: in_set_butlastD split: if_splits)
  moreover have "ys \<noteq> [] \<Longrightarrow> linked h' ?c (hd ys)"
    using d g(1) by (auto simp: linked_def h'(3,4) split: list.splits)
  ultimately have "successively (linked h') (?zs @ ?c # ys)"
    by (rule successively_join)
  then have "successively (linked h') (hdn # xs @ ys)"
    using split by (metis append_Cons append.assoc append_Nil)
  moreover have "left_of h' hdn = None"
    using g(4) assms(1) by (auto simp: h'(4) gl_list_def hd_in_set)
  moreover have "right_of h' (last (hdn # xs @ ys)) = None"
    using g(1,5) by (auto simp: h'(3) hd_in_set split: list.splits) (metis last_in_set)
  moreover have "distinct (hdn # xs @ ys)" "set (hdn # xs @ ys) \<subseteq> dom h'"
    using assms(1) h'(2) by (auto simp: gl_list_def)
  moreover have "gl_free h' x" using g(2) h' by (auto simp: gl_free_def)
  moreover have "\<forall>p. p \<notin> set (hdn # xs @ x # ys) \<longrightarrow>
      right_of h' p = right_of h p \<and> left_of h' p = left_of h p"
  proof (intro allI impI)
    fix p assume "p \<notin> set (hdn # xs @ x # ys)"
    moreover have "?c \<in> set (hdn # xs)" using last_in_set by blast
    ultimately show "right_of h' p = right_of h p \<and> left_of h' p = left_of h p"
      by (auto simp: h'(3,4) hd_in_set)
  qed
  ultimately show ?thesis using h'(1,2) unfolding gl_list_def by blast
qed

section \<open>Walking the list\<close>

text \<open>
  The loop on a list whose nodes the body leaves linked ahead of it: it is a left fold that can
  stop. \<open>J\<close> is what holds of the state when the loop stands before the nodes \<open>ys\<close>.
\<close>

lemma iterate_None [simp]: "iterate_glthread hp body None st = Some (Inr st)"
  by (subst iterate_glthread.simps) simp

lemma iterate_Some:
  "hp st p = Some n \<Longrightarrow>
   iterate_glthread hp body (Some p) st =
     (case body p st of
        Inl e \<Rightarrow> Some (Inl e)
      | Inr (returns, st') \<Rightarrow>
          if returns then Some (Inr st') else iterate_glthread hp body (right_ptr n) st')"
  by (subst iterate_glthread.simps) (simp add: gl_get_Some)

definition first_of :: "'a list \<Rightarrow> 'a option" where
  "first_of xs = (case xs of [] \<Rightarrow> None | x # _ \<Rightarrow> Some x)"

lemma first_of_simps [simp]: "first_of [] = None" "first_of (x # xs) = Some x"
  by (simp_all add: first_of_def)

lemma gl_list_next:
  assumes "gl_list h hdn (xs @ x # ys)"
  shows "\<exists>n. h x = Some n \<and> right_ptr n = first_of ys"
proof -
  obtain n where "h x = Some n" using assms by (auto simp: gl_list_def)
  then show ?thesis
    using gl_list_around(3) [OF assms] by (auto simp: right_of_def first_of_def)
qed

lemma gl_list_first:
  assumes "gl_list h hdn xs"
  shows "\<exists>n. h hdn = Some n \<and> left_ptr n = None \<and> right_ptr n = first_of xs"
proof -
  obtain n where n: "h hdn = Some n" using assms by (auto simp: gl_list_def)
  moreover have "right_of h hdn = first_of xs" "left_of h hdn = None"
    using assms by (cases xs; simp add: gl_list_def linked_def)+
  ultimately show ?thesis by (auto simp: right_of_def left_of_def)
qed

lemma iterate_readonly:
  assumes "gl_list h hdn (xs @ ys)" "\<And>p s. body p (h, s) = Inr (False, (h, f p s))"
  shows "iterate_glthread fst body (first_of ys) (h, s) = Some (Inr (h, fold f ys s))"
  using assms(1)
proof (induction ys arbitrary: xs s)
  case (Cons y ys)
  obtain n where "h y = Some n" "right_ptr n = first_of ys"
    using gl_list_next [OF Cons.prems] by blast
  then show ?case
    using Cons.IH [of "xs @ [y]"] Cons.prems assms(2) [of y s]
    by (simp add: iterate_Some [of fst "(h, s)" y n])
qed simp

section \<open>The operations as list operations\<close>

lemma fold_last: "fold (\<lambda>p s. Some p) ys s = (if ys = [] then s else Some (last ys))"
  by (induction ys arbitrary: s) auto

lemma add_last_list:
  assumes "gl_list h hdn xs" "new \<notin> set (hdn # xs)" "gl_free h new"
  shows "\<exists>h'. glthread_add_last hdn new h = Some (Inr h') \<and> gl_list h' hdn (xs @ [new]) \<and>
    dom h' = dom h"
proof -
  obtain n where n: "h hdn = Some n" "right_ptr n = first_of xs" using gl_list_first [OF assms(1)] by blast
  have it: "iterate_glthread fst (\<lambda>p (h, prev). Inr (False, (h, Some p))) (first_of xs) (h, None) =
      Some (Inr (h, if xs = [] then None else Some (last xs)))"
    using iterate_readonly [of h hdn "[]" xs "\<lambda>p (h, prev). Inr (False, (h, Some p))" "\<lambda>p s. Some p" None]
      assms(1) by (simp add: fold_last)
  have "glthread_add_last hdn new h = Some (glthread_add_next (last (hdn # xs)) new h)"
    using n it by (simp add: glthread_add_last_def gl_get_Some)
  with add_next_list [of h hdn xs "[]" new] assms show ?thesis by auto
qed

lemma fold_count: "fold (\<lambda>p c. c + 1) ys (c :: u32) = c + of_nat (length ys)"
  by (induction ys arbitrary: c) auto

lemma count_list:
  assumes "gl_list h hdn xs"
  shows "get_glthread_list_count hdn h = Some (Inr (of_nat (length xs)))"
proof -
  obtain n where n: "h hdn = Some n" "right_ptr n = first_of xs" using gl_list_first [OF assms] by blast
  have "iterate_glthread fst (\<lambda>p (h, c). Inr (False, (h, c + 1))) (first_of xs) (h, 0 :: u32) =
      Some (Inr (h, of_nat (length xs)))"
    using iterate_readonly [of h hdn "[]" xs "\<lambda>p (h, c). Inr (False, (h, c + 1))" "\<lambda>p c. c + 1" "0 :: u32"]
      assms by (simp add: fold_count)
  with n show ?thesis by (simp add: get_glthread_list_count_def gl_get_Some)
qed

lemma dequeue_list:
  assumes "gl_list h hdn (x # xs)"
  shows "\<exists>h'. dequeue_glthread_first hdn h = Inr (Some x, h') \<and> gl_list h' hdn xs \<and> gl_free h' x"
proof -
  obtain n where n: "h hdn = Some n" "right_ptr n = Some x" using gl_list_first [OF assms] by auto
  obtain h' where "remove_glthread x h = Inr h'" "gl_list h' hdn xs" "gl_free h' x"
    using remove_list [of h hdn "[]" x xs] assms by auto
  with n show ?thesis by (simp add: dequeue_glthread_first_def gl_get_Some)
qed

lemma dequeue_empty:
  assumes "gl_list h hdn []"
  shows "dequeue_glthread_first hdn h = Inr (None, h)"
  using gl_list_first [OF assms] by (auto simp: dequeue_glthread_first_def gl_get_Some)

text \<open>Deleting the list takes every node out of it.\<close>

lemma delete_loop:
  assumes "gl_list h hdn xs"
  shows "\<exists>h'. iterate_glthread (\<lambda>h. h) (\<lambda>p h. rbind (remove_glthread p h) (\<lambda>h. Inr (False, h))) (first_of xs) h
      = Some (Inr h') \<and> gl_list h' hdn [] \<and> dom h' = dom h \<and> (\<forall>x \<in> set xs. gl_free h' x) \<and>
    (\<forall>p. p \<notin> set (hdn # xs) \<longrightarrow> right_of h' p = right_of h p \<and> left_of h' p = left_of h p)"
  using assms
proof (induction xs arbitrary: h)
  case Nil
  then show ?case by simp
next
  case (Cons x xs)
  obtain h1 where h1: "remove_glthread x h = Inr h1" "dom h1 = dom h" "gl_list h1 hdn xs" "gl_free h1 x"
      "\<forall>p. p \<notin> set (hdn # x # xs) \<longrightarrow> right_of h1 p = right_of h p \<and> left_of h1 p = left_of h p"
    using remove_list [of h hdn "[]" x xs] Cons.prems by auto
  obtain n where n: "h x = Some n" "right_ptr n = first_of xs"
    using gl_list_next [of h hdn "[]" x xs] Cons.prems by auto
  obtain h' where h': "iterate_glthread (\<lambda>h. h) (\<lambda>p h. rbind (remove_glthread p h) (\<lambda>h. Inr (False, h)))
        (first_of xs) h1 = Some (Inr h')" "gl_list h' hdn []" "dom h' = dom h1" "\<forall>x \<in> set xs. gl_free h' x"
      "\<forall>p. p \<notin> set (hdn # xs) \<longrightarrow> right_of h' p = right_of h1 p \<and> left_of h' p = left_of h1 p"
    using Cons.IH [OF h1(3)] by blast
  have "x \<notin> set (hdn # xs)" using Cons.prems by (auto simp: gl_list_def)
  then have "gl_free h' x" using h1(2,4) h'(3,5) by (auto simp: gl_free_def)
  with h1 h' n show ?case by (auto simp: iterate_Some [of "\<lambda>h. h" h x n])
qed

lemma delete_list:
  assumes "gl_list h hdn xs"
  shows "\<exists>h'. delete_glthread_list hdn h = Some (Inr h') \<and> gl_list h' hdn [] \<and>
    (\<forall>x \<in> set xs. gl_free h' x)"
proof -
  obtain n where "h hdn = Some n" "right_ptr n = first_of xs" using gl_list_first [OF assms] by blast
  with delete_loop [OF assms] show ?thesis by (auto simp: delete_glthread_list_def gl_get_Some)
qed

section \<open>Priority insertion\<close>

lemma gl_list_frame:
  assumes "gl_list h hdn xs" "dom h \<subseteq> dom h'"
    and "\<And>x. x \<in> set (hdn # xs) \<Longrightarrow> right_of h' x = right_of h x \<and> left_of h' x = left_of h x"
  shows "gl_list h' hdn xs"
proof -
  have "successively (linked h) (hdn # xs)" using assms(1) by (simp add: gl_list_def)
  then have "successively (linked h') (hdn # xs)"
    by (rule links_cong) (use assms(3) in \<open>auto simp del: butlast.simps dest: in_set_butlastD\<close>)
  moreover have "last (hdn # xs) \<in> set (hdn # xs)" by (rule last_in_set) simp
  then have "right_of h' (last (hdn # xs)) = right_of h (last (hdn # xs))" using assms(3) by blast
  moreover have "set (hdn # xs) \<subseteq> dom h'" using assms(1,2) unfolding gl_list_def by blast
  ultimately show ?thesis using assms(1,3) unfolding gl_list_def by simp
qed

lemma init_glthread_frees:
  assumes "gl_list h hdn xs" "new \<in> dom h" "new \<notin> set (hdn # xs)"
  shows "\<exists>h'. init_glthread new h = Inr h' \<and> gl_free h' new \<and> gl_list h' hdn xs"
proof -
  obtain n where n: "h new = Some n" using assms(2) by auto
  let ?h = "h(new \<mapsto> n\<lparr>left_ptr := None, right_ptr := None\<rparr>)"
  have "init_glthread new h = Inr ?h"
    using n by (simp add: init_glthread_def set_left_Some set_right_Some)
  moreover have "gl_free ?h new" by (simp add: gl_free_def)
  moreover have "gl_list ?h hdn xs" using assms by (intro gl_list_frame [OF assms(1)]) auto
  ultimately show ?thesis by blast
qed

text \<open>The place the comparison function chooses: behind all that the new node does not precede.\<close>

definition precedes :: "(int \<Rightarrow> int \<Rightarrow> int) \<Rightarrow> int \<Rightarrow> glptr \<Rightarrow> glptr \<Rightarrow> bool" where
  "precedes comp_fn offset new c \<longleftrightarrow>
     comp_fn (GLTHREAD_GET_USER_DATA_FROM_OFFSET new offset)
       (GLTHREAD_GET_USER_DATA_FROM_OFFSET c offset) = -1"

definition priority_place ::
  "(int \<Rightarrow> int \<Rightarrow> int) \<Rightarrow> int \<Rightarrow> glptr \<Rightarrow> glptr list \<Rightarrow> glptr list" where
  "priority_place comp_fn offset new xs =
     takeWhile (\<lambda>c. \<not> precedes comp_fn offset new c) xs @ new #
     dropWhile (\<lambda>c. \<not> precedes comp_fn offset new c) xs"

lemma priority_loop:
  assumes "gl_list h hdn (xs @ ys)" "new \<notin> set (hdn # xs @ ys)" "gl_free h new"
  shows "\<exists>h' prev fin. iterate_glthread fst (priority_body comp_fn offset hdn new) (first_of ys)
      (h, if xs = [] then None else Some (last xs), False) = Some (Inr (h', prev, fin)) \<and>
    (if fin then gl_list h' hdn (xs @ priority_place comp_fn offset new ys)
     else h' = h \<and> prev = (if xs @ ys = [] then None else Some (last (xs @ ys))) \<and>
       (\<forall>c \<in> set ys. \<not> precedes comp_fn offset new c))"
  using assms
proof (induction ys arbitrary: xs)
  case Nil
  show ?case
    by (rule exI [of _ h], rule exI [of _ "if xs = [] then None else Some (last xs)"],
        rule exI [of _ False]) simp
next
  case (Cons y ys)
  obtain n where n: "h y = Some n" "right_ptr n = first_of ys"
    using gl_list_next [OF Cons.prems(1)] by blast
  show ?case
  proof (cases "precedes comp_fn offset new y")
    case True
    obtain h' where h': "glthread_add_next (last (hdn # xs)) new h = Inr h'"
        "gl_list h' hdn (xs @ new # y # ys)"
      using add_next_list [OF Cons.prems] by blast
    let ?prev = "if xs = [] then None else Some (last xs)"
    have "priority_body comp_fn offset hdn new y (h, ?prev, False) = Inr (True, h', ?prev, True)"
      using True h'(1) by (cases "xs = []") (simp_all add: priority_body_def precedes_def)
    then have "iterate_glthread fst (priority_body comp_fn offset hdn new) (Some y) (h, ?prev, False)
        = Some (Inr (h', ?prev, True))"
      using n(1) by (simp add: iterate_Some [of fst _ y n])
    moreover have "gl_list h' hdn (xs @ priority_place comp_fn offset new (y # ys))"
      using True h'(2) by (simp add: priority_place_def)
    ultimately show ?thesis unfolding first_of_simps by (intro exI conjI) (assumption, simp)
  next
    case False
    then have "iterate_glthread fst (priority_body comp_fn offset hdn new) (first_of (y # ys))
        (h, if xs = [] then None else Some (last xs), False) =
      iterate_glthread fst (priority_body comp_fn offset hdn new) (first_of ys) (h, Some y, False)"
      using n by (simp add: iterate_Some [of fst _ y n] priority_body_def precedes_def)
    with False Cons.IH [of "xs @ [y]"] Cons.prems show ?thesis
      by (auto simp: priority_place_def split: if_splits)
  qed
qed

lemma place_end:
  "\<forall>c \<in> set xs. \<not> precedes comp_fn offset new c \<Longrightarrow> priority_place comp_fn offset new xs = xs @ [new]"
  by (simp add: priority_place_def takeWhile_eq_all_conv [THEN iffD2] dropWhile_eq_Nil_conv [THEN iffD2])

lemma priority_insert_list:
  assumes "gl_list h hdn xs" "new \<in> dom h" "new \<notin> set (hdn # xs)"
  shows "\<exists>h'. glthread_priority_insert comp_fn offset hdn new h = Some (Inr h') \<and>
    gl_list h' hdn (priority_place comp_fn offset new xs)"
proof -
  obtain h0 where h0: "init_glthread new h = Inr h0" "gl_free h0 new" "gl_list h0 hdn xs"
    using init_glthread_frees [OF assms] by blast
  obtain n where n: "h0 hdn = Some n" "left_ptr n = None" "right_ptr n = first_of xs"
    using gl_list_first [OF h0(3)] by blast
  have add: "\<exists>h'. glthread_add_next (last (hdn # ys)) new h0 = Inr h' \<and> gl_list h' hdn (ys @ new # zs)"
    if "xs = ys @ zs" for ys zs
    using add_next_list [of h0 hdn ys zs new] h0 assms(3) that by auto
  consider "xs = []" | x where "xs = [x]" | x y zs where "xs = x # y # zs"
    by (cases xs rule: remdups_adj.cases) auto
  then show ?thesis
  proof cases
    case 1
    with add [of "[]" "[]"] n h0(1) show ?thesis
      by (auto simp: glthread_priority_insert_def gl_get_Some IS_GLTHREAD_LIST_EMPTY_def priority_place_def)
  next
    case (2 x)
    obtain m where "h0 x = Some m" "right_ptr m = None"
      using gl_list_next [of h0 hdn "[]" x "[]"] h0(3) 2 by auto
    with 2 n h0(1) add [of "[]" "[x]"] add [of "[x]" "[]"] show ?thesis
      by (auto simp: glthread_priority_insert_def gl_get_Some IS_GLTHREAD_LIST_EMPTY_def
          priority_place_def precedes_def)
  next
    case (3 x y zs)
    obtain m where m: "h0 x = Some m" "right_ptr m = Some y"
      using gl_list_next [of h0 hdn "[]" x "y # zs"] h0(3) 3 by auto
    obtain h' prev fin where loop: "iterate_glthread fst (priority_body comp_fn offset hdn new) (Some x)
        (h0, None, False) = Some (Inr (h', prev, fin))"
      "if fin then gl_list h' hdn (priority_place comp_fn offset new xs)
       else h' = h0 \<and> prev = Some (last xs) \<and> (\<forall>c \<in> set xs. \<not> precedes comp_fn offset new c)"
      using priority_loop [of h0 hdn "[]" xs new comp_fn offset] h0(2,3) assms(3) 3
      by (auto split: if_splits)
    show ?thesis
    proof (cases fin)
      case True
      with loop n m 3 h0(1) show ?thesis
        by (simp add: glthread_priority_insert_def gl_get_Some IS_GLTHREAD_LIST_EMPTY_def)
    next
      case False
      obtain h2 where "glthread_add_next (last xs) new h0 = Inr h2" "gl_list h2 hdn (xs @ [new])"
        using add [of xs "[]"] 3 by auto
      with False loop n m 3 h0(1) show ?thesis
        by (simp add: glthread_priority_insert_def gl_get_Some IS_GLTHREAD_LIST_EMPTY_def via_def place_end)
    qed
  qed
qed

text \<open>
  What the insertion relies on: the comparison function returns \<open>-1\<close> exactly when the first
  argument's key is smaller. Then a sorted list stays sorted, equal keys in order of arrival.
\<close>

locale priority_order =
  fixes comp_fn :: "int \<Rightarrow> int \<Rightarrow> int" and key :: "int \<Rightarrow> int"
  assumes comp_before: "comp_fn a b = -1 \<longleftrightarrow> key a < key b"
begin

definition node_key :: "int \<Rightarrow> glptr \<Rightarrow> int" where
  "node_key offset p = key (GLTHREAD_GET_USER_DATA_FROM_OFFSET p offset)"

lemma precedes_key: "precedes comp_fn offset new c \<longleftrightarrow> node_key offset new < node_key offset c"
  by (simp add: precedes_def node_key_def comp_before)

lemma place_sorted:
  "sorted (map (node_key offset) xs) \<Longrightarrow>
   sorted (map (node_key offset) (priority_place comp_fn offset new xs))"
proof (induction xs)
  case Nil
  then show ?case by (simp add: priority_place_def)
next
  case (Cons x xs)
  then show ?case
    by (auto simp: priority_place_def precedes_key not_less dest: set_takeWhileD set_dropWhileD)
qed

end

section \<open>The ordering of the list's test program\<close>

text \<open>\<^verbatim>\<open>gluethread/test.c\<close>: persons in memory, the older ones first.\<close>

record person_t =
  age :: int
  weight :: int

definition senior_citizen :: "(int \<Rightarrow> person_t) \<Rightarrow> int \<Rightarrow> int \<Rightarrow> int" where
  "senior_citizen mem p1 p2 =
     (if age (mem p1) = age (mem p2) then 0 else if age (mem p1) < age (mem p2) then 1 else -1)"

interpretation senior: priority_order "senior_citizen mem" "\<lambda>p. - age (mem p)" for mem
  by unfold_locales (auto simp: senior_citizen_def)

lemma set_priority_place: "set (priority_place comp_fn offset new xs) = insert new (set xs)"
  by (metis (no_types, lifting) priority_place_def Un_insert_right list.simps(15) set_append
      takeWhile_dropWhile_id)

end
