(* ===== verification/NetUtils.thy ===== *)
theory NetUtils
  imports StringProps CmdTlv
begin

unbundle bit_operations_syntax

text \<open>
  Addresses as text (\<^verbatim>\<open>network_utils.cpp\<close>). An address of the program is a number whose
  most significant byte is the first of the dotted quad; \<^verbatim>\<open>inet_ntop\<close> and
  \<^verbatim>\<open>inet_pton\<close> work on the four bytes in memory, the least significant one first on
  the machines the program runs on, which is why both functions swap the bytes.
\<close>

section \<open>Bytes in memory\<close>

definition memory_bytes :: "u32 \<Rightarrow> nat list" where
  "memory_bytes x = [unat x mod 256, unat x div 256 mod 256, unat x div 65536 mod 256, unat x div 16777216]"

fun from_memory :: "nat list \<Rightarrow> u32" where
  "from_memory [] = 0"
| "from_memory (b # bs) = of_nat b + 256 * from_memory bs"

definition htonl :: "u32 \<Rightarrow> u32" where
  "htonl x = from_memory (rev (memory_bytes x))"

definition htons :: "u16 \<Rightarrow> u16" where
  "htons x = of_nat (unat x mod 256 * 256 + unat x div 256)"

section \<open>Text\<close>

text \<open>\<^verbatim>\<open>inet_ntop\<close> on four bytes, and the fields that \<^verbatim>\<open>inet_pton\<close> reads.\<close>

fun join_dots :: "string list \<Rightarrow> string" where
  "join_dots [] = []"
| "join_dots [f] = f"
| "join_dots (f # fs) = f @ CHR ''.'' # join_dots fs"

fun split_dots :: "string \<Rightarrow> string list" where
  "split_dots [] = [[]]"
| "split_dots (c # cs) =
     (if c = CHR ''.'' then [] # split_dots cs
      else case split_dots cs of [] \<Rightarrow> [[c]] | f # fs \<Rightarrow> (c # f) # fs)"

definition inet_ntop :: "nat list \<Rightarrow> string" where
  "inet_ntop bs = join_dots (map dec_digits bs)"

text \<open>A field has digits only, no zero in front, and is at most 255.\<close>

definition octet_ok :: "string \<Rightarrow> bool" where
  "octet_ok f \<longleftrightarrow> f \<noteq> [] \<and> list_all is_digit f \<and> (length f > 1 \<longrightarrow> hd f \<noteq> CHR ''0'') \<and> atoi_digits f \<le> 255"

definition inet_pton :: "string \<Rightarrow> nat list option" where
  "inet_pton s =
     (let fs = split_dots s in
      if length fs = 4 \<and> list_all octet_ok fs then Some (map (\<lambda>f. nat (atoi_digits f)) fs) else None)"

text \<open>\<open>out\<close> is the block the text goes to: the caller's, or the static one of 16 characters.\<close>

definition network_convert_ip_n_to_p :: "u32 \<Rightarrow> string \<Rightarrow> string res" where
  "network_convert_ip_n_to_p ip_addr out =
     rbind (memcpy out 0 (replicate 16 nul) 0 16) (\<lambda>out.
     rbind (memcpy out 0 (inet_ntop (memory_bytes (htonl ip_addr)) @ [nul]) 0
              (length (inet_ntop (memory_bytes (htonl ip_addr))) + 1)) (\<lambda>out.
       store out 15 nul))"

text \<open>Text that is not an address leaves the number 0. Only the characters before the NUL are read.\<close>

definition network_convert_ip_p_to_n :: "string \<Rightarrow> u32" where
  "network_convert_ip_p_to_n ip_addr =
     (case inet_pton ip_addr of None \<Rightarrow> htonl 0 | Some bs \<Rightarrow> htonl (from_memory bs))"

section \<open>Round trip\<close>

lemma memory_bytes_less: "\<forall>b \<in> set (memory_bytes x). b < 256"
proof -
  have "unat x < 2 ^ 32" using unsigned_less [of x] by simp
  then show ?thesis by (simp add: memory_bytes_def less_mult_imp_div_less)
qed

lemma from_memory_bytes [simp]: "from_memory (memory_bytes x) = x"
proof -
  have "unat x div 65536 = unat x div 256 div 256" "unat x div 16777216 = unat x div 256 div 256 div 256"
    by (simp_all add: div_mult2_eq [symmetric])
  then have "unat x mod 256 + 256 * (unat x div 256 mod 256 + 256 * (unat x div 65536 mod 256 + 256 * (unat x div 16777216))) = unat x"
    by (simp only: mod_mult_div_eq)
  then have "(of_nat (unat x mod 256 + 256 * (unat x div 256 mod 256 + 256 * (unat x div 65536 mod 256 + 256 * (unat x div 16777216)))) :: u32)
      = of_nat (unat x)" by simp
  then show ?thesis by (simp add: memory_bytes_def)
qed

lemma unat_small: "n < 2 ^ 32 \<Longrightarrow> unat (of_nat n :: u32) = n"
  by (simp add: unsigned_of_nat take_bit_eq_mod)

lemma memory_bytes_from:
  assumes "b0 < 256" "b1 < 256" "b2 < 256" "b3 < 256"
  shows "memory_bytes (from_memory [b0, b1, b2, b3]) = [b0, b1, b2, b3]"
proof -
  let ?n = "b0 + 256 * (b1 + 256 * (b2 + 256 * b3))"
  have e: "from_memory [b0, b1, b2, b3] = of_nat ?n" by simp
  have "?n < 2 ^ 32" using assms by simp
  then have u: "unat (from_memory [b0, b1, b2, b3]) = ?n" unfolding e by (rule unat_small)
  have low: "(b + 256 * m) mod 256 = b \<and> (b + 256 * m) div 256 = m" if "b < 256" for b m :: nat using that by simp
  have "?n mod 256 = b0" "?n div 256 = b1 + 256 * (b2 + 256 * b3)"
    using low [OF assms(1), of "b1 + 256 * (b2 + 256 * b3)"] by blast+
  moreover have "?n div 65536 = ?n div 256 div 256" "?n div 16777216 = ?n div 256 div 256 div 256"
    by (simp_all only: div_mult2_eq [symmetric]) simp_all
  moreover have "(b1 + 256 * (b2 + 256 * b3)) mod 256 = b1" "(b1 + 256 * (b2 + 256 * b3)) div 256 = b2 + 256 * b3"
      "(b2 + 256 * b3) mod 256 = b2" "(b2 + 256 * b3) div 256 = b3"
    using low [OF assms(2), of "b2 + 256 * b3"] low [OF assms(3), of b3] by blast+
  ultimately have "?n mod 256 = b0" "?n div 256 mod 256 = b1" "?n div 65536 mod 256 = b2" "?n div 16777216 = b3"
    by simp_all
  then show ?thesis unfolding memory_bytes_def u by simp
qed

lemma htonl_bytes: "memory_bytes (htonl x) = rev (memory_bytes x)"
proof -
  obtain b0 b1 b2 b3 where b: "memory_bytes x = [b0, b1, b2, b3]" by (simp add: memory_bytes_def)
  then have "b0 < 256" "b1 < 256" "b2 < 256" "b3 < 256" using memory_bytes_less [of x] by auto
  then show ?thesis using b memory_bytes_from [of b3 b2 b1 b0] by (simp add: htonl_def)
qed

lemma htonl_twice [simp]: "htonl (htonl x) = x"
  by (subst htonl_def) (simp add: htonl_bytes)

lemma split_join:
  "fs \<noteq> [] \<Longrightarrow> \<forall>f \<in> set fs. CHR ''.'' \<notin> set f \<Longrightarrow> split_dots (join_dots fs) = fs"
proof (induction fs rule: join_dots.induct)
  case (2 f)
  then have "CHR ''.'' \<notin> set f" by simp
  then show ?case by (induction f) auto
next
  case (3 f g fs)
  then have "split_dots (join_dots (g # fs)) = g # fs" "CHR ''.'' \<notin> set f" by simp_all
  then show ?case by (induction f) auto
qed simp

lemma digit_no_dot: "is_digit c \<Longrightarrow> c \<noteq> CHR ''.'' \<and> c \<noteq> nul"
  by (auto simp: is_digit_def nul_def)

lemma dec_digits_head: "n \<noteq> 0 \<Longrightarrow> hd (dec_digits n) \<noteq> CHR ''0''"
proof (induction n rule: dec_digits.induct)
  case (1 n)
  show ?case
  proof (cases "n < 10")
    case True
    have "of_char (char_of (48 + n) :: char) = 48 + n" using True by simp
    moreover have "(of_char CHR ''0'' :: nat) = 48" by simp
    ultimately have "(char_of (48 + n) :: char) \<noteq> CHR ''0''" using 1(2) by force
    with True show ?thesis by (subst dec_digits.simps) simp
  next
    case False
    then have "hd (dec_digits (n div 10)) \<noteq> CHR ''0''" using 1 by simp
    with False dec_digits_all [of "n div 10"] show ?thesis by (subst dec_digits.simps) simp
  qed
qed

lemma octet_dec:
  assumes "n < 256"
  shows "octet_ok (dec_digits n) \<and> length (dec_digits n) \<le> 3"
proof -
  have "length (dec_digits n) > 1 \<longrightarrow> 10 \<le> n" by (subst dec_digits.simps) simp
  then have "length (dec_digits n) > 1 \<longrightarrow> hd (dec_digits n) \<noteq> CHR ''0''" using dec_digits_head [of n] by auto
  moreover have "length (dec_digits n) \<le> 3" using dec_digits_length [of n 2] assms by simp
  ultimately show ?thesis using assms dec_digits_all [of n] by (simp add: octet_ok_def atoi_dec_digits)
qed

lemma inet_round_trip:
  assumes "length bs = 4" "\<forall>b \<in> set bs. b < 256"
  shows "inet_pton (inet_ntop bs) = Some bs" "length (inet_ntop bs) \<le> 15" "nul \<notin> set (inet_ntop bs)"
proof -
  obtain b0 b1 b2 b3 where b: "bs = [b0, b1, b2, b3]"
    using assms(1) by (auto simp: length_Suc_conv numeral_eq_Suc)
  have d: "\<forall>b \<in> set bs. octet_ok (dec_digits b) \<and> length (dec_digits b) \<le> 3" using octet_dec assms(2) by blast
  have nd: "\<forall>b. CHR ''.'' \<notin> set (dec_digits b) \<and> nul \<notin> set (dec_digits b)"
    using dec_digits_all digit_no_dot by (auto simp: list_all_iff)
  have "split_dots (inet_ntop bs) = map dec_digits bs"
    unfolding inet_ntop_def by (rule split_join) (use b nd in auto)
  with d show "inet_pton (inet_ntop bs) = Some bs"
    by (simp add: inet_pton_def b atoi_dec_digits)
  show "length (inet_ntop bs) \<le> 15" "nul \<notin> set (inet_ntop bs)"
    using d nd by (auto simp: inet_ntop_def b nul_def)
qed

theorem address_round_trip:
  assumes "16 \<le> length out"
  shows "\<exists>blk. network_convert_ip_n_to_p ip out = Inr blk \<and> length blk = length out \<and>
    holds blk (inet_ntop (rev (memory_bytes ip))) \<and> network_convert_ip_p_to_n (cstr blk) = ip"
proof -
  let ?t = "inet_ntop (memory_bytes (htonl ip))"
  have m: "length (memory_bytes (htonl ip)) = 4" "\<forall>b \<in> set (memory_bytes (htonl ip)). b < 256"
    using memory_bytes_less by (simp add: memory_bytes_def, blast)
  note t = inet_round_trip [OF m]
  have z: "(?t @ nul # replicate (15 - length ?t) nul @ drop 16 out)[15 := nul] =
      ?t @ nul # replicate (15 - length ?t) nul @ drop 16 out"
  proof -
    have "(replicate (Suc k) nul @ d) ! k = nul" for k d
      by (simp only: nth_append length_replicate lessI if_True nth_replicate)
    then have "(nul # replicate k nul @ d) ! k = nul" for k d by simp
    then have "(?t @ nul # replicate (15 - length ?t) nul @ drop 16 out) ! 15 = nul" using t(2) by (simp add: nth_append)
    then show ?thesis by (metis list_update_id)
  qed
  have "network_convert_ip_n_to_p ip out = Inr (?t @ nul # replicate (15 - length ?t) nul @ drop 16 out)"
    using assms t(2) z by (simp add: network_convert_ip_n_to_p_def memcpy_def blit_def store_def Let_def)
  then show ?thesis
    using t m assms htonl_twice [of ip, unfolded htonl_def [of ip]]
    by (simp add: network_convert_ip_p_to_n_def holds_def htonl_bytes)
qed

end
