(* ===== verification/Senders.thy ===== *)
theory Senders
  imports ServerProps NetUtils
begin

text \<open>
  The programs that send to a server (\<^verbatim>\<open>tcp_client.cpp\<close>,
  \<^verbatim>\<open>tcp_client_string_sender.cpp\<close>, \<^verbatim>\<open>tcp_client_fix_sizestr_sender.cpp\<close>): what
  the turns of their loops put on the wire once the socket is connected, and what becomes of it in a
  server, whose accepted connections have the demarcator of variable-size messages. Numbers lie in
  memory with the least significant byte first.
\<close>

section \<open>The programs\<close>

text \<open>\<^verbatim>\<open>tcp_client.cpp\<close>: two packed structs from four numbers that the user types.\<close>

record test_struct_t =
  msg_size :: u16
  ts_a :: u32
  ts_b :: u32

definition test_struct_bytes :: "test_struct_t \<Rightarrow> byte list" where
  "test_struct_bytes t =
     [of_nat (unat (msg_size t) mod 256), of_nat (unat (msg_size t) div 256)] @
     map of_nat (memory_bytes (ts_a t)) @ map of_nat (memory_bytes (ts_b t))"

definition sizeof_test_struct :: u16 where "sizeof_test_struct = 10"

text \<open>One turn: the user's answers, and what is sent, or the end of the program.\<close>

definition tcp_client_turn :: "u32 \<times> u32 \<times> u32 \<times> u32 \<Rightarrow> byte list option" where
  "tcp_client_turn = (\<lambda>(a1, b1, a2, b2).
     if a1 = 0 \<and> b1 = 0 then None
     else Some (test_struct_bytes \<lparr>msg_size = sizeof_test_struct, ts_a = a1, ts_b = b1\<rparr> @
                test_struct_bytes \<lparr>msg_size = sizeof_test_struct, ts_a = a2, ts_b = b2\<rparr>))"

fun tcp_client_sends :: "(u32 \<times> u32 \<times> u32 \<times> u32) list \<Rightarrow> byte list" where
  "tcp_client_sends [] = []"
| "tcp_client_sends (x # xs) = (case tcp_client_turn x of None \<Rightarrow> [] | Some bs \<Rightarrow> bs @ tcp_client_sends xs)"

text \<open>\<^verbatim>\<open>tcp_client_string_sender.cpp\<close>: two strings without any header.\<close>

definition string_sender_turn :: "byte list" where
  "string_sender_turn = map byte_of_char ''Hello Abhishek, '' @ map byte_of_char ''how are you''"

definition string_sender_sends :: "nat \<Rightarrow> byte list" where
  "string_sender_sends n = concat (replicate n string_sender_turn)"

text \<open>
  \<^verbatim>\<open>tcp_client_fix_sizestr_sender.cpp\<close> as it is compiled: a string with the header of
  \<open>send_msg\<close>, the branch without headers is not compiled.
\<close>

definition fix_sizestr_payload :: "byte list" where
  "fix_sizestr_payload = map byte_of_char ''This is fixed size demarcation''"

definition fix_sizestr_turn :: "bool \<Rightarrow> byte list res" where
  "fix_sizestr_turn ok = send_msg ok fix_sizestr_payload (of_nat (length fix_sizestr_payload))"

section \<open>What becomes of it\<close>

text \<open>
  The peer's turns and the server's: some bytes arrive on the socket, then the service thread runs
  one round on it, with the kernel's schedule of that round.
\<close>

definition peer_sends :: "int \<Rightarrow> byte list \<Rightarrow> server \<Rightarrow> server" where
  "peer_sends f bs s = s\<lparr>socks := (socks s)(f := (socks s f)\<lparr>pending := pending (socks s f) @ bs\<rparr>)\<rparr>"

fun serve_rounds :: "int \<Rightarrow> (byte list \<times> nat list) list \<Rightarrow> server \<Rightarrow> server res option" where
  "serve_rounds f [] s = Some (Inr s)"
| "serve_rounds f ((bs, ks) # rs) s =
     (case serve_round [(f, ks)] (peer_sends f bs s) of
        None \<Rightarrow> None
      | Some (Inl e) \<Rightarrow> Some (Inl e)
      | Some (Inr s') \<Rightarrow> serve_rounds f rs s')"

text \<open>A client that the service polls, alone on its descriptor, with a working demarcator.\<close>

definition polled :: "server \<Rightarrow> addr \<Rightarrow> int \<Rightarrow> bool" where
  "polled s a f \<longleftrightarrow> client_msg_recvd_fn s = AppFn \<and> conn_ok (heap s) a \<and> conn_fd (heap s) a = f \<and>
     (\<exists>m. tcp_client_svc_mgr s = Some m \<and> a \<in> set (svc_db m) \<and> set (svc_db m) \<subseteq> dom (heap s) \<and>
       (\<forall>x \<in> set (svc_db m). x \<noteq> a \<longrightarrow> conn_fd (heap s) x \<noteq> f))"

lemma polled_peer_sends [simp]: "polled (peer_sends f bs s) a g = polled s a g"
  by (simp add: polled_def peer_sends_def)

lemma unframed_prefix: "unframed (xs @ ys) \<Longrightarrow> unframed xs"
proof -
  assume u: "unframed (xs @ ys)"
  have "parse_frames (take n xs) = ([], take n xs)" if n: "n \<le> 256" for n
  proof -
    have "take (min n (length xs)) (xs @ ys) = take n xs" by (simp add: min_def)
    with u n show ?thesis unfolding unframed_def by (metis min.coboundedI1)
  qed
  then show ?thesis by (simp add: unframed_def)
qed

text \<open>A round on bytes in which the demarcator finds no message.\<close>

lemma serve_round_unframed:
  assumes "polled s a f" "conn_buffered (heap s) a = take 256 xs"
    and "socks s f = \<lparr>pending = drop 256 xs @ bs, peer_closed = False, sock_error = False\<rparr>"
    and "unframed (xs @ bs)" "length (xs @ bs) < length ks"
  shows "\<exists>s'. serve_round [(f, ks)] s = Some (Inr s') \<and> polled s' a f \<and> delivered s' = delivered s \<and>
    conn_buffered (heap s') a = take 256 (xs @ bs) \<and>
    socks s' f = \<lparr>pending = drop 256 (xs @ bs), peer_closed = False, sock_error = False\<rparr>"
proof -
  obtain m where m: "tcp_client_svc_mgr s = Some m" "a \<in> set (svc_db m)" "set (svc_db m) \<subseteq> dom (heap s)"
      "\<forall>x \<in> set (svc_db m). x \<noteq> a \<longrightarrow> conn_fd (heap s) x \<noteq> f"
    and app: "client_msg_recvd_fn s = AppFn" and ok: "conn_ok (heap s) a" and f: "conn_fd (heap s) a = f"
    using assms(1) by (auto simp: polled_def)
  obtain c where c: "heap s a = Some c" using m(2,3) by auto
  then have found: "GetClientByFd (heap s) (svc_db m) f = Inr (Some a)"
    using m(2-4) f by (intro GetClientByFd_found) (auto simp: conn_fd_def)
  let ?w = "\<lparr>rx_heap = heap s, rx_svc = m, rx_socks = socks s, rx_out = [], rx_closed = []\<rparr>"
  have sk: "conn_sock ?w a = \<lparr>pending = drop 256 xs @ bs, peer_closed = False, sock_error = False\<rparr>"
    using f assms(3) by (simp add: conn_sock_def)
  have all: "conn_buffered (rx_heap ?w) a @ pending (conn_sock ?w a) = xs @ bs"
    using sk assms(2) by (simp flip: append_assoc)
  have start: "conn_ok (rx_heap ?w) a" "\<not> sock_error (conn_sock ?w a)" "\<not> peer_closed (conn_sock ?w a)"
      "length (conn_buffered (rx_heap ?w) a) \<le> 256" "length (pending (conn_sock ?w a)) < length ks"
    using ok sk assms(2,5) by simp_all
  from recv_loop_unframed [of ?w a ks f, unfolded all, OF start(1-4) assms(4) start(5)]
  obtain w' where w': "recv_loop True a f ks ?w
        = Some (Inr (if 256 \<le> length (xs @ bs) then BackPressure else WouldBlock, w'))"
      "conn_ok (rx_heap w') a" "conn_buffered (rx_heap w') a = take 256 (xs @ bs)"
      "rx_socks w' = (rx_socks ?w)(conn_fd (rx_heap ?w) a := (conn_sock ?w a)\<lparr>pending := drop 256 (xs @ bs)\<rparr>)"
      "conn_fd (rx_heap w') a = conn_fd (rx_heap ?w) a" "rx_out w' = rx_out ?w" "rx_svc w' = rx_svc ?w"
      "\<forall>x. x \<noteq> a \<longrightarrow> rx_heap w' x = rx_heap ?w x"
    by blast
  let ?s = "s\<lparr>heap := rx_heap w', tcp_client_svc_mgr := Some (rx_svc w'), socks := rx_socks w',
    delivered := delivered s @ rx_out w', closed_fds := closed_fds s @ rx_closed w'\<rparr>"
  have r: "serve_round [(f, ks)] s = Some (Inr ?s)"
    using m(1) app found w'(1) by (simp add: serve_round_def)
  have "rx_heap w' a \<noteq> None" using w'(2) by (auto simp: conn_ok_def split: option.splits)
  then have dom: "set (svc_db m) \<subseteq> dom (rx_heap w')" using m(3) w'(8) by (simp add: subset_iff domIff) metis
  have fds: "\<forall>x \<in> set (svc_db m). x \<noteq> a \<longrightarrow> conn_fd (rx_heap w') x \<noteq> f"
    using m(4) w'(8) by (simp add: conn_fd_def)
  have "polled ?s a f" using m(2) app dom fds w'(2,5,7) f by (simp add: polled_def)
  moreover have "socks ?s f = \<lparr>pending = drop 256 (xs @ bs), peer_closed = False, sock_error = False\<rparr>"
    using w'(4) sk f by simp
  ultimately show ?thesis using r w'(3,6) by (intro exI [of _ ?s]) simp
qed

lemma serve_rounds_unframed:
  assumes "polled s a f" "conn_buffered (heap s) a = take 256 xs"
    and "socks s f = \<lparr>pending = drop 256 xs, peer_closed = False, sock_error = False\<rparr>"
    and "unframed (xs @ concat (map fst rs))"
    and "\<forall>(bs, ks) \<in> set rs. length (xs @ concat (map fst rs)) < length ks"
  shows "\<exists>s'. serve_rounds f rs s = Some (Inr s') \<and> polled s' a f \<and> delivered s' = delivered s \<and>
    conn_buffered (heap s') a = take 256 (xs @ concat (map fst rs)) \<and>
    socks s' f = \<lparr>pending = drop 256 (xs @ concat (map fst rs)), peer_closed = False, sock_error = False\<rparr>"
  using assms
proof (induction rs arbitrary: s xs)
  case Nil
  then show ?case by simp
next
  case (Cons r rs)
  obtain bs ks where r: "r = (bs, ks)" by (cases r)
  let ?s = "peer_sends f bs s"
  have all: "xs @ concat (map fst (r # rs)) = (xs @ bs) @ concat (map fst rs)" by (simp add: r)
  have "unframed (xs @ bs)" using Cons.prems(4) unfolding all by (rule unframed_prefix)
  moreover have "length (xs @ bs) < length ks" using Cons.prems(5) r by auto
  moreover have "polled ?s a f" using Cons.prems(1) by simp
  moreover have "conn_buffered (heap ?s) a = take 256 xs" "delivered ?s = delivered s"
      "socks ?s f = \<lparr>pending = drop 256 xs @ bs, peer_closed = False, sock_error = False\<rparr>"
    using Cons.prems(2,3) by (simp_all add: peer_sends_def)
  ultimately obtain t where t: "serve_round [(f, ks)] ?s = Some (Inr t)" "polled t a f"
      "delivered t = delivered s" "conn_buffered (heap t) a = take 256 (xs @ bs)"
      "socks t f = \<lparr>pending = drop 256 (xs @ bs), peer_closed = False, sock_error = False\<rparr>"
    using serve_round_unframed [of ?s a f xs bs ks] by auto
  have "\<forall>(bs', ks') \<in> set rs. length ((xs @ bs) @ concat (map fst rs)) < length ks'"
    using Cons.prems(5) unfolding all by auto
  from Cons.IH [OF t(2,4,5) Cons.prems(4) [unfolded all] this] show ?case
    using t(1,3) unfolding all by (simp add: r)
qed

text \<open>
  A stream that starts with the header of too long a message, cut anyhow into rounds: nothing is ever
  delivered, and once the ring is full no round reads any more.
\<close>

lemma oversized_stream_wedges:
  assumes "polled s a f" "conn_buffered (heap s) a = []"
    and "socks s f = \<lparr>pending = [], peer_closed = False, sock_error = False\<rparr>"
    and "concat (map fst rs) = [] \<or> oversized (concat (map fst rs) @ future)"
    and "\<forall>(bs, ks) \<in> set rs. length (concat (map fst rs)) < length ks"
  shows "\<exists>s'. serve_rounds f rs s = Some (Inr s') \<and> delivered s' = delivered s \<and>
    conn_buffered (heap s') a = take 256 (concat (map fst rs)) \<and>
    pending (socks s' f) = drop 256 (concat (map fst rs)) \<and>
    (256 \<le> length (concat (map fst rs)) \<longrightarrow> (\<forall>cb fd k js w. rx_heap w = heap s' \<longrightarrow>
      recv_loop cb a fd (k # js) w = Some (Inr (BackPressure, w))))"
proof -
  have "unframed (concat (map fst rs))" using assms(4) oversized_unframed by (metis unframed_Nil)
  with serve_rounds_unframed [of s a f "[]" rs] assms(1-3,5) obtain s' where
    s': "serve_rounds f rs s = Some (Inr s')" "polled s' a f" "delivered s' = delivered s"
      "conn_buffered (heap s') a = take 256 (concat (map fst rs))"
      "socks s' f = \<lparr>pending = drop 256 (concat (map fst rs)), peer_closed = False, sock_error = False\<rparr>"
    by auto
  moreover have "recv_loop cb a fd (k # js) w = Some (Inr (BackPressure, w))"
    if "256 \<le> length (concat (map fst rs))" "rx_heap w = heap s'" for cb fd k js w
    using that s'(2,4) by (intro recv_loop_full) (simp_all add: polled_def)
  ultimately show ?thesis by auto
qed

lemma tcp_client_oversized: "tcp_client_sends xs \<noteq> [] \<Longrightarrow> oversized (tcp_client_sends xs)"
  by (cases xs) (auto simp: tcp_client_turn_def test_struct_bytes_def sizeof_test_struct_def oversized_def
      MAX_PAYLOAD_def unat_ntohs_bytes split: option.splits if_splits)

lemma string_sender_oversized: "0 < n \<Longrightarrow> oversized (string_sender_sends n)"
  by (cases n) (simp_all add: string_sender_sends_def string_sender_turn_def oversized_def MAX_PAYLOAD_def
      byte_of_char_def unat_ntohs_bytes)

lemma fix_sizestr_frame: "fix_sizestr_turn True = Inr (frame fix_sizestr_payload)"
proof -
  have "length fix_sizestr_payload = 30" by (simp add: fix_sizestr_payload_def)
  then show ?thesis using send_msg_frame [of 30 fix_sizestr_payload] by (simp add: fix_sizestr_turn_def)
qed

end
