(* ===== verification/CmdShell.thy ===== *)
theory CmdShell
  imports CmdHierProps
begin

text \<open>
  The state of the running command line around the tree (\<^verbatim>\<open>parser.c\<close>,
  \<^verbatim>\<open>clistd.c\<close>): standard input, the buffers of the parser, files, and the handlers of
  the built-in commands that do not start the parser again.

  Standard input and files are strings that \<^verbatim>\<open>fgets\<close> and \<^verbatim>\<open>scanf\<close> consume.
  Printed lines go to a list, without terminal colours. The serialized buffer that handlers get
  as an argument is always the global one. A result \<open>None\<close> is a call that does not return.
\<close>

section \<open>Sequencing of calls that may not return\<close>

fun obind :: "'b res option \<Rightarrow> ('b \<Rightarrow> 'c res option) \<Rightarrow> 'c res option" where
  "obind None k = None"
| "obind (Some (Inl e)) k = Some (Inl e)"
| "obind (Some (Inr v)) k = k v"

lemma obind_cong [fundef_cong]:
  "m = m' \<Longrightarrow> (\<And>v. m' = Some (Inr v) \<Longrightarrow> k v = k' v) \<Longrightarrow> obind m k = obind m' k'"
  by (cases "(m', k)" rule: obind.cases) auto

lemma obind_Inr [simp]: "obind m k = Some (Inr v) \<longleftrightarrow> (\<exists>u. m = Some (Inr u) \<and> k u = Some (Inr v))"
  by (cases "(m, k)" rule: obind.cases) auto

lemma obind_None: "obind m k = None \<longleftrightarrow> m = None \<or> (\<exists>u. m = Some (Inr u) \<and> k u = None)"
  by (cases "(m, k)" rule: obind.cases) auto

section \<open>Modes and results\<close>

datatype op_mode = CONFIG_DISABLE | CONFIG_ENABLE | OPERATIONAL | MODE_UNKNOWN

datatype CMD_PARSE_STATUS =
  COMPLETE | ERROR | INVALID_LEAF | USER_INVALID_LEAF | CMD_NOT_FOUND | INCOMPLETE_COMMAND
| MULTIPLE_MATCHING_COMMANDS | UNKNOWN

section \<open>Streams\<close>

definition newline :: char where "newline = CHR 0x0A"

text \<open>\<^verbatim>\<open>fgets(buf, n, f)\<close>: at most \<open>n - 1\<close> characters, up to and with the newline.\<close>

definition fgets :: "nat \<Rightarrow> string \<Rightarrow> (string \<times> string) option" where
  "fgets n s =
     (let k = min (n - 1) (if newline \<in> set s then Suc (length (takeWhile (\<lambda>c. c \<noteq> newline) s)) else length s)
      in if s = [] then None else Some (take k s, drop k s))"

lemma fgets_shorter: "fgets n s = Some (l, r) \<Longrightarrow> 1 < n \<Longrightarrow> length r < length s"
  by (auto simp: fgets_def Let_def split: if_splits)

text \<open>What a loop of \<^verbatim>\<open>fgets\<close> reads from a file.\<close>

function file_lines :: "nat \<Rightarrow> string \<Rightarrow> string list" where
  "file_lines n s =
     (if n \<le> 1 then []
      else case fgets n s of None \<Rightarrow> [] | Some (l, r) \<Rightarrow> l # file_lines n r)"
  by pat_completeness auto
termination by (relation "measure (\<lambda>(n, s). length s)") (auto intro: fgets_shorter)

declare file_lines.simps [simp del]

text \<open>
  \<^verbatim>\<open>scanf("%d", ...)\<close>: the number, unless there is none, and the rest of the input.
  \<^verbatim>\<open>scanf("%c", ...)\<close> takes one character.
\<close>

definition scanf_d :: "string \<Rightarrow> (int option \<times> string) res" where
  "scanf_d s =
     (let s = dropWhile isspace s;
          (sgn, s) = (case s of [] \<Rightarrow> (1 :: int, s)
             | c # r \<Rightarrow> if c = CHR ''-'' then (-1, r) else if c = CHR ''+'' then (1, r) else (1, s));
          ds = takeWhile is_digit s
      in if ds = [] then Inr (None, s)
         else rbind (i32 (sgn * atoi_digits ds)) (\<lambda>v. Inr (Some v, dropWhile is_digit s)))"

definition scanf_c :: "string \<Rightarrow> string" where
  "scanf_c s = drop 1 s"

section \<open>State\<close>

text \<open>
  The statics of the unit test runner; the message queue holds what the application sent and
  nobody received yet.
\<close>

record ut_state =
  TC_RUNNING :: bool
  ut_parser_recv_buff :: string
  ut_parser_recv_buff_data_size :: int
  ut_parser_debug :: bool
  int_store1 :: "64 word"
  int_store2 :: "64 word"
  int_store3 :: "64 word"
  ut_msg_q :: "string list"

text \<open>
  \<open>'a\<close> is the state of the application, \<open>sh_input\<close> and \<open>sh_last\<close> are the
  parser's input buffer and its copy of the last command, \<open>sh_code\<close> is the record for the
  command code, \<open>sh_free_fds\<close> is how many files the process may still open before it runs out of
  descriptors.
\<close>

record 'a shell =
  sh_cli :: cli
  sh_stdin :: string
  sh_input :: string
  sh_last :: string
  sh_code :: tlv_struct
  sh_recording :: bool
  sh_cmd_counter :: nat
  sh_files :: "string \<Rightarrow> string option"
  sh_free_fds :: nat
  sh_out :: "string list"
  sh_ut :: ut_state
  sh_app :: 'a

text \<open>
  What the application and the machine add: command handlers, validation and display callbacks,
  the contents of fresh memory, and of an uninitialised integer.
\<close>

record 'a env =
  ev_callback :: "nat \<Rightarrow> pptr \<Rightarrow> op_mode \<Rightarrow> 'a shell \<Rightarrow> 'a shell res"
  ev_user_validation :: "nat \<Rightarrow> string \<Rightarrow> bool"
  ev_disp :: "nat \<Rightarrow> pptr \<Rightarrow> 'a shell \<Rightarrow> 'a shell res"
  ev_junk :: "nat \<Rightarrow> byte"
  ev_uninit :: int

definition say :: "string \<Rightarrow> 'a shell \<Rightarrow> 'a shell" where
  "say l s = s\<lparr>sh_out := sh_out s @ [l]\<rparr>"

text \<open>
  \<^verbatim>\<open>fopen(name, "r")\<close> takes a descriptor and fails when there is none left or no such
  file; \<^verbatim>\<open>fclose\<close> gives it back.
\<close>

definition fopen_read :: "string \<Rightarrow> 'a shell \<Rightarrow> (string \<times> 'a shell) option" where
  "fopen_read name s =
     (if sh_free_fds s = 0 then None
      else case sh_files s name of None \<Rightarrow> None
        | Some f \<Rightarrow> Some (f, s\<lparr>sh_free_fds := sh_free_fds s - 1\<rparr>))"

definition fclose :: "'a shell \<Rightarrow> 'a shell" where
  "fclose s = s\<lparr>sh_free_fds := Suc (sh_free_fds s)\<rparr>"

definition on_cli :: "(cli \<Rightarrow> cli res) \<Rightarrow> 'a shell \<Rightarrow> 'a shell res" where
  "on_cli f s = rbind (f (sh_cli s)) (\<lambda>c. Inr (s\<lparr>sh_cli := c\<rparr>))"

definition on_cli_opt :: "(cli \<Rightarrow> cli res option) \<Rightarrow> 'a shell \<Rightarrow> 'a shell res option" where
  "on_cli_opt f s = obind (f (sh_cli s)) (\<lambda>c. Some (Inr (s\<lparr>sh_cli := c\<rparr>)))"

definition on_buff :: "(ser_buff \<Rightarrow> ser_buff res) \<Rightarrow> 'a shell \<Rightarrow> 'a shell res" where
  "on_buff f s = on_cli (\<lambda>c. rbind (f (cl_tlv_buff c)) (\<lambda>b. Inr (c\<lparr>cl_tlv_buff := b\<rparr>))) s"

definition on_buff_opt :: "(ser_buff \<Rightarrow> ser_buff res option) \<Rightarrow> 'a shell \<Rightarrow> 'a shell res option" where
  "on_buff_opt f s = on_cli_opt (\<lambda>c. obind (f (cl_tlv_buff c)) (\<lambda>b. Some (Inr (c\<lparr>cl_tlv_buff := b\<rparr>)))) s"

abbreviation params :: "'a shell \<Rightarrow> param_heap" where
  "params s \<equiv> cl_params (sh_cli s)"

abbreviation cursor :: "'a shell \<Rightarrow> pptr option" where
  "cursor s \<equiv> get_cmd_tree_cursor (sh_cli s)"

abbreviation tlv_buff :: "'a shell \<Rightarrow> ser_buff" where
  "tlv_buff s \<equiv> cl_tlv_buff (sh_cli s)"

lemmas shell_ops = on_cli_def on_cli_opt_def on_buff_def on_buff_opt_def say_def

section \<open>Validation of leaf values\<close>

text \<open>
  \<^verbatim>\<open>leaf_handler_array\<close>: one function per type; the entry of \<^verbatim>\<open>INVALID\<close> is never
  set. Values are checked for booleans only.
\<close>

definition boolean_validation_handler :: "string \<Rightarrow> bool" where
  "boolean_validation_handler v \<longleftrightarrow> strn_prefix v ''true'' \<or> strn_prefix v ''false''"

fun leaf_handler :: "leaf_type_t \<Rightarrow> string \<Rightarrow> bool res" where
  "leaf_handler LT_BOOLEAN v = Inr (boolean_validation_handler v)"
| "leaf_handler LT_INVALID v = Inl NullDeref"
| "leaf_handler LT_LEAF_MAX v = Inl OutOfBounds"
| "leaf_handler _ v = Inr True"

definition enable_disable_validation_handler_fn :: "string \<Rightarrow> bool" where
  "enable_disable_validation_handler_fn v \<longleftrightarrow> strn_prefix v ''enable'' \<or> strn_prefix v ''disable''"

fun grep_pattern_validation :: "string \<Rightarrow> bool" where
  "grep_pattern_validation [] = True"
| "grep_pattern_validation (c # cs) = (if c = CHR '' '' then False else grep_pattern_validation cs)"

definition INVOKE_LEAF_USER_VALIDATION_CALLBACK :: "'a env \<Rightarrow> leaf_t \<Rightarrow> string \<Rightarrow> bool" where
  "INVOKE_LEAF_USER_VALIDATION_CALLBACK ev l v =
     (case lf_user_validation l of
        None \<Rightarrow> True
      | Some enable_disable_validation_handler \<Rightarrow> enable_disable_validation_handler_fn v
      | Some (app_validation n) \<Rightarrow> ev_user_validation ev n v)"

section \<open>Handlers\<close>

text \<open>\<^verbatim>\<open>config console name\<close>: every leaf in the buffer sets the name, or resets it.\<close>

fun console_name_loop :: "op_mode \<Rightarrow> tlv_struct list \<Rightarrow> 'a shell \<Rightarrow> 'a shell res" where
  "console_name_loop eod [] s = Inr s"
| "console_name_loop eod (t # ts) s =
     rbind (if eod = CONFIG_ENABLE then on_cli (set_device_name (Some (cstr (tlv_value t)))) s
            else if strn_prefix (cstr (cl_console (sh_cli s))) (cstr (tlv_value t))
            then on_cli (set_device_name (Some ''TcpServerProject'')) s
            else Inr (say ''Error : Incorrect device name'' s)) (console_name_loop eod ts)"

definition config_console_name_handler_fn :: "op_mode \<Rightarrow> 'a shell \<Rightarrow> 'a shell res" where
  "config_console_name_handler_fn eod s =
     rbind (TLV_LOOP (Some (tlv_buff s))) (\<lambda>ts. console_name_loop eod ts s)"

text \<open>\<^verbatim>\<open>printf("%-31s")\<close> and the like.\<close>

definition pad :: "nat \<Rightarrow> string \<Rightarrow> string" where
  "pad n t = t @ replicate (n - length t) CHR '' ''"

fun sub_options_lines :: "param_heap \<Rightarrow> pptr option list \<Rightarrow> string list res" where
  "sub_options_lines h [] = Inr []"
| "sub_options_lines h (None # os) = Inr []"
| "sub_options_lines h (Some p # os) =
     rbind (pget h p) (\<lambda>c.
     rbind (sub_options_lines h os) (\<lambda>ls.
       if p_ishidden c then Inr ls
       else case p_kind c of
         LeafP l \<Rightarrow> Inr ((''nxt leaf -> '' @ pad 32 (get_str_leaf_type (lf_type l)) @ ''  |   '' @ p_help c) # ls)
       | CmdP n \<Rightarrow> Inr ((''nxt cmd  -> '' @ pad 31 n @ ''   |   '' @ p_help c) # ls)
       | NoCmdP n \<Rightarrow> Inr ((''nxt cmd  -> '' @ pad 31 n @ ''   |   '' @ p_help c) # ls)))"

text \<open>
  The callback of \<^verbatim>\<open>?\<close>. A parameter with a display callback has a record collected for
  it in place of the command code.
\<close>

definition display_sub_options_callback_fn :: "'a env \<Rightarrow> pptr \<Rightarrow> 'a shell \<Rightarrow> 'a shell res option" where
  "display_sub_options_callback_fn ev p s =
     obind (Some (rbind (pget (params s) p) (\<lambda>c.
       let s = (if p_callback c \<noteq> None then say ''<Enter>'' s else s) in
       rbind (sub_options_lines (params s) (drop CHILDREN_START_INDEX (p_options c))) (\<lambda>ls.
         Inr (c, s\<lparr>sh_out := sh_out s @ ls\<rparr>))))) (\<lambda>(c, s).
       case p_disp_callback c of
         None \<Rightarrow> Some (Inr s)
       | Some d \<Rightarrow>
           obind (on_buff_opt (\<lambda>b. collect_tlv (ev_junk ev) (Some b) tlv_zero) s) (\<lambda>s.
             Some (ev_disp ev d p (say ''possible values :'' s))))"

text \<open>
  \<^verbatim>\<open>dump_all_commands\<close> walks the tree below a parameter; the token array holds the path,
  one name per level, and a complete command is printed. Below the 16th level it runs past the
  array.
\<close>

function dump_all_commands ::
    "param_heap \<Rightarrow> pptr option \<Rightarrow> nat \<Rightarrow> token_array \<times> string list \<Rightarrow> (token_array \<times> string list) res"
  and dump_all_options ::
    "param_heap \<Rightarrow> pptr option list \<Rightarrow> nat \<Rightarrow> token_array \<times> string list \<Rightarrow> (token_array \<times> string list) res"
where
  "dump_all_commands h po i st =
     (case po of
        None \<Rightarrow> Inr st
      | Some p \<Rightarrow>
          (case pget h p of
             Inl e \<Rightarrow> Inl e
           | Inr c \<Rightarrow>
               if IS_PARAM_NO_CMD c then Inr st
               else if \<not> i < MAX_CMD_TREE_DEPTH then Inl OutOfBounds
               else
                 rbind (case p_kind c of
                          LeafP l \<Rightarrow> Inr (CHR ''<'' # lf_id l @ ''>'')
                        | _ \<Rightarrow> GET_CMD_NAME c) (\<lambda>w.
                 rbind (untokenize i (fst st)) (\<lambda>ts.
                 rbind (tokenize w (length w) i ts) (\<lambda>ts.
                 rbind (dump_all_options h (drop CHILDREN_START_INDEX (p_options c)) (Suc i) (ts, snd st)) (\<lambda>st.
                   if p_callback c \<noteq> None
                   then rbind (print_tokens 0 (Suc i) (fst st)) (\<lambda>ws.
                          Inr (fst st, snd st @ [concat (map (\<lambda>w. w @ '' '') ws)]))
                   else Inr st))))))"
| "dump_all_options h [] i st = Inr st"
| "dump_all_options h (po # os) i st =
     rbind (dump_all_commands h po i st) (\<lambda>st. dump_all_options h os i st)"
  by pat_completeness auto
termination
  by (relation "measures [\<lambda>x. case x of Inl (h, po, i, st) \<Rightarrow> 2 * (17 - i)
                                     | Inr (h, os, i, st) \<Rightarrow> Suc (2 * (17 - i)),
                          \<lambda>x. case x of Inl (h, po, i, st) \<Rightarrow> 0 | Inr (h, os, i, st) \<Rightarrow> length os]")
    (auto simp: MAX_CMD_TREE_DEPTH_def)

declare dump_all_commands.simps [simp del]

definition display_cmd_expansion_callback_fn :: "pptr option \<Rightarrow> 'a shell \<Rightarrow> 'a shell res" where
  "display_cmd_expansion_callback_fn po s =
     rbind (re_init_tokens MAX_CMD_TREE_DEPTH (cl_tokens (sh_cli s))) (\<lambda>ts.
     rbind (dump_all_commands (params s) po 0 (ts, [])) (\<lambda>(ts, ls).
       Inr (s\<lparr>sh_cli := (sh_cli s)\<lparr>cl_tokens := ts\<rparr>, sh_out := sh_out s @ ls\<rparr>)))"

definition show_resgistered_cmd_handler_fn :: "'a shell \<Rightarrow> 'a shell res" where
  "show_resgistered_cmd_handler_fn s =
     rbind (re_init_tokens MAX_CMD_TREE_DEPTH (cl_tokens (sh_cli s))) (\<lambda>ts.
     rbind (dump_all_commands (params s) (Some libcli_get_root) 0 (ts, [])) (\<lambda>(ts, ls).
       Inr (s\<lparr>sh_cli := (sh_cli s)\<lparr>cl_tokens := ts\<rparr>, sh_out := sh_out s @ ls\<rparr>)))"

text \<open>
  \<^verbatim>\<open>show history\<close>: the lines of the history file are numbered, their offsets go into
  an array of 30. The number that is typed selects one; the last number stands for the end of the
  file, an empty command. \<open>cmd_choice\<close> has no value when no number is typed. \<open>parse\<close> is
  the parser.
\<close>

definition MAX_SAVED_CMDS :: nat where "MAX_SAVED_CMDS = 30"
definition FILE_CMD_SIZE_MAX :: nat where "FILE_CMD_SIZE_MAX = 1024"
definition CMD_HIST_RECORD_FILE :: string where "CMD_HIST_RECORD_FILE = ''CMD_HIST_RECORD_FILE.txt''"

type_synonym 'a parse_fn = "string \<Rightarrow> 'a shell \<Rightarrow> (CMD_PARSE_STATUS \<times> bool \<times> 'a shell) res option"

definition history_choice :: "'a env \<Rightarrow> 'a shell \<Rightarrow> (int \<times> 'a shell) res" where
  "history_choice ev s =
     rbind (scanf_d (sh_stdin s)) (\<lambda>(v, r).
       Inr (case v of None \<Rightarrow> ev_uninit ev | Some v \<Rightarrow> v, s\<lparr>sh_stdin := r\<rparr>))"

definition show_history_callback_fn :: "'a env \<Rightarrow> 'a parse_fn \<Rightarrow> 'a shell \<Rightarrow> 'a shell res option" where
  "show_history_callback_fn ev parse s =
     (case fopen_read CMD_HIST_RECORD_FILE s of
        None \<Rightarrow> Some (Inr (say ''Error : History file could not be read'' s))
      | Some (f, s) \<Rightarrow>
          let ls = file_lines FILE_CMD_SIZE_MAX f;
              s = s\<lparr>sh_out := sh_out s @ map (\<lambda>i. dec_digits i @ ''. '' @ ls ! i) [0..<length ls]\<rparr>
          in if \<not> length ls < MAX_SAVED_CMDS then Some (Inl OutOfBounds)
             else
               obind (Some (history_choice ev s)) (\<lambda>(c, s).
                 if \<not> (0 \<le> c \<and> c < int (length ls) + 1) then Some (Inr (fclose (say ''Invalid choice'' s)))
                 else
                   let cmd = (if nat c < length ls then ls ! nat c else [])
                   in obind (parse (cmd @ [nul]) (say (''Command to be triggered : '' @ cmd) s))
                        (\<lambda>(_, _, s). Some (Inr (fclose s)))))"

text \<open>
  The history file gets at most 30 commands of a session. Opening it for appending creates it, and
  fails only when there is no descriptor left; the null pointer is then written to.
\<close>

definition record_command :: "string \<Rightarrow> 'a shell \<Rightarrow> 'a shell res" where
  "record_command cmd s =
     (if sh_cmd_counter s = MAX_SAVED_CMDS then Inr s
      else if sh_free_fds s = 0 then Inl NullDeref
      else Inr (s\<lparr>sh_files := (sh_files s)(CMD_HIST_RECORD_FILE \<mapsto>
               (case sh_files s CMD_HIST_RECORD_FILE of None \<Rightarrow> [] | Some f \<Rightarrow> f) @ cmd @ [newline]),
             sh_cmd_counter := Suc (sh_cmd_counter s)\<rparr>))"

text \<open>\<^verbatim>\<open>repeat\<close> waits for a key and parses the last command again.\<close>

definition repeat_last_command_fn :: "'a parse_fn \<Rightarrow> 'a shell \<Rightarrow> 'a shell res option" where
  "repeat_last_command_fn parse s =
     obind (parse (sh_last s)
             ((say (''prev : '' @ cstr (sh_last s)) s)\<lparr>sh_stdin := scanf_c (sh_stdin s)\<rparr>))
       (\<lambda>(_, _, s). Some (Inr s))"

text \<open>\<open>invoke\<close> calls a callback on a parameter.\<close>

type_synonym 'a invoke_fn = "pptr \<Rightarrow> cmd_callback \<Rightarrow> op_mode \<Rightarrow> 'a shell \<Rightarrow> 'a shell res option"

definition mode_enter_callback_fn :: "'a invoke_fn \<Rightarrow> pptr \<Rightarrow> op_mode \<Rightarrow> 'a shell \<Rightarrow> 'a shell res option" where
  "mode_enter_callback_fn invoke p eod s =
     (if p = libcli_get_root then Some (Inr (say ''Info : Mode not supported at root level'' s))
      else
        obind (Some (on_cli (set_cmd_tree_cursor (Some p)) s)) (\<lambda>s.
        obind (on_cli_opt (build_mode_console_name (Some p)) s) (\<lambda>s.
        obind (Some (pget (params s) p)) (\<lambda>c.
          case p_callback c of None \<Rightarrow> Some (Inr s) | Some cb \<Rightarrow> invoke p cb eod s))))"

definition config_mode_enter_handler_fn :: "pptr \<Rightarrow> 'a shell \<Rightarrow> 'a shell res option" where
  "config_mode_enter_handler_fn p s =
     obind (Some (on_cli (set_cmd_tree_cursor (Some p)) s)) (\<lambda>s.
     obind (on_cli_opt (build_mode_console_name (Some p)) s) (\<lambda>s.
       Some (on_buff (\<lambda>b. mark_checkpoint_serialize_buffer (Some b)) s)))"

definition exit_cmd_handler_fn :: "'a env \<Rightarrow> 'a shell \<Rightarrow> 'a shell res option" where
  "exit_cmd_handler_fn ev s = on_cli_opt (go_one_level_up_cmd_tree (ev_junk ev) (cursor s)) s"

definition end_cmd_handler_fn :: "'a shell \<Rightarrow> 'a shell res option" where
  "end_cmd_handler_fn s = on_cli_opt (goto_top_of_cmd_tree (cursor s)) s"

text \<open>Clearing the screen is a shell command, the signal dispositions are left out.\<close>

definition clear_screen_handler_fn :: "'a shell \<Rightarrow> 'a shell res" where
  "clear_screen_handler_fn s = Inr s"

definition supportsave_handler_fn :: "op_mode \<Rightarrow> 'a shell \<Rightarrow> 'a shell res" where
  "supportsave_handler_fn eod s =
     (case eod of CONFIG_ENABLE \<Rightarrow> Inr s | CONFIG_DISABLE \<Rightarrow> Inr s | _ \<Rightarrow> Inl AssertFail)"

definition cli_terminate_handler_fn :: "'a shell \<Rightarrow> 'a shell res" where
  "cli_terminate_handler_fn s = Inl ProcessExit"

definition load_file_handler_fn :: "'a shell \<Rightarrow> 'a shell res" where
  "load_file_handler_fn s = Inr (say ''No Op - Full type the command'' s)"

definition negate_callback_fn :: "'a shell \<Rightarrow> 'a shell res" where
  "negate_callback_fn s = Inr (say ''Command Negation - Type the cmd following to Negate'' s)"

definition show_help_handler_fn :: "'a shell \<Rightarrow> 'a shell res" where
  "show_help_handler_fn s =
     Inr (s\<lparr>sh_out := sh_out s @
       [''Welcome to Help Wizard'',
        ''========================'',
        ''1. Use '' @ [CHR 0x27] @ ''/'' @ [CHR 0x27] @ '' Character after the command to enter command mode'',
        ''2. Use '' @ [CHR 0x27] @ ''?'' @ [CHR 0x27] @ '' Character after the command to see possible follow up suboptions'',
        ''3. Use '' @ [CHR 0x27] @ ''do'' @ [CHR 0x27] @ '' from within the config branch to directly trigger operational commands'',
        ''4. Use '' @ [CHR 0x27] @ ''.'' @ [CHR 0x27] @ '' Character after the command to see possible complete command completions'',
        ''5. Built-in commands:'',
        ''    a. cls - clear screen'',
        ''    b. cd - jump to top of cmd tree'',
        ''    c. cd.. - jump one level up of command tree'',
        ''    d. config [no] console name <console name> - set/unset new console name'',
        ''    e. config [no] supportsave enable - enable/disable supportsave facility'',
        ''    f. debug show cmdtree - Show entire command tree'',
        ''    g. show history - show history of commands triggered'',
        ''    h. repeat - repeat the last command'',
        ''                      Author : Abhishek Sagar, Juniper Networks'',
        ''                      Visit : www.csepracticals.com for more courses and projects'']\<rparr>)"

text \<open>
  \<^verbatim>\<open>dump_cmd_tree\<close> prints a parameter and then its options up to the first empty slot.
  The recursion is a list of parameters still to print, with their depth.
\<close>

definition dump_line :: "param_t \<Rightarrow> nat \<Rightarrow> string" where
  "dump_line c tabs =
     concat (replicate tabs ''  '') @ ''-->'' @
     (case p_kind c of CmdP n \<Rightarrow> n | NoCmdP n \<Rightarrow> n | LeafP l \<Rightarrow> get_str_leaf_type (lf_type l)) @
     ''('' @ dec_digits tabs @ '')''"

partial_function (option) dump_one_cmd ::
  "param_heap \<Rightarrow> (pptr \<times> nat) list \<Rightarrow> string list \<Rightarrow> string list res option" where [code]:
  "dump_one_cmd h work out =
     (case work of
        [] \<Rightarrow> Some (Inr out)
      | pt # work \<Rightarrow>
          (case pget h (fst pt) of
             Inl e \<Rightarrow> Some (Inl e)
           | Inr c \<Rightarrow>
               dump_one_cmd h
                 (map (\<lambda>q. (q, Suc (snd pt))) (live_options (p_options c)) @ work)
                 (out @ [dump_line c (snd pt)])))"

definition show_cmd_tree_fn :: "'a shell \<Rightarrow> 'a shell res option" where
  "show_cmd_tree_fn s =
     obind (dump_one_cmd (params s) [(libcli_get_root, 0)] []) (\<lambda>ls.
       Some (Inr (s\<lparr>sh_out := sh_out s @ ls\<rparr>)))"

text \<open>The handler of \<^verbatim>\<open>brief\<close> collects a record that says so.\<close>

definition show_extension_param_handler_fn :: "'a env \<Rightarrow> pptr \<Rightarrow> 'a shell \<Rightarrow> 'a shell res option" where
  "show_extension_param_handler_fn ev p s =
     (if p \<noteq> libcli_get_show_brief_extension_param then Some (Inr s)
      else
        obind (Some (rbind (put_value_in_tlv tlv_zero ''SHOW_BRIEF'') (\<lambda>t.
          rbind (c_strncpy (tlv_leaf_id t) ''SHOW_EXTENSIONS'' 20) (\<lambda>i.
            Inr (t\<lparr>tlv_leaf_type := LT_INVALID, tlv_leaf_id := i\<rparr>))))) (\<lambda>t.
          on_buff_opt (\<lambda>b. collect_tlv (ev_junk ev) (Some b) t) s))"

end
