(* ===== verification/UtParser.thy ===== *)
theory UtParser
  imports CmdShell
begin

text \<open>
  The unit test runner (\<^verbatim>\<open>ut/utinfra/ut_parser.c\<close>): a script of lines that give commands to
  the parser and compare what the application sent to the message queue with patterns.

  The log file gets the text that is printed and is left out, as are sleeping and the set-up of
  the queue. The list of results is a list: its operations are those of the linked list. A wait
  for a message times out at once when the queue is empty, its deadline being in the past.
\<close>

section \<open>Results\<close>

record tc_result_t =
  step_no :: u16
  tc_pass :: bool
  tc_pattern_match :: bool

definition tc_append_result :: "tc_result_t list \<Rightarrow> u16 \<Rightarrow> bool \<Rightarrow> bool \<Rightarrow> tc_result_t list" where
  "tc_append_result rs n pass match = rs @ [\<lparr>step_no = n, tc_pass = pass, tc_pattern_match = match\<rparr>]"

definition result_line :: "tc_result_t \<Rightarrow> string" where
  "result_line r =
     (if tc_pattern_match r then ''PATTERN-MATCH'' else ''PATTERN-NOT-PRESENT'') @ ''  STEP: '' @
     dec_digits (unat (step_no r)) @ '' : '' @ (if tc_pass r then ''PASS'' else ''FAIL'')"

definition tc_print_result :: "tc_result_t list \<Rightarrow> 'a shell \<Rightarrow> 'a shell" where
  "tc_print_result rs s =
     s\<lparr>sh_out := sh_out s @ [''****  Result ******''] @ map result_line rs @
       [''Total TC : '' @ dec_digits (length rs) @ ''   Pass : '' @ dec_digits (length (filter tc_pass rs)) @
        ''   Fail '' @ dec_digits (length (filter (\<lambda>r. \<not> tc_pass r) rs))]\<rparr>"

definition tc_cleanup_result_list :: "tc_result_t list \<Rightarrow> tc_result_t list" where
  "tc_cleanup_result_list rs = []"

section \<open>Lines of a script\<close>

definition UT_PARSER_BUFF_MAX_SIZE :: nat where "UT_PARSER_BUFF_MAX_SIZE = 2048"

text \<open>\<^verbatim>\<open>sprintf\<close> into a local block of \<open>n\<close> characters, then printing it.\<close>

definition sprintf_say :: "nat \<Rightarrow> string \<Rightarrow> 'a shell \<Rightarrow> 'a shell res" where
  "sprintf_say n t s = (if length t + 1 < n then Inr (say t s) else Inl OutOfBounds)"

text \<open>
  The second token of a line between colons, what the line is about; \<open>None\<close> is the null
  pointer, which is printed as \<^verbatim>\<open>(null)\<close>.
\<close>

definition ut_token :: "string \<Rightarrow> string option" where
  "ut_token line = (case strtok_all CHR '':'' line of _ # t # _ \<Rightarrow> Some t | _ \<Rightarrow> None)"

definition percent_s :: "string option \<Rightarrow> string" where
  "percent_s t = (case t of None \<Rightarrow> ''(null)'' | Some t \<Rightarrow> t)"

definition the_token :: "string option \<Rightarrow> string res" where
  "the_token t = (case t of None \<Rightarrow> Inl NullDeref | Some t \<Rightarrow> Inr t)"

definition token_u16 :: "string option \<Rightarrow> u16 res" where
  "token_u16 t = rbind (the_token t) (\<lambda>t. rbind (atoi t) (\<lambda>v. Inr (of_int v)))"

text \<open>The pattern: the tokens from the second on, with single colons between them.\<close>

fun colon_tail :: "string list \<Rightarrow> string" where
  "colon_tail [] = []"
| "colon_tail (t # ts) = CHR '':'' # t @ colon_tail ts"

definition ut_pattern :: "string \<Rightarrow> string res" where
  "ut_pattern line =
     (let p = percent_s (ut_token line) @ colon_tail (drop 2 (strtok_all CHR '':'' line)) in
      if length p < 256 then Inr p else Inl OutOfBounds)"

text \<open>Substituting the three saved numbers, in the block of 512 characters.\<close>

definition substitute_stores :: "ut_state \<Rightarrow> string \<Rightarrow> string res" where
  "substitute_stores u line =
     rbind (replaceSubstring (line @ replicate (512 - length line) nul) (''$INT_STORE1'' @ [nul])
              (dec_digits (unat (int_store1 u)) @ [nul])) (\<lambda>b.
     rbind (replaceSubstring b (''$INT_STORE2'' @ [nul]) (dec_digits (unat (int_store2 u)) @ [nul])) (\<lambda>b.
     rbind (replaceSubstring b (''$INT_STORE3'' @ [nul]) (dec_digits (unat (int_store3 u)) @ [nul])) (\<lambda>b.
       Inr (cstr b))))"

text \<open>Skipping to the test case of the number \<open>tc_no\<close>; \<open>None\<close> is the end of the file.\<close>

function skip_to_test_case :: "u16 \<Rightarrow> string \<Rightarrow> (u16 \<times> string) option res" where
  "skip_to_test_case tc_no f =
     (case fgets 512 f of
        None \<Rightarrow> Inr None
      | Some (line, f) \<Rightarrow>
          if \<not> strn_prefix line '':TESTCASE-BEGIN:'' then skip_to_test_case tc_no f
          else
            (case token_u16 (ut_token line) of
               Inl e \<Rightarrow> Inl e
             | Inr n \<Rightarrow> if n = tc_no then Inr (Some (n, f)) else skip_to_test_case tc_no f))"
  by pat_completeness auto
termination by (relation "measure (\<lambda>(n, f). length f)") (auto intro: fgets_shorter)

declare skip_to_test_case.simps [simp del]

section \<open>The run\<close>

text \<open>
  The local variables of \<^verbatim>\<open>run_test_case\<close>; \<open>ur_done\<close> is set by \<^verbatim>\<open>break\<close>.
\<close>

record ut_run =
  ur_file :: string
  ur_tc :: u16
  ur_step :: u16
  ur_results :: "tc_result_t list"
  ur_found :: bool
  ur_done :: bool

definition on_ut :: "(ut_state \<Rightarrow> ut_state) \<Rightarrow> 'a shell \<Rightarrow> 'a shell" where
  "on_ut f s = s\<lparr>sh_ut := f (sh_ut s)\<rparr>"

definition begin_test_case :: "string \<Rightarrow> u16 \<Rightarrow> string \<Rightarrow> ut_run \<Rightarrow> 'a shell \<Rightarrow> (ut_run \<times> 'a shell) res" where
  "begin_test_case file_name tc_no line r s =
     rbind (token_u16 (ut_token line)) (\<lambda>n.
     rbind (if tc_no \<noteq> 0 \<and> n \<noteq> tc_no then skip_to_test_case tc_no (ur_file r)
            else Inr (Some (n, ur_file r))) (\<lambda>found.
       case found of
         None \<Rightarrow> Inr (r\<lparr>ur_file := [], ur_done := True\<rparr>, s)
       | Some (n, f) \<Rightarrow>
           rbind (sprintf_say 128 ([newline] @ '' ***** Executing Test case : '' @ file_name @ '' - '' @
                    dec_digits (unat n) @ '' ***** '') s) (\<lambda>s.
             Inr (r\<lparr>ur_file := f, ur_tc := n, ur_found := True\<rparr>, on_ut (\<lambda>u. u\<lparr>TC_RUNNING := True\<rparr>) s))))"

definition end_test_case :: "string \<Rightarrow> u16 \<Rightarrow> ut_run \<Rightarrow> 'a shell \<Rightarrow> (ut_run \<times> 'a shell) res" where
  "end_test_case file_name tc_no r s =
     rbind (sprintf_say 128 ([newline] @ '' ***** Test case : '' @ file_name @ '' - '' @
              dec_digits (unat (ur_tc r)) @ '' Finished ***** '') s) (\<lambda>s.
       Inr (r\<lparr>ur_results := tc_cleanup_result_list (ur_results r),
             ur_done := (tc_no \<noteq> 0 \<and> TC_RUNNING (sh_ut s))\<rparr>, tc_print_result (ur_results r) s))"

text \<open>Waiting for the output of a \<^verbatim>\<open>show\<close> command; with debugging on, it is discarded.\<close>

definition clear_recv :: "ut_state \<Rightarrow> ut_state" where
  "clear_recv u = u\<lparr>ut_parser_recv_buff := replicate UT_PARSER_BUFF_MAX_SIZE nul,
     ut_parser_recv_buff_data_size := 0\<rparr>"

definition receive_output :: "'a shell \<Rightarrow> 'a shell res" where
  "receive_output s =
     (case ut_msg_q (sh_ut s) of
        [] \<Rightarrow> Inr (on_ut clear_recv (say ''Msg Q  Time out : No Data Recvd from Backend'' s))
      | m # q \<Rightarrow>
          rbind (memcpy (ut_parser_recv_buff (sh_ut s)) 0 m 0 (length m)) (\<lambda>b.
            let s = on_ut (\<lambda>u. u\<lparr>ut_msg_q := q, ut_parser_recv_buff := b,
                      ut_parser_recv_buff_data_size := int (length m)\<rparr>) s
            in if ut_parser_debug (sh_ut s)
               then Inr (on_ut clear_recv (say (cstr b) (say ''Mq Data Recvd by UT Parser : '' s)))
               else Inr s))"

definition run_cmd_line :: "'a parse_fn \<Rightarrow> string \<Rightarrow> 'a shell \<Rightarrow> 'a shell res option" where
  "run_cmd_line parse line s =
     obind (Some (sprintf_say 128 (''CMD : '' @ percent_s (ut_token line)) s)) (\<lambda>s.
     obind (Some (the_token (ut_token line))) (\<lambda>t.
     obind (parse (t @ [nul]) s) (\<lambda>(status, _, s).
       if status \<noteq> COMPLETE then Some (Inl AssertFail)
       else if pattern_match t (int (length t)) ''show'' \<and> TC_RUNNING (sh_ut s)
       then Some (receive_output s)
       else Some (Inr s))))"

text \<open>\<open>match\<close> is whether the pattern has to be present.\<close>

definition check_pattern :: "bool \<Rightarrow> string \<Rightarrow> ut_run \<Rightarrow> 'a shell \<Rightarrow> (ut_run \<times> 'a shell) res" where
  "check_pattern match line r s =
     rbind (ut_pattern line) (\<lambda>p.
       let u = sh_ut s;
           pass = (pattern_match (cstr (ut_parser_recv_buff u)) (ut_parser_recv_buff_data_size u) p = match)
       in Inr (r\<lparr>ur_results := tc_append_result (ur_results r) (ur_step r) pass match\<rparr>,
               say (if pass then ''PASS'' else ''FAIL'')
                 (say ((if match then ''pattern to be matched : |'' else ''pattern to be not matched : |'')
                       @ p @ ''|'') s)))"

definition grep_line :: "string \<Rightarrow> 'a shell \<Rightarrow> 'a shell res" where
  "grep_line line s =
     rbind (sprintf_say 128 (''Grep Pattern : '' @ percent_s (ut_token line)) s) (\<lambda>s.
     rbind (the_token (ut_token line)) (\<lambda>t.
     rbind (grep (ut_parser_recv_buff (sh_ut s)) (nat (ut_parser_recv_buff_data_size (sh_ut s))) t) (\<lambda>(b, n).
       Inr (on_ut (\<lambda>u. u\<lparr>ut_parser_recv_buff := b, ut_parser_recv_buff_data_size := int n\<rparr>)
              (say (cstr b) (say ''Output After Grep : '' s))))))"

text \<open>Saving a number of the output; \<open>upd\<close> sets one of the three variables.\<close>

definition store_line ::
  "string \<Rightarrow> (64 word \<Rightarrow> ut_state \<Rightarrow> ut_state) \<Rightarrow> string \<Rightarrow> 'a shell \<Rightarrow> 'a shell res" where
  "store_line name upd line s =
     rbind (the_token (ut_token line)) (\<lambda>t.
     rbind (atoi t) (\<lambda>index.
     rbind (rassert (index \<noteq> 0)) (\<lambda>_.
     rbind (string_fetch_integer (ut_parser_recv_buff (sh_ut s))
              (nat (ut_parser_recv_buff_data_size (sh_ut s))) index) (\<lambda>v.
       sprintf_say 128 (name @ '' = '' @ dec_digits (unat (of_int v :: 64 word)) @ '' at index '' @ print_d index)
         (on_ut (upd (of_int v)) s)))))"

text \<open>One line that starts with a colon, its newline cut off and the numbers substituted.\<close>

definition keep :: "ut_run \<Rightarrow> 'a shell res \<Rightarrow> (ut_run \<times> 'a shell) res option" where
  "keep r m = Some (rbind m (\<lambda>s. Inr (r, s)))"

definition run_line ::
  "'a parse_fn \<Rightarrow> string \<Rightarrow> u16 \<Rightarrow> string \<Rightarrow> ut_run \<Rightarrow> 'a shell \<Rightarrow> (ut_run \<times> 'a shell) res option" where
  "run_line parse file_name tc_no line r s =
     (let tok = ut_token line in
      if strn_prefix line '':TESTCASE-BEGIN:'' then Some (begin_test_case file_name tc_no line r s)
      else if strn_prefix line '':TESTCASE-END:'' then Some (end_test_case file_name tc_no r s)
      else if strn_prefix line '':DESC:'' then keep r (sprintf_say 128 (''Description : '' @ percent_s tok) s)
      else if strn_prefix line '':STEP:''
      then Some (rbind (sprintf_say 128 (''STEP : '' @ percent_s tok) s) (\<lambda>s.
             rbind (token_u16 tok) (\<lambda>n. Inr (r\<lparr>ur_step := n\<rparr>, s))))
      else if strn_prefix line '':CMD:'' then obind (run_cmd_line parse line s) (\<lambda>s. Some (Inr (r, s)))
      else if strn_prefix line '':PATTERN-MATCH:'' then Some (check_pattern True line r s)
      else if strn_prefix line '':PATTERN-NOT-MATCH:'' then Some (check_pattern False line r s)
      else if strn_prefix line '':SLEEP:''
      then keep r (rbind (sprintf_say 128 (''Sleeping for '' @ percent_s tok @ '' sec'') s) (\<lambda>s.
             rbind (the_token tok) (\<lambda>t. rbind (atoi t) (\<lambda>_. Inr s))))
      else if strn_prefix line '':ABORT:'' then Some (Inr (r\<lparr>ur_done := True\<rparr>, say ''Aborted'' s))
      else if strn_prefix line '':PAUSE:''
      then keep r (Inr ((say ''Paused'' s)\<lparr>sh_stdin := scanf_c (sh_stdin s)\<rparr>))
      else if strn_prefix line '':GREP:'' then keep r (grep_line line s)
      else if strn_prefix line '':PRINT:'' then keep r (sprintf_say 128 (''INFO : '' @ percent_s tok) s)
      else if strn_prefix line '':INT_STORE1:''
      then keep r (store_line ''int_store1'' (\<lambda>v u. u\<lparr>int_store1 := v\<rparr>) line s)
      else if strn_prefix line '':INT_STORE2:''
      then keep r (store_line ''int_store2'' (\<lambda>v u. u\<lparr>int_store2 := v\<rparr>) line s)
      else if strn_prefix line '':INT_STORE3:''
      then keep r (store_line ''int_store3'' (\<lambda>v u. u\<lparr>int_store3 := v\<rparr>) line s)
      else Some (Inr (r, s)))"

partial_function (option) run_loop ::
  "'a parse_fn \<Rightarrow> string \<Rightarrow> u16 \<Rightarrow> ut_run \<Rightarrow> 'a shell \<Rightarrow> (ut_run \<times> 'a shell) res option" where [code]:
  "run_loop parse file_name tc_no r s =
     (case fgets 512 (ur_file r) of
        None \<Rightarrow> Some (Inr (r, s))
      | Some (line, f) \<Rightarrow>
          (case (if hd line \<noteq> CHR '':''
                 then Some (Inr (r\<lparr>ur_file := f\<rparr>, if line = [newline] then say [] s else s))
                 else obind (Some (substitute_stores (sh_ut s) (takeWhile (\<lambda>c. c \<noteq> newline) (cstr line)))) (\<lambda>line.
                        run_line parse file_name tc_no line (r\<lparr>ur_file := f\<rparr>) s)) of
             None \<Rightarrow> None
           | Some (Inl e) \<Rightarrow> Some (Inl e)
           | Some (Inr (r, s)) \<Rightarrow>
               if ur_done r then Some (Inr (r, s)) else run_loop parse file_name tc_no r s))"

text \<open>The variables of the current case and step are not initialised.\<close>

definition run_test_case ::
  "'a env \<Rightarrow> 'a parse_fn \<Rightarrow> string \<Rightarrow> u16 \<Rightarrow> 'a shell \<Rightarrow> (bool \<times> 'a shell) res option" where
  "run_test_case ev parse file_name tc_no s =
     (case fopen_read file_name s of
        None \<Rightarrow> Some (Inl AssertFail)
      | Some (f, s) \<Rightarrow>
          obind (run_loop parse file_name tc_no
                   \<lparr>ur_file = f, ur_tc = of_int (ev_uninit ev), ur_step = of_int (ev_uninit ev),
                    ur_results = [], ur_found = False, ur_done = False\<rparr> s) (\<lambda>(r, s).
            Some (Inr (ur_found r, on_ut (\<lambda>u. u\<lparr>TC_RUNNING := False\<rparr>) (fclose s)))))"

section \<open>The handler and the output of the application\<close>

definition set_ut_debug_flag :: "string \<Rightarrow> ut_state \<Rightarrow> ut_state" where
  "set_ut_debug_flag v u = u\<lparr>ut_parser_debug := strn_prefix v ''enable''\<rparr>"

definition CMDCODE_RUN_UT_TC :: int where "CMDCODE_RUN_UT_TC = 9"
definition CMDCODE_DEBUG_UT :: int where "CMDCODE_DEBUG_UT = 10"

text \<open>
  The loop over the leaves: file name, number and flag. The last leaf of a name counts.
\<close>

fun ut_leaves ::
  "tlv_struct list \<Rightarrow> string option \<times> int \<times> string option \<Rightarrow> (string option \<times> int \<times> string option) res" where
  "ut_leaves [] a = Inr a"
| "ut_leaves (t # ts) (file_name, tc_no, flag) =
     (if strn_prefix (cstr (tlv_leaf_id t)) ''ut-file-name''
      then ut_leaves ts (Some (cstr (tlv_value t)), tc_no, flag)
      else if strn_prefix (cstr (tlv_leaf_id t)) ''tc-no''
      then rbind (atoi (cstr (tlv_value t))) (\<lambda>n. ut_leaves ts (file_name, n, flag))
      else if strn_prefix (cstr (tlv_leaf_id t)) ''ut-enable''
      then ut_leaves ts (file_name, tc_no, Some (cstr (tlv_value t)))
      else ut_leaves ts (file_name, tc_no, flag))"

definition ut_test_handler_fn :: "'a env \<Rightarrow> 'a parse_fn \<Rightarrow> 'a shell \<Rightarrow> 'a shell res option" where
  "ut_test_handler_fn ev parse s =
     obind (Some (rbind (EXTRACT_CMD_CODE (tlv_buff s)) (\<lambda>code.
       rbind (TLV_LOOP (Some (tlv_buff s))) (\<lambda>ts.
       rbind (ut_leaves ts (None, 0, None)) (\<lambda>a. Inr (code, a)))))) (\<lambda>(code, file_name, tc_no, flag).
       if code = CMDCODE_RUN_UT_TC
       then obind (Some (the_token file_name)) (\<lambda>f.
              obind (run_test_case ev parse f (of_int tc_no) s) (\<lambda>(_, s). Some (Inr s)))
       else if code = CMDCODE_DEBUG_UT
       then obind (Some (the_token flag)) (\<lambda>v. Some (Inr (on_ut (set_ut_debug_flag v) s)))
       else Some (Inr s))"

text \<open>
  \<^verbatim>\<open>cli_out\<close> of the application, on the string \<open>b\<close> with its NUL. The queue holds one
  message: sending to a full queue blocks the thread that would receive.
\<close>

definition cli_out :: "string \<Rightarrow> 'a shell \<Rightarrow> 'a shell res" where
  "cli_out b s =
     (if \<not> TC_RUNNING (sh_ut s) then Inr (say (cstr b) s)
      else if \<not> length b - 1 < UT_PARSER_BUFF_MAX_SIZE then Inl AssertFail
      else if ut_msg_q (sh_ut s) \<noteq> [] then Inl Deadlock
      else Inr (on_ut (\<lambda>u. u\<lparr>ut_msg_q := [b]\<rparr>) s))"

end
