(* ===== verification/CmdParser.thy ===== *)
theory CmdParser
  imports UtParser
begin

text \<open>
  The command parser (\<^verbatim>\<open>parser.c\<close>): the walk of the tokens through the tree, what a complete
  command does, the commands the parser knows itself, files of commands and the shell loop.

  Handlers may start the parser again (\<^verbatim>\<open>repeat\<close>, the history, unit tests), and the handler
  of a mode may be a handler again. Both calls are arguments of the definitions; at the end of the
  theory, a bound on the depth of calls closes the recursion, with \<open>None\<close> when it is not enough.
\<close>

section \<open>Calling a callback\<close>

definition run_callback ::
  "'a env \<Rightarrow> 'a parse_fn \<Rightarrow> 'a invoke_fn \<Rightarrow> pptr \<Rightarrow> cmd_callback \<Rightarrow> op_mode \<Rightarrow> 'a shell \<Rightarrow> 'a shell res option" where
  "run_callback ev parse invoke p cb eod s =
     (case cb of
        mode_enter_callback \<Rightarrow> mode_enter_callback_fn invoke p eod s
      | display_sub_options_callback \<Rightarrow> display_sub_options_callback_fn ev p s
      | display_cmd_expansion_callback \<Rightarrow> Some (display_cmd_expansion_callback_fn (Some p) s)
      | show_help_handler \<Rightarrow> Some (show_help_handler_fn s)
      | show_history_callback \<Rightarrow> show_history_callback_fn ev parse s
      | show_resgistered_cmd_handler \<Rightarrow> Some (show_resgistered_cmd_handler_fn s)
      | ut_test_handler \<Rightarrow> ut_test_handler_fn ev parse s
      | show_cmd_tree \<Rightarrow> show_cmd_tree_fn s
      | config_mode_enter_handler \<Rightarrow> config_mode_enter_handler_fn p s
      | load_file_handler \<Rightarrow> Some (load_file_handler_fn s)
      | supportsave_handler \<Rightarrow> Some (supportsave_handler_fn eod s)
      | cli_terminate_handler \<Rightarrow> Some (cli_terminate_handler_fn s)
      | repeat_last_command \<Rightarrow> repeat_last_command_fn parse s
      | config_console_name_handler \<Rightarrow> Some (config_console_name_handler_fn eod s)
      | clear_screen_handler \<Rightarrow> Some (clear_screen_handler_fn s)
      | exit_cmd_handler \<Rightarrow> exit_cmd_handler_fn ev s
      | end_cmd_handler \<Rightarrow> end_cmd_handler_fn s
      | show_extension_param_handler \<Rightarrow> show_extension_param_handler_fn ev p s
      | negate_callback \<Rightarrow> Some (negate_callback_fn s)
      | app_callback n \<Rightarrow> Some (ev_callback ev n p eod s))"

text \<open>\<^verbatim>\<open>INVOKE_APPLICATION_CALLBACK_HANDLER\<close>\<close>

definition invoke_handler :: "'a invoke_fn \<Rightarrow> pptr \<Rightarrow> op_mode \<Rightarrow> 'a shell \<Rightarrow> 'a shell res option" where
  "invoke_handler invoke p eod s =
     obind (Some (pget (params s) p)) (\<lambda>c.
       case p_callback c of None \<Rightarrow> Some (Inl NullDeref) | Some cb \<Rightarrow> invoke p cb eod s)"

section \<open>The token loop\<close>

text \<open>
  Matching one token. With several matches the user types a number; the rest of that line is read
  into the parser's input buffer.
\<close>

definition read_rest_of_line :: "string \<Rightarrow> 'a shell \<Rightarrow> 'a shell" where
  "read_rest_of_line r s =
     (case fgets (CONS_INPUT_BUFFER_SIZE - 1) r of
        None \<Rightarrow> say ''error in reading from stdin'' (s\<lparr>sh_stdin := r\<rparr>)
      | Some (l, r) \<Rightarrow> s\<lparr>sh_stdin := r, sh_input := blit (sh_input s) 0 (l @ [nul])\<rparr>)"

definition match_token :: "pptr option list \<Rightarrow> string \<Rightarrow> 'a shell \<Rightarrow> (pptr option \<times> 'a shell) res" where
  "match_token os tok s =
     rbind (match_loop (params s) os tok None []) (\<lambda>(lf, poss).
       if length poss \<le> 1
       then rbind (find_matching_param (params s) (-1) os tok) (\<lambda>m. Inr (m, s))
       else
         let s = s\<lparr>sh_out := sh_out s @ (dec_digits (length poss) @ '' possibilities :'') #
               map (\<lambda>i. pad 2 (dec_digits i) @ ''. '' @ name_of (params s) (poss ! i)) [0..<length poss]\<rparr>
         in rbind (scanf_d (sh_stdin s)) (\<lambda>(v, r).
            rbind (find_matching_param (params s) (case v of None \<Rightarrow> -1 | Some v \<Rightarrow> v) os tok) (\<lambda>m.
              let s = read_rest_of_line r s
              in Inr (m, if m = None then say ''Invalid Choice'' s else s))))"

text \<open>A leaf: its value is copied into the parameter and collected in the serialized buffer.\<close>

definition set_leaf_value :: "string \<Rightarrow> leaf_t \<Rightarrow> leaf_t res" where
  "set_leaf_value tok l =
     rbind (c_strncpy (lf_value l) tok (min (length tok) LEAF_VALUE_HOLDER_SIZE)) (\<lambda>v.
     rbind (store v (length tok) nul) (\<lambda>v. Inr (l\<lparr>lf_value := v\<rparr>)))"

definition take_leaf :: "'a env \<Rightarrow> pptr \<Rightarrow> param_t \<Rightarrow> leaf_t \<Rightarrow> string \<Rightarrow> 'a shell \<Rightarrow> 'a shell res option" where
  "take_leaf ev q c l tok s =
     obind (Some (prepare_tlv_from_leaf (lf_type l) (lf_id l) tlv_zero)) (\<lambda>t.
     obind (Some (put_value_in_tlv t tok)) (\<lambda>t.
     obind (Some (set_leaf_value tok l)) (\<lambda>l.
       on_buff_opt (\<lambda>b. collect_tlv (ev_junk ev) (Some b) t)
         (s\<lparr>sh_cli := (sh_cli s)\<lparr>cl_params := (params s)(q \<mapsto> c\<lparr>p_kind := LeafP l\<rparr>)\<rparr>\<rparr>))))"

text \<open>
  The variables after the loop: status, index of the token it stopped at, \<^verbatim>\<open>parent\<close>,
  \<^verbatim>\<open>param\<close> (null when nothing matched), and whether \<^verbatim>\<open>no\<close> was passed.
\<close>

record walk =
  wk_status :: CMD_PARSE_STATUS
  wk_i :: nat
  wk_parent :: "pptr option"
  wk_param :: "pptr option"
  wk_mode :: op_mode

text \<open>\<open>off\<close> is the offset of the first token in the array, the last number the tokens left.\<close>

fun token_loop ::
  "'a env \<Rightarrow> nat \<Rightarrow> nat \<Rightarrow> pptr option \<Rightarrow> pptr \<Rightarrow> op_mode \<Rightarrow> 'a shell \<Rightarrow> nat \<Rightarrow> (walk \<times> 'a shell) res option"
where
  "token_loop ev off i parent param eod s 0 =
     Some (Inr (\<lparr>wk_status = COMPLETE, wk_i = i, wk_parent = parent, wk_param = Some param, wk_mode = eod\<rparr>, s))"
| "token_loop ev off i parent param eod s (Suc n) =
     obind (Some (token_str (sh_cli s) True (off + i))) (\<lambda>tok.
     obind (Some (pget (params s) param)) (\<lambda>c.
     obind (Some (match_token (p_options c) tok s)) (\<lambda>(m, s).
       case m of
         None \<Rightarrow>
           Some (Inr (\<lparr>wk_status = CMD_NOT_FOUND, wk_i = i, wk_parent = Some param, wk_param = None,
                       wk_mode = eod\<rparr>, s))
       | Some q \<Rightarrow>
           obind (Some (pget (params s) q)) (\<lambda>qc.
             case p_kind qc of
               CmdP _ \<Rightarrow> token_loop ev off (Suc i) (Some param) q eod s n
             | NoCmdP _ \<Rightarrow> token_loop ev off (Suc i) (Some param) q CONFIG_DISABLE s n
             | LeafP l \<Rightarrow>
                 obind (Some (leaf_handler (lf_type l) tok)) (\<lambda>ok.
                   if \<not> ok
                   then Some (Inr (\<lparr>wk_status = INVALID_LEAF, wk_i = i, wk_parent = Some param,
                                    wk_param = Some q, wk_mode = eod\<rparr>, s))
                   else if \<not> INVOKE_LEAF_USER_VALIDATION_CALLBACK ev l tok
                   then Some (Inr (\<lparr>wk_status = USER_INVALID_LEAF, wk_i = i, wk_parent = Some param,
                                    wk_param = Some q, wk_mode = eod\<rparr>, s))
                   else obind (take_leaf ev q qc l tok s) (\<lambda>s.
                          token_loop ev off (Suc i) (Some param) q eod s n))))))"

section \<open>Complete commands\<close>

text \<open>The record of the command code, and collecting it.\<close>

definition set_command_code :: "int \<Rightarrow> 'a shell \<Rightarrow> 'a shell res" where
  "set_command_code code s =
     rbind (c_sprintf (replicate LEAF_VALUE_HOLDER_SIZE nul) (print_d code)) (\<lambda>v.
       Inr (s\<lparr>sh_code := (sh_code s)\<lparr>tlv_value := v\<rparr>\<rparr>))"

definition collect_command_code :: "'a env \<Rightarrow> 'a shell \<Rightarrow> 'a shell res option" where
  "collect_command_code ev s = on_buff_opt (\<lambda>b. collect_tlv (ev_junk ev) (Some b) (sh_code s)) s"

definition mark_checkpoint :: "'a shell \<Rightarrow> 'a shell res" where
  "mark_checkpoint s = on_buff (\<lambda>b. mark_checkpoint_serialize_buffer (Some b)) s"

text \<open>The mode of a command: enabled in the configuration unless negated, operational elsewhere.\<close>

definition branch_mode :: "pptr \<Rightarrow> op_mode \<Rightarrow> op_mode" where
  "branch_mode hook eod =
     (if hook = libcli_get_config_hook \<and> eod \<noteq> CONFIG_DISABLE then CONFIG_ENABLE
      else if hook \<noteq> libcli_get_config_hook then OPERATIONAL
      else eod)"

definition show_brief_command ::
  "'a env \<Rightarrow> 'a invoke_fn \<Rightarrow> pptr option \<Rightarrow> pptr \<Rightarrow> 'a shell \<Rightarrow> (CMD_PARSE_STATUS \<times> 'a shell) res option" where
  "show_brief_command ev invoke parent p s =
     (case parent of None \<Rightarrow> Some (Inl NullDeref)
      | Some q \<Rightarrow>
        obind (Some (pget (params s) q)) (\<lambda>qc.
          if p_callback qc = None
          then Some (Inr (INCOMPLETE_COMMAND, say ''Error : Incomplete Command'' s))
          else
            obind (invoke_handler invoke p OPERATIONAL s) (\<lambda>s.
            obind (Some (set_command_code (p_CMDCODE qc) s)) (\<lambda>s.
            obind (collect_command_code ev s) (\<lambda>s.
            obind (invoke_handler invoke q OPERATIONAL s) (\<lambda>s. Some (Inr (COMPLETE, s))))))))"

definition sub_options_command ::
  "'a env \<Rightarrow> pptr option \<Rightarrow> 'a shell \<Rightarrow> (CMD_PARSE_STATUS \<times> 'a shell) res option" where
  "sub_options_command ev parent s =
     (case parent of None \<Rightarrow> Some (Inl NullDeref)
      | Some q \<Rightarrow>
        obind (Some (pget (params s) q)) (\<lambda>qc.
        obind (Some (set_command_code (p_CMDCODE qc) s)) (\<lambda>s.
        obind (Some (mark_checkpoint s)) (\<lambda>s.
        obind (display_sub_options_callback_fn ev q s) (\<lambda>s.
        obind (Some (on_cli (set_cmd_tree_cursor (Some q)) s)) (\<lambda>s.
          if q = libcli_get_root then Some (Inr (COMPLETE, s))
          else obind (on_cli_opt (build_mode_console_name (Some q)) s) (\<lambda>s. Some (Inr (COMPLETE, s)))))))))"

definition mode_command ::
  "'a env \<Rightarrow> 'a invoke_fn \<Rightarrow> pptr option \<Rightarrow> op_mode \<Rightarrow> 'a shell \<Rightarrow> (CMD_PARSE_STATUS \<times> 'a shell) res option" where
  "mode_command ev invoke parent eod s =
     obind (get_current_branch_hook (params s) parent) (\<lambda>hook.
       case parent of None \<Rightarrow> Some (Inl NullDeref)
       | Some q \<Rightarrow>
         obind (Some (pget (params s) q)) (\<lambda>qc.
         obind (Some (set_command_code (p_CMDCODE qc) s)) (\<lambda>s.
         obind (Some (mark_checkpoint s)) (\<lambda>s.
         obind (collect_command_code ev s) (\<lambda>s.
         obind (mode_enter_callback_fn invoke q (branch_mode hook eod) s) (\<lambda>s.
           Some (Inr (COMPLETE, s))))))))"

definition plain_command ::
  "'a env \<Rightarrow> 'a invoke_fn \<Rightarrow> pptr \<Rightarrow> op_mode \<Rightarrow> 'a shell \<Rightarrow> (CMD_PARSE_STATUS \<times> 'a shell) res option" where
  "plain_command ev invoke p eod s =
     obind (get_current_branch_hook (params s) (Some p)) (\<lambda>hook.
     obind (if hook \<noteq> libcli_get_repeat_hook \<and> p \<noteq> libcli_get_config_hook
            then obind (Some (pget (params s) p)) (\<lambda>c.
                 obind (Some (set_command_code (p_CMDCODE c) s)) (\<lambda>s. collect_command_code ev s))
            else Some (Inr s)) (\<lambda>s.
     obind (invoke_handler invoke p (branch_mode hook eod) s) (\<lambda>s. Some (Inr (COMPLETE, s)))))"

definition complete_command ::
  "'a env \<Rightarrow> 'a invoke_fn \<Rightarrow> pptr option \<Rightarrow> pptr \<Rightarrow> op_mode \<Rightarrow> 'a shell \<Rightarrow> (CMD_PARSE_STATUS \<times> 'a shell) res option" where
  "complete_command ev invoke parent p eod s =
     (let s = say ''Parse Success.'' s in
      if p = libcli_get_show_brief_extension_param then show_brief_command ev invoke parent p s
      else if p = libcli_get_suboptions_param then sub_options_command ev parent s
      else if p = libcli_get_mode_param then mode_command ev invoke parent eod s
      else if p = libcli_get_cmd_expansion_param
      then obind (Some (display_cmd_expansion_callback_fn parent s)) (\<lambda>s. Some (Inr (COMPLETE, s)))
      else plain_command ev invoke p eod s)"

section \<open>The whole command\<close>

text \<open>The message of a command that is not complete.\<close>

definition error_message :: "walk \<Rightarrow> nat \<Rightarrow> 'a shell \<Rightarrow> string res" where
  "error_message w off s =
     (case wk_status w of
        CMD_NOT_FOUND \<Rightarrow>
          rbind (token_str (sh_cli s) True (off + wk_i w)) (\<lambda>t.
            Inr (''Error : Following Token not registered : '' @ t))
      | INVALID_LEAF \<Rightarrow>
          rbind (token_str (sh_cli s) True (off + wk_i w)) (\<lambda>t.
            case wk_param w of None \<Rightarrow> Inl NullDeref
            | Some p \<Rightarrow> rbind (pget (params s) p) (\<lambda>c.
                case p_kind c of
                  LeafP l \<Rightarrow> Inr (''Error : Following leaf value could not be validated: '' @ t @
                               '', Expected Data type = '' @ get_str_leaf_type (lf_type l))
                | _ \<Rightarrow> Inl OutOfBounds))
      | USER_INVALID_LEAF \<Rightarrow>
          (case wk_param w of None \<Rightarrow> Inl NullDeref
           | Some p \<Rightarrow> rbind (pget (params s) p) (\<lambda>c.
               case p_kind c of
                 LeafP l \<Rightarrow> Inr (''Error : User validation has failed : Invalid value for Leaf : '' @ lf_id l)
               | _ \<Rightarrow> Inl OutOfBounds))
      | _ \<Rightarrow> Inr ''Error : Incomplete Command'')"

definition build_tlv_buffer ::
  "'a env \<Rightarrow> 'a invoke_fn \<Rightarrow> nat \<Rightarrow> nat \<Rightarrow> 'a shell \<Rightarrow> (CMD_PARSE_STATUS \<times> 'a shell) res option" where
  "build_tlv_buffer ev invoke off token_cnt s =
     (case cursor s of
        None \<Rightarrow> Some (Inl NullDeref)
      | Some cur \<Rightarrow>
          obind (token_loop ev off 0 None cur MODE_UNKNOWN s token_cnt) (\<lambda>(w, s).
            case (wk_status w, wk_param w) of
              (COMPLETE, Some p) \<Rightarrow>
                obind (Some (pget (params s) p)) (\<lambda>c.
                  if p_callback c = None
                  then Some (Inr (INCOMPLETE_COMMAND, say ''Error : Incomplete Command'' s))
                  else complete_command ev invoke (wk_parent w) p (wk_mode w) s)
            | _ \<Rightarrow>
                obind (Some (error_message w off s)) (\<lambda>m. Some (Inr (wk_status w, say m s)))))"

section \<open>Commands of the parser\<close>

text \<open>Between two commands: the tokens are cleared and the buffer goes back to its checkpoint.\<close>

definition after_command :: "'a shell \<Rightarrow> 'a shell res" where
  "after_command s =
     rbind (re_init_tokens MAX_CMD_TREE_DEPTH (cl_tokens (sh_cli s))) (\<lambda>ts.
       let s = s\<lparr>sh_cli := (sh_cli s)\<lparr>cl_tokens := ts\<rparr>\<rparr> in
       if is_user_in_cmd_mode (sh_cli s)
       then on_buff (\<lambda>b. restore_checkpoint_serialize_buffer (Some b)) s
       else on_buff (\<lambda>b. Inr (reset_serialize_buffer b)) s)"

text \<open>\<^verbatim>\<open>do\<close>: an operational command from within the configuration.\<close>

definition do_command ::
  "'a env \<Rightarrow> 'a invoke_fn \<Rightarrow> nat \<Rightarrow> 'a shell \<Rightarrow> (CMD_PARSE_STATUS \<times> 'a shell) res option" where
  "do_command ev invoke token_cnt s =
     (let old = cursor s in
      obind (Some (on_cli (set_cmd_tree_cursor (Some libcli_get_do_hook)) s)) (\<lambda>s.
      obind (Some (on_buff (\<lambda>b. Inr (reset_serialize_buffer b)) s)) (\<lambda>s.
      obind (build_tlv_buffer ev invoke 1 (token_cnt - 1) s) (\<lambda>(status, s).
        if cursor s \<noteq> Some libcli_get_do_hook
        then obind (get_current_branch_hook (params s) (cursor s)) (\<lambda>hook.
               if hook = libcli_get_config_hook then Some (Inl AssertFail) else Some (Inr (status, s)))
        else
          obind (Some (on_cli (set_cmd_tree_cursor old) s)) (\<lambda>s.
          obind (on_buff_opt (\<lambda>b. build_cmd_tree_leaves_data (ev_junk ev) (params s) (Some b)
                   (Some libcli_get_root) (cursor s)) s) (\<lambda>s.
          obind (Some (mark_checkpoint s)) (\<lambda>s. Some (Inr (status, s)))))))))"

text \<open>The commands of a file, each from the cursor. The lines are cut at 254 characters.\<close>

fun parse_lines :: "'a env \<Rightarrow> 'a invoke_fn \<Rightarrow> string list \<Rightarrow> 'a shell \<Rightarrow> 'a shell res option" where
  "parse_lines ev invoke [] s = Some (Inr s)"
| "parse_lines ev invoke (l # ls) s =
     obind (Some (tokenizer (l @ [nul]) CHR '' '' (cl_tokens (sh_cli s)))) (\<lambda>(ts, arr, cnt).
     obind (Some (on_buff (\<lambda>b. Inr (reset_serialize_buffer b))
              ((say (''Executing : '' @ l) s)\<lparr>sh_cli := (sh_cli s)\<lparr>cl_tokens := ts\<rparr>\<rparr>))) (\<lambda>s.
     obind (build_tlv_buffer ev invoke 0 cnt s) (\<lambda>(_, s).
     obind (Some (after_command s)) (\<lambda>s. parse_lines ev invoke ls s))))"

text \<open>
  \<^verbatim>\<open>config load\<close>: the file stays open, and its descriptor taken, while its commands run.
\<close>

definition parse_file :: "'a env \<Rightarrow> 'a invoke_fn \<Rightarrow> string \<Rightarrow> 'a shell \<Rightarrow> 'a shell res option" where
  "parse_file ev invoke file_name s =
     (case fopen_read file_name s of
        None \<Rightarrow> Some (Inr (say (''Error : Could not open log file '' @ file_name) s))
      | Some (f, s) \<Rightarrow>
          obind (Some (on_buff (\<lambda>b. Inr (reset_serialize_buffer b)) (s\<lparr>sh_recording := False\<rparr>))) (\<lambda>s.
          obind (parse_lines ev invoke (file_lines 255 f) s) (\<lambda>s. Some (Inr (fclose s)))))"

text \<open>\<^verbatim>\<open>strtol\<close> with base 10, of a 64-bit \<^verbatim>\<open>long\<close>.\<close>

definition strtol :: "string \<Rightarrow> int" where
  "strtol s =
     (let s = dropWhile isspace s;
          (sgn, s) = (case s of [] \<Rightarrow> (1 :: int, s)
             | c # r \<Rightarrow> if c = CHR ''-'' then (-1, r) else if c = CHR ''+'' then (1, r) else (1, s))
      in max (- (2 ^ 63)) (min (2 ^ 63 - 1) (sgn * atoi_digits (takeWhile is_digit s))))"

text \<open>
  \<open>parse_input_cmd\<close> on a line; the result says also whether it was \<^verbatim>\<open>repeat\<close>. A first token
  is compared with the commands the parser knows in this order, some of them by their first
  letters only.
\<close>

definition dispatch_line ::
  "'a env \<Rightarrow> 'a parse_fn \<Rightarrow> 'a invoke_fn \<Rightarrow> nat \<Rightarrow> 'a shell \<Rightarrow> (CMD_PARSE_STATUS \<times> bool \<times> 'a shell) res option" where
  "dispatch_line ev parse invoke cnt s =
     (let tok = (\<lambda>i. token_str (sh_cli s) True i);
          done = (\<lambda>m. obind m (\<lambda>s. Some (Inr (COMPLETE, False, s))));
          built = (\<lambda>m. obind m (\<lambda>(status, s). Some (Inr (status, False, s))))
      in obind (Some (tok 0)) (\<lambda>t0.
        if cnt > 1 \<and> strn_prefix t0 ''do'' \<and> cursor s \<noteq> Some libcli_get_root
        then obind (get_current_branch_hook (params s) (cursor s)) (\<lambda>hook.
               if hook = libcli_get_config_hook then built (do_command ev invoke cnt s)
               else done (Some (Inr (say ''Info : do is supported from within config mode only'' s))))
        else if strn_prefix ''repeat'' t0
        then obind (invoke_handler invoke libcli_get_repeat_hook OPERATIONAL s) (\<lambda>s. Some (Inr (COMPLETE, True, s)))
        else if strn_prefix t0 ''cd..'' \<and> cnt = 1 then done (exit_cmd_handler_fn ev s)
        else if strn_prefix t0 ''cd'' \<and> cnt = 1 then done (end_cmd_handler_fn s)
        else if strn_prefix t0 ''cls'' \<and> cnt = 1 then done (Some (clear_screen_handler_fn s))
        else
          obind (Some (if strn_prefix t0 ''run'' then rbind (tok 1) (\<lambda>t1. Inr (strn_prefix t1 ''ut'' \<and> cnt = 4))
                       else Inr False)) (\<lambda>ut.
          obind (Some (if \<not> ut \<and> strn_prefix t0 ''config''
                       then rbind (tok 1) (\<lambda>t1. Inr (strn_prefix t1 ''load'' \<and> cnt = 3))
                       else Inr False)) (\<lambda>load.
          if ut
          then obind (Some (tok 3)) (\<lambda>t3. obind (Some (tok 2)) (\<lambda>t2.
                 done (obind (run_test_case ev parse t2 (of_int (strtol t3)) s) (\<lambda>(_, s). Some (Inr s)))))
          else if load then obind (Some (tok 2)) (\<lambda>t2. done (parse_file ev invoke t2 s))
          else built (build_tlv_buffer ev invoke 0 cnt s)))))"

definition parse_input_body ::
  "'a env \<Rightarrow> 'a parse_fn \<Rightarrow> 'a invoke_fn \<Rightarrow> string \<Rightarrow> 'a shell \<Rightarrow> (CMD_PARSE_STATUS \<times> bool \<times> 'a shell) res option" where
  "parse_input_body ev parse invoke input s =
     obind (Some (tokenizer input CHR '' '' (cl_tokens (sh_cli s)))) (\<lambda>(ts, arr, cnt).
       let s = s\<lparr>sh_cli := (sh_cli s)\<lparr>cl_tokens := ts\<rparr>\<rparr> in
       if cnt = 0 then Some (Inr (INCOMPLETE_COMMAND, False, s))
       else
         obind (dispatch_line ev parse invoke cnt s) (\<lambda>(status, rep, s).
         obind (Some (after_command s)) (\<lambda>s. Some (Inr (status, rep, s)))))"

section \<open>Closing the recursion\<close>

text \<open>The first number bounds the depth of nested calls of the parser and of handlers.\<close>

fun invoke :: "nat \<Rightarrow> 'a env \<Rightarrow> 'a invoke_fn"
  and parse_input_cmd :: "nat \<Rightarrow> 'a env \<Rightarrow> 'a parse_fn"
where
  "invoke 0 ev p cb eod s = None"
| "invoke (Suc n) ev p cb eod s = run_callback ev (parse_input_cmd n ev) (invoke n ev) p cb eod s"
| "parse_input_cmd 0 ev input s = None"
| "parse_input_cmd (Suc n) ev input s = parse_input_body ev (parse_input_cmd n ev) (invoke n ev) input s"

declare invoke.simps [simp del] parse_input_cmd.simps [simp del]

section \<open>The shell\<close>

text \<open>
  The record of the command code starts with its identifier, cut to end in a NUL, and the input
  buffer empty.
\<close>

definition start_command_parser :: "'a shell \<Rightarrow> 'a shell res" where
  "start_command_parser s =
     rbind (c_strncpy (tlv_leaf_id tlv_zero) ''CMDCODE'' LEAF_ID_SIZE) (\<lambda>i.
     rbind (store i (LEAF_ID_SIZE - 1) nul) (\<lambda>i.
       Inr (s\<lparr>sh_code := tlv_zero\<lparr>tlv_leaf_type := LT_INT, tlv_leaf_id := i\<rparr>,
              sh_input := replicate CONS_INPUT_BUFFER_SIZE nul\<rparr>)))"

text \<open>One turn of the loop: reading a line, parsing it, recording it.\<close>

definition shell_turn :: "nat \<Rightarrow> 'a env \<Rightarrow> 'a shell \<Rightarrow> 'a shell res option" where
  "shell_turn n ev s =
     (case fgets (CONS_INPUT_BUFFER_SIZE - 1) (sh_stdin s) of
        None \<Rightarrow> Some (Inl ProcessExit)
      | Some (l, r) \<Rightarrow>
          let s = s\<lparr>sh_stdin := r, sh_input := blit (sh_input s) 0 (l @ [nul])\<rparr> in
          obind (Some (c_strlen (sh_input s))) (\<lambda>len.
            if len = 1 then obind (Some (store (sh_input s) 0 nul)) (\<lambda>b. Some (Inr (s\<lparr>sh_input := b\<rparr>)))
            else if len = 0 then Some (Inl OutOfBounds)
            else
              obind (Some (store (sh_input s) (len - 1) nul)) (\<lambda>b.
              obind (parse_input_cmd n ev b (s\<lparr>sh_input := b\<rparr>)) (\<lambda>(status, rep, s).
                let empty = replicate CONS_INPUT_BUFFER_SIZE nul in
                if rep then Some (Inr (s\<lparr>sh_input := empty\<rparr>))
                else
                  obind (Some (if status = COMPLETE \<and> sh_recording s
                               then record_command (cstr (sh_input s)) s else Inr s)) (\<lambda>s.
                  obind (Some (c_strlen (sh_input s))) (\<lambda>len.
                  obind (Some (memcpy empty 0 (sh_input s) 0 len)) (\<lambda>last.
                    Some (Inr (s\<lparr>sh_recording := True, sh_last := last, sh_input := empty\<rparr>))))))))) "

partial_function (option) shell_loop :: "nat \<Rightarrow> 'a env \<Rightarrow> 'a shell \<Rightarrow> 'a shell res option" where [code]:
  "shell_loop n ev s =
     (case shell_turn n ev s of
        None \<Rightarrow> None
      | Some (Inl e) \<Rightarrow> Some (Inl e)
      | Some (Inr s) \<Rightarrow> shell_loop n ev s)"

definition command_parser :: "nat \<Rightarrow> 'a env \<Rightarrow> 'a shell \<Rightarrow> 'a shell res option" where
  "command_parser n ev s = obind (Some (start_command_parser s)) (shell_loop n ev)"

end
