(* ===== verification/CmdWalk.thy ===== *)
theory CmdWalk
  imports CmdParser
begin

text \<open>
  The walk of the tokens through the tree: what a well-formed tree is, positions in it, and what
  the token loop does to tree and buffer, whatever the tokens are.
\<close>

lemma pget_Inr: "pget h p = Inr c \<longleftrightarrow> h p = Some c"
  by (simp add: pget_def split: option.splits)

section \<open>Trees that differ in leaf values only\<close>

definition same_tree :: "param_heap \<Rightarrow> param_heap \<Rightarrow> bool" where
  "same_tree h h' \<longleftrightarrow> (\<forall>p. map_option cleared (h p) = map_option cleared (h' p))"

lemma same_tree_refl [simp, intro]: "same_tree h h"
  by (simp add: same_tree_def)

lemma same_tree_trans: "same_tree h h' \<Longrightarrow> same_tree h' h'' \<Longrightarrow> same_tree h h''"
  by (simp add: same_tree_def)

lemma same_tree_sym: "same_tree h h' \<Longrightarrow> same_tree h' h"
  by (simp add: same_tree_def)

lemma same_tree_Some: "same_tree h h' \<Longrightarrow> h p = Some c \<Longrightarrow> \<exists>c'. h' p = Some c' \<and> cleared c' = cleared c"
  unfolding same_tree_def by (metis map_option_eq_Some)

lemma same_tree_None: "same_tree h h' \<Longrightarrow> h p = None \<longleftrightarrow> h' p = None"
  unfolding same_tree_def by (metis map_option_is_None)

lemma same_tree_update: "h p = Some c \<Longrightarrow> cleared c' = cleared c \<Longrightarrow> same_tree h (h(p \<mapsto> c'))"
  by (simp add: same_tree_def)

text \<open>What the cleared parameter still shows.\<close>

definition clear_kind :: "cmd_union \<Rightarrow> cmd_union" where
  "clear_kind k = (case k of LeafP l \<Rightarrow> LeafP (l\<lparr>lf_value := replicate LEAF_VALUE_HOLDER_SIZE nul\<rparr>) | _ \<Rightarrow> k)"

lemma cleared_fields:
  "p_kind (cleared c) = clear_kind (p_kind c)" "p_options (cleared c) = p_options c"
  "p_callback (cleared c) = p_callback c" "p_CMDCODE (cleared c) = p_CMDCODE c"
  "p_ishidden (cleared c) = p_ishidden c" "p_disp_callback (cleared c) = p_disp_callback c"
  by (simp_all add: cleared_def clear_kind_def split: cmd_union.splits)

lemma cleared_eqD:
  assumes "cleared c' = cleared c"
  shows "clear_kind (p_kind c') = clear_kind (p_kind c)" "p_options c' = p_options c"
    "p_callback c' = p_callback c" "p_CMDCODE c' = p_CMDCODE c" "p_parent c' = p_parent c"
    "p_disp_callback c' = p_disp_callback c"
  using assms cleared_fields [of c] cleared_fields [of c'] cleared_parent [of c] cleared_parent [of c'] by metis+

lemma clear_kind_simps [simp]:
  "clear_kind k = CmdP n \<longleftrightarrow> k = CmdP n" "clear_kind k = NoCmdP n \<longleftrightarrow> k = NoCmdP n"
  "clear_kind (CmdP n) = CmdP n" "clear_kind (NoCmdP n) = NoCmdP n"
  by (auto simp: clear_kind_def split: cmd_union.splits)

lemma kind_tests:
  assumes "cleared c' = cleared c"
  shows "IS_PARAM_CMD c' = IS_PARAM_CMD c" "IS_PARAM_LEAF c' = IS_PARAM_LEAF c"
    "IS_PARAM_NO_CMD c' = IS_PARAM_NO_CMD c"
proof -
  have "clear_kind (p_kind c') = clear_kind (p_kind c)" using assms by (rule cleared_eqD(1))
  then show "IS_PARAM_CMD c' = IS_PARAM_CMD c" "IS_PARAM_LEAF c' = IS_PARAM_LEAF c"
      "IS_PARAM_NO_CMD c' = IS_PARAM_NO_CMD c"
    by (cases "p_kind c"; cases "p_kind c'"; simp add: clear_kind_def)+
qed

lemma is_leaf_same: "same_tree h h' \<Longrightarrow> is_leaf h' p = is_leaf h p"
  using same_tree_None [of h h' p]
  by (cases "h p") (auto simp: is_leaf_def dest!: same_tree_Some dest: kind_tests split: option.splits)

lemma name_of_same: "same_tree h h' \<Longrightarrow> name_of h' p = name_of h p"
proof (cases "h p")
  case (Some c)
  assume "same_tree h h'"
  with Some obtain c' where "h' p = Some c'" "cleared c' = cleared c" by (auto dest: same_tree_Some)
  then show ?thesis using cleared_eqD(1) [of c' c] Some
    by (cases "p_kind c"; cases "p_kind c'") (auto simp: name_of_def clear_kind_def)
next
  case None
  assume "same_tree h h'"
  with None have "h' p = None" using same_tree_None by auto
  with None show ?thesis by (simp add: name_of_def)
qed

lemma branch_same: "same_tree h h' \<Longrightarrow> branch h p ps \<Longrightarrow> branch h' p ps"
  by (induction h p ps rule: branch.induct) (auto dest!: same_tree_Some dest: cleared_eqD(5))

section \<open>Well-formed trees\<close>

text \<open>
  \<open>rk\<close> grows downwards. The options of a parameter name it as their parent, except those of the
  negation command, which are shared with the command it stands under, those of the hook of
  \<^verbatim>\<open>do\<close>, which hang from the root, and the special parameters, which hang everywhere and have
  no options. The handlers that move the cursor stand where the library registers them.
\<close>

definition special :: "pptr \<Rightarrow> bool" where
  "special p \<longleftrightarrow> p = libcli_get_mode_param \<or> p = libcli_get_suboptions_param \<or>
     p = libcli_get_cmd_expansion_param \<or> p = libcli_get_show_brief_extension_param"

definition option_ok :: "(pptr \<Rightarrow> nat) \<Rightarrow> param_heap \<Rightarrow> pptr \<Rightarrow> param_t \<Rightarrow> pptr \<Rightarrow> bool" where
  "option_ok rk h p c r \<longleftrightarrow> rk p < rk r \<and> r \<noteq> libcli_get_root \<and> r \<noteq> libcli_get_do_hook \<and>
     (case h r of None \<Rightarrow> False
      | Some rc \<Rightarrow>
          (special r \<or>
           (if p = libcli_get_do_hook then p_parent rc = Some libcli_get_root
            else p_parent rc = Some p \<or> IS_PARAM_NO_CMD c \<and> p_parent rc = p_parent c)) \<and>
          (p_callback rc = Some exit_cmd_handler \<or> p_callback rc = Some end_cmd_handler \<longrightarrow>
             p = libcli_get_root))"

definition id_length :: "param_t \<Rightarrow> nat" where
  "id_length c = (case p_kind c of LeafP l \<Rightarrow> length (cstr (lf_id l)) | _ \<Rightarrow> 0)"

definition param_ok :: "(pptr \<Rightarrow> nat) \<Rightarrow> param_heap \<Rightarrow> pptr \<Rightarrow> param_t \<Rightarrow> bool" where
  "param_ok rk h p c \<longleftrightarrow>
     rk p \<le> 1000 \<and> list_all (option_ok rk h p c) (live_options (p_options c)) \<and>
     (case p_parent c of None \<Rightarrow> True | Some q \<Rightarrow> rk q < rk p \<and> \<not> special q \<and> q \<noteq> libcli_get_do_hook) \<and>
     (special p \<longrightarrow> live_options (p_options c) = [] \<and> IS_PARAM_CMD c) \<and>
     (p = libcli_get_root \<or> p = libcli_get_do_hook \<longrightarrow> IS_PARAM_CMD c \<and> p_parent c = None) \<and>
     id_length c \<le> 32 \<and>
     (p_callback c = Some config_mode_enter_handler \<longrightarrow> p = libcli_get_config_hook) \<and>
     (p_callback c = Some mode_enter_callback \<longrightarrow> p = libcli_get_mode_param) \<and>
     (p = libcli_get_repeat_hook \<longrightarrow> p_callback c = Some repeat_last_command) \<and>
     (p_callback c = Some exit_cmd_handler \<or> p_callback c = Some end_cmd_handler \<longrightarrow>
        IS_PARAM_CMD c \<and> libcli_get_show_brief_extension_param \<notin> set (live_options (p_options c))) \<and>
     (p = libcli_get_mode_param \<longrightarrow> clear_kind (p_kind c) = CmdP ''/'') \<and>
     (p_callback c = Some config_mode_enter_handler \<longrightarrow>
        libcli_get_show_brief_extension_param \<notin> set (live_options (p_options c)))"

definition tree_ok :: "(pptr \<Rightarrow> nat) \<Rightarrow> param_heap \<Rightarrow> bool" where
  "tree_ok rk h \<longleftrightarrow> (\<forall>p c. h p = Some c \<longrightarrow> param_ok rk h p c)"

definition value_ok :: "param_t \<Rightarrow> bool" where
  "value_ok c \<longleftrightarrow> (case p_kind c of LeafP l \<Rightarrow> length (lf_value l) = 64 \<and> nul \<in> set (lf_value l) | _ \<Rightarrow> True)"

definition values_ok :: "param_heap \<Rightarrow> bool" where
  "values_ok h \<longleftrightarrow> (\<forall>p c. h p = Some c \<longrightarrow> value_ok c)"

lemma option_ok_same:
  assumes "same_tree h h'" "cleared c' = cleared c" "option_ok rk h p c r"
  shows "option_ok rk h' p c' r"
proof -
  obtain rc where rc: "h r = Some rc" using assms(3) by (auto simp: option_ok_def split: option.splits)
  with assms(1) obtain rc' where rc': "h' r = Some rc'" "cleared rc' = cleared rc" by (auto dest: same_tree_Some)
  show ?thesis
    using assms(3)
    unfolding option_ok_def rc rc'(1) option.case cleared_eqD(3,5) [OF rc'(2)] cleared_eqD(5) [OF assms(2)]
      kind_tests(3) [OF assms(2)] .
qed

lemma id_length_same: "cleared c' = cleared c \<Longrightarrow> id_length c' = id_length c"
proof -
  assume "cleared c' = cleared c"
  then have k: "clear_kind (p_kind c') = clear_kind (p_kind c)" by (rule cleared_eqD(1))
  show ?thesis
  proof (cases "p_kind c")
    case (LeafP l)
    with k obtain l' where l': "p_kind c' = LeafP l'" by (cases "p_kind c'") (auto simp: clear_kind_def)
    with k LeafP have "lf_id (l'\<lparr>lf_value := []\<rparr>) = lf_id (l\<lparr>lf_value := []\<rparr>)"
      by (cases l; cases l') (simp add: clear_kind_def)
    with l' LeafP show ?thesis by (simp add: id_length_def)
  qed (use k in \<open>auto simp: id_length_def\<close>)
qed

lemma param_ok_same:
  assumes "same_tree h h'" "cleared c' = cleared c" "param_ok rk h p c"
  shows "param_ok rk h' p c'"
proof -
  have "list_all (option_ok rk h p c) (live_options (p_options c))"
    using assms(3) unfolding param_ok_def by (elim conjE)
  then have l: "list_all (option_ok rk h' p c') (live_options (p_options c))"
    unfolding list_all_iff using option_ok_same [OF assms(1,2)] by blast
  show ?thesis
    using assms(3) l
    unfolding param_ok_def cleared_eqD(1-6) [OF assms(2)] kind_tests [OF assms(2)] id_length_same [OF assms(2)]
    by - (elim conjE, intro conjI; assumption)
qed

lemma tree_ok_same:
  assumes "same_tree h h'" "tree_ok rk h"
  shows "tree_ok rk h'"
  unfolding tree_ok_def
proof (intro allI impI)
  fix p c'
  assume "h' p = Some c'"
  then obtain c where c: "h p = Some c" "cleared c = cleared c'"
    using same_tree_Some [OF same_tree_sym [OF assms(1)]] by blast
  then have "param_ok rk h p c" using assms(2) by (simp add: tree_ok_def)
  with assms(1) c(2) [symmetric] show "param_ok rk h' p c'" by (rule param_ok_same)
qed

lemma tree_param: "tree_ok rk h \<Longrightarrow> h p = Some c \<Longrightarrow> param_ok rk h p c"
  by (simp add: tree_ok_def)

lemma param_okD:
  assumes "param_ok rk h p c"
  shows "rk p \<le> 1000" "r \<in> set (live_options (p_options c)) \<Longrightarrow> option_ok rk h p c r"
    "p_parent c = Some q \<Longrightarrow> rk q < rk p \<and> \<not> special q \<and> q \<noteq> libcli_get_do_hook"
    "special p \<Longrightarrow> live_options (p_options c) = []"
    "special p \<Longrightarrow> IS_PARAM_CMD c"
    "p = libcli_get_root \<or> p = libcli_get_do_hook \<Longrightarrow> IS_PARAM_CMD c \<and> p_parent c = None"
    "id_length c \<le> 32" "p_callback c = Some config_mode_enter_handler \<Longrightarrow> p = libcli_get_config_hook"
    "p_callback c = Some mode_enter_callback \<Longrightarrow> p = libcli_get_mode_param"
    "p = libcli_get_repeat_hook \<Longrightarrow> p_callback c = Some repeat_last_command"
    "p_callback c = Some exit_cmd_handler \<or> p_callback c = Some end_cmd_handler \<Longrightarrow>
       IS_PARAM_CMD c \<and> libcli_get_show_brief_extension_param \<notin> set (live_options (p_options c))"
    "p = libcli_get_mode_param \<Longrightarrow> p_kind c = CmdP ''/''"
    "p_callback c = Some config_mode_enter_handler \<Longrightarrow>
       libcli_get_show_brief_extension_param \<notin> set (live_options (p_options c))"
proof -
  note a = assms [unfolded param_ok_def]
  show "rk p \<le> 1000" using a by (rule conjunct1)
  have "list_all (option_ok rk h p c) (live_options (p_options c))" using a by (elim conjE)
  then show "r \<in> set (live_options (p_options c)) \<Longrightarrow> option_ok rk h p c r"
    by (simp only: list_all_iff)
  have "case p_parent c of None \<Rightarrow> True | Some q \<Rightarrow> rk q < rk p \<and> \<not> special q \<and> q \<noteq> libcli_get_do_hook"
    using a by (elim conjE)
  then show "p_parent c = Some q \<Longrightarrow> rk q < rk p \<and> \<not> special q \<and> q \<noteq> libcli_get_do_hook" by simp
  have "p = libcli_get_mode_param \<longrightarrow> clear_kind (p_kind c) = CmdP ''/''" using a by (elim conjE)
  then show "p = libcli_get_mode_param \<Longrightarrow> p_kind c = CmdP ''/''" by simp
  show "special p \<Longrightarrow> live_options (p_options c) = []" "special p \<Longrightarrow> IS_PARAM_CMD c" "id_length c \<le> 32"
    "p = libcli_get_root \<or> p = libcli_get_do_hook \<Longrightarrow> IS_PARAM_CMD c \<and> p_parent c = None"
    "p_callback c = Some config_mode_enter_handler \<Longrightarrow> p = libcli_get_config_hook"
    "p_callback c = Some mode_enter_callback \<Longrightarrow> p = libcli_get_mode_param"
    "p = libcli_get_repeat_hook \<Longrightarrow> p_callback c = Some repeat_last_command"
    "p_callback c = Some exit_cmd_handler \<or> p_callback c = Some end_cmd_handler \<Longrightarrow>
       IS_PARAM_CMD c \<and> libcli_get_show_brief_extension_param \<notin> set (live_options (p_options c))"
    "p_callback c = Some config_mode_enter_handler \<Longrightarrow>
       libcli_get_show_brief_extension_param \<notin> set (live_options (p_options c))"
    using a by meson+
qed

section \<open>Positions in the tree\<close>

text \<open>
  A position of the cursor, or of the walk: the root, the hook of \<^verbatim>\<open>do\<close>, or a parameter with
  its branch.
\<close>

definition at :: "param_heap \<Rightarrow> pptr \<Rightarrow> pptr list \<Rightarrow> bool" where
  "at h x ps \<longleftrightarrow> (x = libcli_get_root \<or> x = libcli_get_do_hook) \<and> ps = [] \<or> branch h x ps"

lemma at_same: "same_tree h h' \<Longrightarrow> at h x ps \<Longrightarrow> at h' x ps"
  by (auto simp: at_def intro: branch_same)

lemma branch_ConsD: "branch h x ps \<Longrightarrow> \<exists>qs. ps = x # qs"
  by (induction h x ps rule: branch.induct) auto

lemma branch_Cons:
  "branch h x (y # qs) \<longleftrightarrow> y = x \<and> x \<noteq> libcli_get_root \<and>
     (\<exists>c. h x = Some c \<and> (if qs = [] then p_parent c = Some libcli_get_root
                         else p_parent c = Some (hd qs) \<and> branch h (hd qs) qs))"
  by (cases qs) auto

lemma branch_rank: "branch h x ps \<Longrightarrow> tree_ok rk h \<Longrightarrow> \<forall>y \<in> set (tl ps). rk y < rk x"
proof (induction h x ps rule: branch.induct)
  case (3 h p x y r)
  then obtain c where c: "h p = Some c" "p_parent c = Some y" "branch h y (y # r)" by auto
  then have "rk y < rk p" using 3(3) tree_param param_okD(3) by blast
  moreover have "\<forall>z \<in> set r. rk z < rk y" using 3 c(3) by auto
  ultimately show ?case by auto
qed auto

lemma branch_length: "branch h x ps \<Longrightarrow> tree_ok rk h \<Longrightarrow> length ps \<le> Suc (rk x)"
proof (induction h x ps rule: branch.induct)
  case (3 h p x y r)
  then obtain c where c: "h p = Some c" "p_parent c = Some y" "branch h y (y # r)" by auto
  then have "rk y < rk p" using 3(3) tree_param param_okD(3) by blast
  moreover have "length (y # r) \<le> Suc (rk y)" using 3 c(3) by auto
  ultimately show ?case by simp
qed auto

lemma branch_dom: "branch h x ps \<Longrightarrow> \<exists>c. h x = Some c"
  by (induction h x ps rule: branch.induct) auto

lemma at_length: "at h x ps \<Longrightarrow> tree_ok rk h \<Longrightarrow> length ps \<le> 1001"
proof -
  assume a: "at h x ps" "tree_ok rk h"
  show ?thesis
  proof (cases "branch h x ps")
    case True
    then obtain c where "h x = Some c" using branch_dom by blast
    then have "rk x \<le> 1000" using a(2) tree_param param_okD(1) by blast
    with branch_length [OF True a(2)] show ?thesis by simp
  qed (use a(1) in \<open>auto simp: at_def\<close>)
qed

lemma at_leaves: "at h x ps \<Longrightarrow> tree_ok rk h \<Longrightarrow> length (leaf_tlvs h (rev ps)) \<le> 1001"
  using at_length [of h x ps rk] length_leaf_tlvs [of h "rev ps"] by simp

lemma at_rank: "at h x ps \<Longrightarrow> tree_ok rk h \<Longrightarrow> y \<in> set ps \<Longrightarrow> rk y \<le> rk x"
  using branch_rank [of h x ps rk] by (cases ps) (auto simp: at_def branch_Cons)

text \<open>One token further down.\<close>

lemma at_step:
  assumes tree: "tree_ok rk h" and x: "at h x ps" "h x = Some c" and r: "r \<in> set (live_options (p_options c))"
    and ns: "\<not> special r"
  shows "\<exists>rc qs. h r = Some rc \<and> branch h r (r # qs) \<and> leaf_tlvs h (rev qs) = leaf_tlvs h (rev ps) \<and>
    rk x < rk r \<and> set qs \<subseteq> set ps \<and> (p_callback rc = Some exit_cmd_handler \<or> p_callback rc = Some end_cmd_handler
      \<longrightarrow> x = libcli_get_root)"
proof -
  have o: "option_ok rk h x c r" using tree_param [OF tree x(2)] r by (rule param_okD(2))
  then obtain rc where rc: "h r = Some rc" by (auto simp: option_ok_def split: option.splits)
  have o: "rk x < rk r" "r \<noteq> libcli_get_root"
    "(if x = libcli_get_do_hook then p_parent rc = Some libcli_get_root
      else p_parent rc = Some x \<or> IS_PARAM_NO_CMD c \<and> p_parent rc = p_parent c)"
    "p_callback rc = Some exit_cmd_handler \<or> p_callback rc = Some end_cmd_handler \<longrightarrow> x = libcli_get_root"
    using o ns unfolding option_ok_def rc option.case by blast+
  have hooks: "x = libcli_get_root \<or> x = libcli_get_do_hook \<Longrightarrow> IS_PARAM_CMD c \<and> p_parent c = None"
    using tree_param [OF tree x(2)] by (rule param_okD(6))
  have "\<exists>qs. branch h r (r # qs) \<and> leaf_tlvs h (rev qs) = leaf_tlvs h (rev ps) \<and> set qs \<subseteq> set ps"
  proof (cases "branch h x ps")
    case False
    then have e: "x = libcli_get_root \<or> x = libcli_get_do_hook" "ps = []" using x(1) by (auto simp: at_def)
    with hooks o(3) have "p_parent rc = Some libcli_get_root" by (auto split: if_splits cmd_union.splits)
    then show ?thesis using o(2) rc e by (intro exI [of _ "[]"]) auto
  next
    case True
    then obtain qs where ps: "ps = x # qs" using branch_ConsD by blast
    have "\<exists>q. p_parent c = Some q" using True ps x(2) by (auto simp: branch_Cons split: if_splits)
    then have "x \<noteq> libcli_get_do_hook" "x \<noteq> libcli_get_root" using hooks by auto
    with o(3) consider (child) "p_parent rc = Some x" | (no) "IS_PARAM_NO_CMD c" "p_parent rc = p_parent c" by auto
    then show ?thesis
    proof cases
      case child
      then have "branch h r (r # ps)" using o(2) rc True ps by auto
      then show ?thesis by auto
    next
      case no
      then have "branch h r (r # qs)" using o(2) rc True x(2) unfolding ps branch_Cons by auto
      moreover have "leaf_tlvs h (rev qs) = leaf_tlvs h (rev ps)"
        using no(1) x(2) ps by (auto split: cmd_union.splits)
      ultimately show ?thesis using ps by auto
    qed
  qed
  with o rc show ?thesis by auto
qed

section \<open>Matching and taking leaves\<close>

lemma match_loop_members:
  "match_loop h os name lf poss = Inr (lf', poss') \<Longrightarrow>
   set poss' \<subseteq> set poss \<union> {p \<in> set (live_options os). prefix name (name_of h p)} \<and>
   (lf' = lf \<or> (\<exists>p \<in> set (live_options os). lf' = Some p \<and> is_leaf h p))"
proof (induction os arbitrary: lf poss)
  case (Cons po os)
  show ?case
  proof (cases po)
    case None
    with Cons.prems show ?thesis by simp
  next
    case (Some p)
    then obtain c where c: "h p = Some c" using Cons.prems by (cases "h p") (auto simp: pget_def match_loop.simps(3))
    show ?thesis
      using Cons.prems unfolding Some match_step [where h = h and p = p, OF c]
      by (simp split: if_splits) (use Cons.IH in fastforce)+
  qed
qed simp

lemma find_member:
  assumes "find_matching_param h choice os name = Inr (Some q)"
  shows "q \<in> set (live_options os) \<and> (is_leaf h q \<or> prefix name (name_of h q))"
proof -
  obtain lf poss where m: "match_loop h os name None [] = Inr (lf, poss)"
    using assms by (auto simp: find_matching_param_def)
  have "q \<in> set poss \<or> lf = Some q"
  proof (cases "length poss \<le> 1")
    case True
    then show ?thesis using assms m by (cases poss) (auto simp: find_matching_param_def)
  next
    case False
    then obtain x y r where "poss = x # y # r" by (cases poss; cases "tl poss") auto
    then have "find_matching_param h choice os name = (if choice < 0 \<or> choice > int (length poss) - 1 then Inr None
        else Inr (Some (poss ! nat choice)))" using m by (simp add: find_matching_param_def)
    with assms have "q = poss ! nat choice" "nat choice < length poss" by (auto split: if_splits)
    then show ?thesis by simp
  qed
  with match_loop_members [OF m] show ?thesis by auto
qed

lemma read_rest_frame [simp]:
  "sh_cli (read_rest_of_line r s) = sh_cli s" "sh_code (read_rest_of_line r s) = sh_code s"
  by (simp_all add: read_rest_of_line_def say_def split: option.splits)

lemma say_frame [simp]: "sh_cli (say l s) = sh_cli s" "sh_code (say l s) = sh_code s"
  by (simp_all add: say_def)

lemma match_token_frame:
  assumes "match_token os tok s = Inr (m, s')"
  shows "sh_cli s' = sh_cli s" "m = Some q \<Longrightarrow> q \<in> set (live_options os)" "sh_code s' = sh_code s"
    "m = Some q \<Longrightarrow> is_leaf (params s) q \<or> prefix tok (name_of (params s) q)"
proof -
  obtain lf poss where m: "match_loop (params s) os tok None [] = Inr (lf, poss)"
    using assms by (auto simp: match_token_def)
  show "sh_cli s' = sh_cli s" "sh_code s' = sh_code s"
    using assms m by (auto simp: match_token_def Let_def split: if_splits)
  show "m = Some q \<Longrightarrow> q \<in> set (live_options os)"
    "m = Some q \<Longrightarrow> is_leaf (params s) q \<or> prefix tok (name_of (params s) q)"
    using assms m by (auto simp: match_token_def Let_def split: if_splits dest: find_member)
qed

lemma leaf_tlvs_update: "r \<notin> set ps \<Longrightarrow> leaf_tlvs (h(r \<mapsto> c)) ps = leaf_tlvs h ps"
  by (induction ps) (auto split: option.splits cmd_union.splits)

lemma leaf_tlvs_cong: "(\<And>p. p \<in> set ps \<Longrightarrow> h p = h' p) \<Longrightarrow> leaf_tlvs h ps = leaf_tlvs h' ps"
  by (induction ps) (auto split: option.splits cmd_union.splits)

text \<open>The value that a token leaves in the leaf, over the old one.\<close>

definition new_value :: "string \<Rightarrow> string \<Rightarrow> string" where
  "new_value tok old = tok @ nul # drop (Suc (length tok)) old"

lemma new_value: 
  assumes "nul \<notin> set tok" "length tok < 64" "length old = 64"
  shows "cstr (new_value tok old) = tok" "length (new_value tok old) = 64" "nul \<in> set (new_value tok old)"
  using assms by (simp_all add: new_value_def)

lemma set_leaf_value_eq:
  assumes "nul \<notin> set tok" "length (lf_value l) = 64"
  shows "set_leaf_value tok l = (if length tok < 64 then Inr (l\<lparr>lf_value := new_value tok (lf_value l)\<rparr>) else Inl OutOfBounds)"
proof (cases "length tok < 64")
  case True
  have "c_strncpy (lf_value l) tok (length tok) = Inr (tok @ drop (length tok) (lf_value l))"
    using assms True by (simp add: c_strncpy_def memcpy_def blit_def Let_def)
  moreover have "(tok @ drop (length tok) (lf_value l))[length tok := nul] = new_value tok (lf_value l)"
    using assms True by (simp add: new_value_def list_update_append Cons_nth_drop_Suc [symmetric])
  ultimately show ?thesis using True assms
    by (simp add: set_leaf_value_def LEAF_VALUE_HOLDER_SIZE_def store_def)
next
  case False
  then show ?thesis using assms
    by (simp add: set_leaf_value_def LEAF_VALUE_HOLDER_SIZE_def store_def c_strncpy_def memcpy_def blit_def Let_def)
qed

lemma take_leaf_eq:
  assumes "nul \<notin> set tok" "length (lf_value l) = 64" "length (cstr (lf_id l)) \<le> 32"
    and "sb_tlvs (tlv_buff s) ts" "length ts < 1000000"
  shows "if length tok < 64
    then \<exists>b. take_leaf ev q c l tok s = Some (Inr (s\<lparr>sh_cli := (sh_cli s)\<lparr>cl_params :=
             (params s)(q \<mapsto> c\<lparr>p_kind := LeafP (l\<lparr>lf_value := new_value tok (lf_value l)\<rparr>)\<rparr>), cl_tlv_buff := b\<rparr>\<rparr>)) \<and>
           sb_tlvs b (ts @ [leaf_tlv (l\<lparr>lf_value := new_value tok (lf_value l)\<rparr>)]) \<and>
           sb_checkpoint b = sb_checkpoint (tlv_buff s)
    else take_leaf ev q c l tok s = Some (Inl OutOfBounds)"
proof (cases "length tok < 64")
  case True
  let ?l = "l\<lparr>lf_value := new_value tok (lf_value l)\<rparr>"
  have ok: "leaf_ok ?l" using assms(1-3) True by (simp add: leaf_ok_def new_value)
  have t: "rbind (prepare_tlv_from_leaf (lf_type l) (lf_id l) tlv_zero) (\<lambda>t. put_value_in_tlv t tok) = Inr (leaf_tlv ?l)"
    using assms(1-3) True strncpy_zero [of tok 64]
    by (simp add: prepare_tlv_from_leaf_def put_value_in_tlv_def tlv_zero_def leaf_tlv_def new_value
        strncpy_zero LEAF_ID_SIZE_def LEAF_VALUE_HOLDER_SIZE_def min_absorb2)
  then obtain t1 where t1: "prepare_tlv_from_leaf (lf_type l) (lf_id l) tlv_zero = Inr t1"
      "put_value_in_tlv t1 tok = Inr (leaf_tlv ?l)" by auto
  obtain b where b: "collect_tlv (ev_junk ev) (Some (tlv_buff s)) (leaf_tlv ?l) = Some (Inr b)"
      "sb_tlvs b (ts @ [leaf_tlv ?l])" "sb_checkpoint b = sb_checkpoint (tlv_buff s)"
    using collect_tlv_appends [OF assms(4) leaf_tlv_ok [OF ok], of "ev_junk ev"] assms(5) by auto
  show ?thesis
    using True t1 b set_leaf_value_eq [OF assms(1,2)]
    by (simp add: take_leaf_def shell_ops) (rule exI [of _ b], simp)
next
  case False
  have "\<exists>t. prepare_tlv_from_leaf (lf_type l) (lf_id l) tlv_zero = Inr t \<and> tlv_value t = replicate 64 nul"
    using assms(3) by (simp add: prepare_tlv_from_leaf_def tlv_zero_def strncpy_zero LEAF_ID_SIZE_def LEAF_VALUE_HOLDER_SIZE_def)
  then obtain t where t: "prepare_tlv_from_leaf (lf_type l) (lf_id l) tlv_zero = Inr t" "tlv_value t = replicate 64 nul" by blast
  have "\<exists>v. put_value_in_tlv t tok = Inr v"
    using t(2) by (simp add: put_value_in_tlv_def LEAF_VALUE_HOLDER_SIZE_def c_strncpy_def memcpy_def Let_def)
  then show ?thesis
    using False t(1) set_leaf_value_eq [OF assms(1,2)] by (auto simp: take_leaf_def)
qed

lemma token_str_word: "token_str s True i = Inr tok \<Longrightarrow> nul \<notin> set tok"
  using cstr_no_nul by (auto simp: token_str_def)

section \<open>The walk\<close>

lemma special_no_options:
  assumes "tree_ok rk (params s)" "special x" "params s x = Some c" "match_token (p_options c) tok s = Inr (m, s')"
  shows "m = None"
  using match_token_frame(2) [OF assms(4)] param_okD(4) [OF tree_param [OF assms(1,3)] assms(2)]
  by (cases m) auto

text \<open>
  What the loop leaves behind: a position \<open>y\<close> whose leaves are in the buffer, and the tree with
  other leaf values below the start only. \<open>x\<close>, \<open>ps\<close> are the start.
\<close>

definition walked ::
  "(pptr \<Rightarrow> nat) \<Rightarrow> 'a shell \<Rightarrow> pptr \<Rightarrow> pptr list \<Rightarrow> 'a shell \<Rightarrow> pptr \<Rightarrow> pptr list \<Rightarrow> bool" where
  "walked rk s x ps s' y qs \<longleftrightarrow>
     at (params s') y qs \<and> sb_tlvs (tlv_buff s') (leaf_tlvs (params s') (rev qs)) \<and>
     sb_checkpoint (tlv_buff s') = sb_checkpoint (tlv_buff s) \<and> cursor s' = cursor s \<and>
     same_tree (params s) (params s') \<and> values_ok (params s') \<and> sh_code s' = sh_code s \<and>
     cl_tokens (sh_cli s') = cl_tokens (sh_cli s) \<and>
     (\<exists>us. leaf_tlvs (params s') (rev qs) = leaf_tlvs (params s) (rev ps) @ us) \<and>
     (\<forall>z. rk z \<le> rk x \<longrightarrow> params s' z = params s z)"

lemma walked_refl:
  assumes "at (params s) x ps" "values_ok (params s)" "sb_tlvs (tlv_buff s) (leaf_tlvs (params s) (rev ps))"
    and "sh_cli s' = sh_cli s" "sh_code s' = sh_code s"
  shows "walked rk s x ps s' x ps"
  using assms by (simp add: walked_def)

lemma walked_trans:
  assumes "walked rk s x ps s1 y qs" "walked rk s1 y qs s2 z rs" "rk x \<le> rk y"
  shows "walked rk s x ps s2 z rs"
  using assms same_tree_trans [of "params s" "params s1" "params s2"] by (auto simp: walked_def)

lemma values_okD:
  "values_ok h \<Longrightarrow> h p = Some c \<Longrightarrow> p_kind c = LeafP l \<Longrightarrow> length (lf_value l) = 64 \<and> nul \<in> set (lf_value l)"
  unfolding values_ok_def value_ok_def by fastforce

text \<open>One token that is not a leaf, or a leaf that is taken.\<close>

lemma walked_step:
  assumes "tree_ok rk (params s)" "values_ok (params s)" "at (params s) x ps"
    and "sb_tlvs (tlv_buff s) (leaf_tlvs (params s) (rev ps))"
    and "params s x = Some c" "r \<in> set (live_options (p_options c))" "\<not> special r" "params s r = Some rc"
    and "\<not> IS_PARAM_LEAF rc"
  shows "\<exists>qs. walked rk s x ps s r (r # qs)"
proof -
  obtain qs where qs: "branch (params s) r (r # qs)" "leaf_tlvs (params s) (rev qs) = leaf_tlvs (params s) (rev ps)"
    using at_step [OF assms(1,3,5,6,7)] by blast
  have "leaf_tlvs (params s) (rev (r # qs)) = leaf_tlvs (params s) (rev ps)"
    using qs(2) assms(8,9) by (auto split: cmd_union.splits)
  then show ?thesis using qs assms(2,4) by (intro exI [of _ qs]) (auto simp: walked_def at_def)
qed

lemma walked_leaf:
  assumes "tree_ok rk (params s)" "values_ok (params s)" "at (params s) x ps"
    and "sb_tlvs (tlv_buff s) (leaf_tlvs (params s) (rev ps))"
    and "params s x = Some c" "r \<in> set (live_options (p_options c))" "\<not> special r" "params s r = Some rc"
    and "p_kind rc = LeafP l" "nul \<notin> set tok" "take_leaf ev r rc l tok s = Some (Inr s')"
  shows "\<exists>qs. walked rk s x ps s' r (r # qs)"
proof -
  obtain qs where qs: "branch (params s) r (r # qs)" "leaf_tlvs (params s) (rev qs) = leaf_tlvs (params s) (rev ps)"
      "rk x < rk r" "set qs \<subseteq> set ps" using at_step [OF assms(1,3,5,6,7)] by blast
  have r: "r \<notin> set (rev qs)" using qs(3,4) at_rank [OF assms(3,1)] by fastforce
  have l: "length (lf_value l) = 64" "length (cstr (lf_id l)) \<le> 32"
    using values_okD [OF assms(2,8,9)] param_okD(7) [OF tree_param [OF assms(1,8)]] assms(9)
    by (simp_all add: id_length_def)
  have n: "length (leaf_tlvs (params s) (rev ps)) < 1000000" using at_leaves [OF assms(3,1)] by simp
  let ?l = "l\<lparr>lf_value := new_value tok (lf_value l)\<rparr>"
  let ?h = "(params s)(r \<mapsto> rc\<lparr>p_kind := LeafP ?l\<rparr>)"
  note eq = take_leaf_eq [OF assms(10) l(1,2) assms(4) n, of ev r rc]
  have t: "length tok < 64" using eq assms(11) by (auto split: if_splits)
  then obtain b where b: "s' = s\<lparr>sh_cli := (sh_cli s)\<lparr>cl_params := ?h, cl_tlv_buff := b\<rparr>\<rparr>"
      "sb_tlvs b (leaf_tlvs (params s) (rev ps) @ [leaf_tlv ?l])" "sb_checkpoint b = sb_checkpoint (tlv_buff s)"
    using eq assms(11) by auto
  have c: "cleared (rc\<lparr>p_kind := LeafP ?l\<rparr>) = cleared rc" using assms(9) by (simp add: cleared_def)
  have same: "same_tree (params s) ?h" using same_tree_update [where h = "params s" and p = r, OF assms(8) c] .
  have "values_ok ?h" using assms(2) new_value(2,3) [OF assms(10) t l(1)] by (auto simp: values_ok_def value_ok_def)
  moreover have "leaf_tlvs ?h (rev (r # qs)) = leaf_tlvs (params s) (rev ps) @ [leaf_tlv ?l]"
    using leaf_tlvs_update [OF r] qs(2) by simp
  moreover have "at ?h r (r # qs)" using branch_same [OF same qs(1)] by (simp add: at_def)
  moreover have "rk z \<le> rk x \<Longrightarrow> ?h z = params s z" for z using qs(3) by auto
  ultimately show ?thesis
    using b same by (intro exI [of _ qs]) (auto simp: walked_def get_cmd_tree_cursor_def)
qed

lemma special_loop:
  assumes "token_loop ev off i parent x eod s n = Some (Inr (w, s'))" "tree_ok rk (params s)" "special x"
  shows "sh_cli s' = sh_cli s \<and> sh_code s' = sh_code s \<and> (wk_status w = COMPLETE \<longrightarrow> wk_param w = Some x \<and> wk_parent w = parent)"
proof (cases n)
  case (Suc k)
  obtain tok c m s1 where t: "token_str (sh_cli s) True (off + i) = Inr tok" "params s x = Some c"
      "match_token (p_options c) tok s = Inr (m, s1)"
    using assms(1) Suc by (auto simp: pget_def split: option.splits)
  have "m = None" by (rule special_no_options [OF assms(2,3) t(2,3)])
  then show ?thesis using assms(1) Suc t match_token_frame(1,3) [OF t(3)] by (auto simp: pget_def)
qed (use assms in auto)

definition moves_up :: "param_heap \<Rightarrow> pptr \<Rightarrow> bool" where
  "moves_up h p \<longleftrightarrow> (case h p of None \<Rightarrow> False
     | Some c \<Rightarrow> p_callback c = Some exit_cmd_handler \<or> p_callback c = Some end_cmd_handler)"

lemma moves_up_same: "same_tree h h' \<Longrightarrow> moves_up h' p = moves_up h p"
  using same_tree_None [of h h' p]
  by (cases "h p") (auto simp: moves_up_def dest!: same_tree_Some dest: cleared_eqD(3) split: option.splits)

lemma token_str_same: "cl_tokens c' = cl_tokens c \<Longrightarrow> token_str c' arr i = token_str c arr i"
  by (simp add: token_str_def)

text \<open>
  The parameter a complete walk ends at: the position itself, or a special option of it. When a
  token was read, it abbreviates that parameter, unless it is a leaf, and a handler that moves up is
  reached from the root only.
\<close>

definition ends_at :: "'a shell \<Rightarrow> pptr \<Rightarrow> nat \<Rightarrow> nat \<Rightarrow> walk \<Rightarrow> pptr \<Rightarrow> bool" where
  "ends_at s x j n w y \<longleftrightarrow>
     (\<exists>p. wk_param w = Some p \<and>
        (special p \<and> wk_parent w = Some y \<and> (\<exists>c. params s y = Some c \<and> p \<in> set (live_options (p_options c))) \<or>
         \<not> special p \<and> p = y) \<and>
        (n = 0 \<and> p = x \<or>
         n \<noteq> 0 \<and> (moves_up (params s) p \<longrightarrow> x = libcli_get_root) \<and>
         (\<exists>tok. token_str (sh_cli s) True (j + n - 1) = Inr tok \<and>
            (is_leaf (params s) p \<or> prefix tok (name_of (params s) p)))))"

lemma ends_at_step:
  assumes "ends_at s2 r (Suc j) n w y" "same_tree (params s) (params s2)" "cl_tokens (sh_cli s2) = cl_tokens (sh_cli s)"
    and "r \<noteq> libcli_get_root" "moves_up (params s) r \<Longrightarrow> x = libcli_get_root" "token_str (sh_cli s) True j = Inr tok"
    and "is_leaf (params s) r \<or> prefix tok (name_of (params s) r)"
  shows "ends_at s x j (Suc n) w y"
proof -
  obtain p where p: "wk_param w = Some p"
      "special p \<and> wk_parent w = Some y \<and> (\<exists>c. params s2 y = Some c \<and> p \<in> set (live_options (p_options c))) \<or>
       \<not> special p \<and> p = y"
      "n = 0 \<and> p = r \<or> n \<noteq> 0 \<and> (moves_up (params s2) p \<longrightarrow> r = libcli_get_root) \<and>
         (\<exists>tok. token_str (sh_cli s2) True (Suc j + n - 1) = Inr tok \<and>
            (is_leaf (params s2) p \<or> prefix tok (name_of (params s2) p)))"
    using assms(1) by (auto simp: ends_at_def)
  have "\<exists>c. params s y = Some c \<and> p \<in> set (live_options (p_options c))"
    if "params s2 y = Some c" "p \<in> set (live_options (p_options c))" for c
    using same_tree_Some [OF same_tree_sym [OF assms(2)] that(1)] that(2) cleared_eqD(2) by metis
  moreover have "moves_up (params s2) p = moves_up (params s) p" "is_leaf (params s2) p = is_leaf (params s) p"
      "name_of (params s2) p = name_of (params s) p"
    using moves_up_same is_leaf_same name_of_same assms(2) by blast+
  moreover have "token_str (sh_cli s2) True (Suc j + n - 1) = token_str (sh_cli s) True (j + Suc n - 1)"
    using token_str_same [OF assms(3)] by simp
  ultimately have "special p \<and> wk_parent w = Some y \<and> (\<exists>c. params s y = Some c \<and> p \<in> set (live_options (p_options c))) \<or>
       \<not> special p \<and> p = y"
     "(moves_up (params s) p \<longrightarrow> x = libcli_get_root) \<and> (\<exists>tok. token_str (sh_cli s) True (j + Suc n - 1) = Inr tok \<and>
            (is_leaf (params s) p \<or> prefix tok (name_of (params s) p)))"
    using p(2,3) assms(4-7) by auto
  with p(1) show ?thesis unfolding ends_at_def by blast
qed

lemma token_loop_walks:
  assumes "token_loop ev off i parent x eod s n = Some (Inr (w, s'))" "tree_ok rk (params s)"
    and "values_ok (params s)" "at (params s) x ps" "sb_tlvs (tlv_buff s) (leaf_tlvs (params s) (rev ps))"
    and "\<not> special x"
  shows "\<exists>y qs. walked rk s x ps s' y qs \<and> \<not> special y \<and> (y = x \<or> y \<noteq> libcli_get_root \<and> y \<noteq> libcli_get_do_hook) \<and>
    (wk_status w = COMPLETE \<longrightarrow> ends_at s x (off + i) n w y)"
  using assms
proof (induction n arbitrary: i parent x eod s ps)
  case 0
  then have e: "s' = s" "wk_param w = Some x" by auto
  have "walked rk s x ps s' x ps" using walked_refl [OF 0(4,3,5)] e(1) by simp
  then show ?case using e(2) 0(6) by (intro exI [of _ x] exI [of _ ps]) (simp add: ends_at_def)
next
  case (Suc n)
  obtain tok c m s1 where t: "token_str (sh_cli s) True (off + i) = Inr tok" "params s x = Some c"
      "match_token (p_options c) tok s = Inr (m, s1)"
    using Suc.prems(1) by (auto simp: pget_def split: option.splits)
  have cli: "sh_cli s1 = sh_cli s" "sh_code s1 = sh_code s" using match_token_frame(1,3) [OF t(3)] .
  have p1: "pget (params s) x = Inr c" using t(2) by (simp add: pget_def)
  have stop: "?case" if "wk_status w \<noteq> COMPLETE" "sh_cli s' = sh_cli s" "sh_code s' = sh_code s"
    using walked_refl [where rk = rk, OF Suc.prems(4,3,5) that(2,3)] Suc.prems(6) that(1) by blast
  show ?case
  proof (cases m)
    case None
    then have "wk_status w = CMD_NOT_FOUND \<and> s' = s1" using Suc.prems(1) t p1 by auto
    with stop cli show ?thesis by simp
  next
    case (Some r)
    have r: "r \<in> set (live_options (p_options c))" "is_leaf (params s) r \<or> prefix tok (name_of (params s) r)"
      using match_token_frame(2,4) [OF t(3)] Some by simp_all
    have o: "option_ok rk (params s) x c r" using tree_param [OF Suc.prems(2) t(2)] r(1) by (rule param_okD(2))
    then obtain rc where rc: "params s r = Some rc" by (auto simp: option_ok_def split: option.splits)
    have up: "moves_up (params s) r \<Longrightarrow> x = libcli_get_root" using o rc by (auto simp: option_ok_def moves_up_def)
    have rr: "r \<noteq> libcli_get_root" "rk x < rk r" "r \<noteq> libcli_get_do_hook" using o by (auto simp: option_ok_def)
    have p2: "pget (params s1) r = Inr rc" using rc cli by (simp add: pget_def)
    have tree1: "tree_ok rk (params s1)" using Suc.prems(2) cli by simp
    note body = Suc.prems(1) [unfolded token_loop.simps t(1) p1 obind.simps t(3) Some option.case prod.case p2]
    show ?thesis
    proof (cases "special r")
      case True
      then have "IS_PARAM_CMD rc" using tree_param [OF Suc.prems(2) rc] by (blast intro: param_okD(5))
      then obtain nm where "p_kind rc = CmdP nm" by (cases "p_kind rc") auto
      with body have "token_loop ev off (Suc i) (Some x) r eod s1 n = Some (Inr (w, s'))" by simp
      note sp = special_loop [OF this tree1 True]
      have "wk_status w = COMPLETE \<longrightarrow> ends_at s x (off + i) (Suc n) w x"
      proof (intro impI)
        assume c: "wk_status w = COMPLETE"
        have "n = 0"
        proof (rule ccontr)
          assume "n \<noteq> 0"
          then obtain k where k: "n = Suc k" by (cases n) auto
          obtain tok' where "token_str (sh_cli s1) True (off + Suc i) = Inr tok'"
            using \<open>token_loop ev off (Suc i) (Some x) r eod s1 n = _\<close> k by auto
          with special_no_options [OF tree1 True, of rc tok'] rc cli(1) c k
            \<open>token_loop ev off (Suc i) (Some x) r eod s1 n = _\<close>
          show False by (auto simp: pget_def)
        qed
        then show "ends_at s x (off + i) (Suc n) w x"
          using sp c True t(1,2) r up by (simp add: ends_at_def)
      qed
      moreover have "walked rk s x ps s' x ps" using walked_refl [where rk = rk, OF Suc.prems(4,3,5)] sp cli by simp
      ultimately show ?thesis using Suc.prems(6) by blast
    next
      case False
      have step: "?thesis"
        if g: "token_loop ev off (Suc i) (Some x) r eod' s2 n = Some (Inr (w, s'))"
          "walked rk s x ps s2 r (r # qs)" for s2 eod' qs
      proof -
        have w2: "values_ok (params s2)" "at (params s2) r (r # qs)" "same_tree (params s) (params s2)"
            "sb_tlvs (tlv_buff s2) (leaf_tlvs (params s2) (rev (r # qs)))" "cl_tokens (sh_cli s2) = cl_tokens (sh_cli s)"
          using g(2) unfolding walked_def by blast+
        have tree2: "tree_ok rk (params s2)" using tree_ok_same [OF w2(3) Suc.prems(2)] .
        obtain y zs where y: "walked rk s2 r (r # qs) s' y zs" "\<not> special y"
            "y = r \<or> y \<noteq> libcli_get_root \<and> y \<noteq> libcli_get_do_hook"
            "wk_status w = COMPLETE \<longrightarrow> ends_at s2 r (off + Suc i) n w y"
          using Suc.IH [OF g(1) tree2 w2(1,2,4) False] by blast
        have "walked rk s x ps s' y zs" using walked_trans [OF g(2) y(1)] rr(2) by simp
        moreover have "wk_status w = COMPLETE \<longrightarrow> ends_at s x (off + i) (Suc n) w y"
          using y(4) ends_at_step [OF _ w2(3,5) rr(1) up t(1) r(2)] by simp
        ultimately show ?thesis using y(2,3) rr(1,3) by blast
      qed
      have s1: "walked rk s x ps s1 y qs = walked rk s x ps s y qs" for y qs using cli by (simp add: walked_def)
      show ?thesis
      proof (cases "p_kind rc")
        case (CmdP nm)
        then obtain qs where "walked rk s x ps s r (r # qs)"
          using walked_step [OF Suc.prems(2-5) t(2) r(1) False rc] by auto
        with step [of eod s1] body CmdP s1 show ?thesis by simp
      next
        case (NoCmdP nm)
        then obtain qs where "walked rk s x ps s r (r # qs)"
          using walked_step [OF Suc.prems(2-5) t(2) r(1) False rc] by auto
        with step [of CONFIG_DISABLE s1] body NoCmdP s1 show ?thesis by simp
      next
        case (LeafP l)
        obtain ok where ok: "leaf_handler (lf_type l) tok = Inr ok" using body LeafP by auto
        show ?thesis
        proof (cases "ok \<and> INVOKE_LEAF_USER_VALIDATION_CALLBACK ev l tok")
          case False
          then have "s' = s1 \<and> wk_status w \<noteq> COMPLETE" using body LeafP ok by (auto split: if_splits)
          with stop cli show ?thesis by simp
        next
          case True
          then obtain s2 where s2: "take_leaf ev r rc l tok s1 = Some (Inr s2)"
              "token_loop ev off (Suc i) (Some x) r eod s2 n = Some (Inr (w, s'))"
            using body LeafP ok by auto
          from walked_leaf [of rk s1 x ps c r rc l tok ev s2] Suc.prems(2-5) t(2) r(1) False rc LeafP cli s2(1)
            token_str_word [OF t(1)]
          obtain qs where "walked rk s1 x ps s2 r (r # qs)" by auto
          then have "walked rk s x ps s2 r (r # qs)" using cli by (simp add: walked_def)
          from step [OF s2(2) this] show ?thesis .
        qed
      qed
    qed
  qed
qed

end
