(* ===== verification/CmdMode.thy ===== *)
theory CmdMode
  imports CmdWalk
begin

text \<open>
  The invariant of the mode: between two commands the buffer holds the leaves of the branch that
  the cursor is in, and its checkpoint is behind them. First the handlers that leave the command
  line alone, then the operations that collect records or move the cursor, then whole commands.
\<close>

section \<open>Operations that leave the command line alone\<close>

text \<open>Prompt and tokens may change; tree, cursor, buffer and the shape of the code record do not.\<close>

definition calm :: "'a shell \<Rightarrow> 'a shell \<Rightarrow> bool" where
  "calm s s' \<longleftrightarrow> params s' = params s \<and> cursor s' = cursor s \<and> tlv_buff s' = tlv_buff s \<and>
     (tlv_ok (sh_code s) \<longrightarrow> tlv_ok (sh_code s'))"

lemma calm_refl [simp]: "calm s s"
  by (simp add: calm_def)

lemma calm_trans: "calm s s1 \<Longrightarrow> calm s1 s2 \<Longrightarrow> calm s s2"
  by (simp add: calm_def)

lemma calm_frame: "sh_cli s' = sh_cli s \<Longrightarrow> sh_code s' = sh_code s \<Longrightarrow> calm s s'"
  by (simp add: calm_def)

lemma calm_say [simp]: "calm s (say l s)"
  by (simp add: calm_frame)

definition cli_calm :: "cli \<Rightarrow> cli \<Rightarrow> bool" where
  "cli_calm c c' \<longleftrightarrow> cl_params c' = cl_params c \<and> cl_cursor c' = cl_cursor c \<and> cl_tlv_buff c' = cl_tlv_buff c"

lemma prompt_tokens_calm: "prompt_tokens c = Inr (c', arr, n) \<Longrightarrow> cli_calm c c'"
  by (auto simp: prompt_tokens_def cli_calm_def)

lemma reset_prompt_calm: "reset_prompt c = Inr c' \<Longrightarrow> cli_calm c c'"
  by (auto simp: reset_prompt_def cli_calm_def dest!: prompt_tokens_calm)

lemma set_device_name_calm: "set_device_name n c = Inr c' \<Longrightarrow> cli_calm c c'"
  by (auto simp: set_device_name_def cli_calm_def split: option.splits if_splits dest!: prompt_tokens_calm)

lemma build_mode_console_name_calm: "build_mode_console_name po c = Some (Inr c') \<Longrightarrow> cli_calm c c'"
  by (auto simp: build_mode_console_name_def cli_calm_def split: option.splits if_splits sum.splits
      dest!: prompt_tokens_calm)

lemma on_cli_calm: "on_cli f s = Inr s' \<Longrightarrow> (\<And>c c'. f c = Inr c' \<Longrightarrow> cli_calm c c') \<Longrightarrow> calm s s'"
  by (auto simp: on_cli_def calm_def cli_calm_def get_cmd_tree_cursor_def)

lemma on_cli_opt_calm:
  "on_cli_opt f s = Some (Inr s') \<Longrightarrow> (\<And>c c'. f c = Some (Inr c') \<Longrightarrow> cli_calm c c') \<Longrightarrow> calm s s'"
  by (auto simp: on_cli_opt_def calm_def cli_calm_def get_cmd_tree_cursor_def)

lemma console_name_loop_calm: "console_name_loop eod ts s = Inr s' \<Longrightarrow> calm s s'"
proof (induction ts arbitrary: s)
  case (Cons t ts)
  then obtain s1 where s1: "(if eod = CONFIG_ENABLE then on_cli (set_device_name (Some (cstr (tlv_value t)))) s
            else if strn_prefix (cstr (cl_console (sh_cli s))) (cstr (tlv_value t))
            then on_cli (set_device_name (Some ''TcpServerProject'')) s
            else Inr (say ''Error : Incorrect device name'' s)) = Inr s1" "console_name_loop eod ts s1 = Inr s'"
    by auto
  have "calm s s1" using s1(1) by (auto split: if_splits intro: on_cli_calm set_device_name_calm)
  from calm_trans [OF this Cons.IH [OF s1(2)]] show ?case .
qed simp

lemma expansion_calm: "display_cmd_expansion_callback_fn po s = Inr s' \<Longrightarrow> calm s s'"
  by (auto simp: display_cmd_expansion_callback_fn_def calm_def get_cmd_tree_cursor_def)

lemma registered_calm: "show_resgistered_cmd_handler_fn s = Inr s' \<Longrightarrow> calm s s'"
  by (auto simp: show_resgistered_cmd_handler_fn_def calm_def get_cmd_tree_cursor_def)

lemma cmd_tree_calm: "show_cmd_tree_fn s = Some (Inr s') \<Longrightarrow> calm s s'"
  by (auto simp: show_cmd_tree_fn_def calm_frame)

text \<open>The test runner, when its script gives no commands.\<close>

abbreviation no_parse :: "'a parse_fn" where
  "no_parse \<equiv> \<lambda>input s. None"

lemma sprintf_say_calm: "sprintf_say n t s = Inr s' \<Longrightarrow> calm s s'"
  by (auto simp: sprintf_say_def split: if_splits)

lemma on_ut_calm [simp]: "calm s (on_ut f s')  = calm s s'"
  by (simp add: on_ut_def calm_def)

lemma run_line_calm:
  assumes "run_line no_parse f n line r s = Some (Inr (r', s'))"
  shows "calm s s'"
proof -
  have calm_eq: "calm a (b\<lparr>sh_stdin := x\<rparr>) = calm a b" "calm a (b\<lparr>sh_out := y\<rparr>) = calm a b" for a b :: "'a shell" and x y
    by (simp_all add: calm_def)
  have "calm s s'" if "begin_test_case f n line r s = Inr (r', s')"
    using that by (auto simp: begin_test_case_def split: option.splits dest!: sprintf_say_calm)
  moreover have "calm s s'" if "end_test_case f n r s = Inr (r', s')"
    using that by (auto simp: end_test_case_def tc_print_result_def calm_eq dest!: sprintf_say_calm)
  moreover have "run_cmd_line no_parse line s \<noteq> Some (Inr s2)" for s2
    by (auto simp: run_cmd_line_def)
  moreover have "calm s s'" if "check_pattern m line r s = Inr (r', s')" for m
    using that by (auto simp: check_pattern_def Let_def calm_frame)
  moreover have "calm s s'" if "grep_line line s = Inr s'"
    using that by (auto simp: grep_line_def calm_def on_ut_def dest!: sprintf_say_calm)
  moreover have "calm s s'" if "store_line nm g line s = Inr s'" for nm g
    using that by (auto simp: store_line_def calm_def on_ut_def dest!: sprintf_say_calm)
  ultimately show ?thesis
    using assms unfolding run_line_def keep_def Let_def
    by (auto simp: calm_eq dest!: sprintf_say_calm split: if_splits)
qed

lemma run_loop_calm:
  assumes "run_loop no_parse f n r s = Some res"
  shows "case res of Inl _ \<Rightarrow> True | Inr (r', s') \<Rightarrow> calm s s'"
proof (rule run_loop.raw_induct [where ?P = "\<lambda>parse f n r s res. parse = no_parse \<longrightarrow>
    (case res of Inl _ \<Rightarrow> True | Inr (r', s') \<Rightarrow> calm s s')", rule_format, OF _ assms refl], goal_cases)
  case (1 rec parse f n r s res)
  show ?case
  proof (cases "fgets 512 (ur_file r)")
    case None
    with 1 show ?thesis by auto
  next
    case (Some lf)
    obtain line rest where lf: "lf = (line, rest)" by (cases lf)
    let ?turn = "if hd line \<noteq> CHR '':''
                 then Some (Inr (r\<lparr>ur_file := rest\<rparr>, if line = [newline] then say [] s else s))
                 else obind (Some (substitute_stores (sh_ut s) (takeWhile (\<lambda>c. c \<noteq> newline) (cstr line)))) (\<lambda>line.
                        run_line parse f n line (r\<lparr>ur_file := rest\<rparr>) s)"
    have calm: "calm s s1" if "?turn = Some (Inr (r1, s1))" for r1 s1
      using that 1(3) by (auto split: if_splits dest: run_line_calm)
    have "res = Inl e" if "?turn = Some (Inl e)" for e
      using 1(2) unfolding Some lf option.case prod.case that sum.case by simp
    moreover have "?thesis" if t: "?turn = Some (Inr (r1, s1))" for r1 s1
    proof (cases "ur_done r1")
      case True
      with 1(2) have "res = Inr (r1, s1)" unfolding Some lf option.case prod.case t sum.case by simp
      with calm [OF t] show ?thesis by simp
    next
      case False
      then have "rec parse f n r1 s1 = Some res"
        using 1(2) unfolding Some lf option.case prod.case t sum.case by simp
      from 1(1) [OF this 1(3)] calm_trans [OF calm [OF t]] show ?thesis by (auto split: sum.splits)
    qed
    moreover have "?turn \<noteq> None"
      using 1(2) unfolding Some lf option.case prod.case by (intro notI) simp
    moreover have "x = None \<or> (\<exists>e. x = Some (Inl e)) \<or> (\<exists>r1 s1. x = Some (Inr (r1, s1)))"
      for x :: "(ut_run \<times> 'a shell) res option"
      by (metis not_None_eq obj_sumE surj_pair)
    ultimately show ?thesis by (metis (lifting) sum.case(1))
  qed
qed

lemma fopen_read_calm: "fopen_read f s = Some (x, s') \<Longrightarrow> calm s s'"
  by (auto simp: fopen_read_def calm_frame split: if_splits option.splits)

lemma fclose_calm: "calm s s' \<Longrightarrow> calm s (fclose s')"
  by (simp add: fclose_def calm_def get_cmd_tree_cursor_def)

lemma run_test_case_calm:
  assumes "run_test_case ev no_parse f n s = Some (Inr (b, s'))"
  shows "calm s s'"
proof -
  obtain x s0 r s1 where "fopen_read f s = Some (x, s0)" and
      "\<exists>r0. run_loop no_parse f n r0 s0 = Some (Inr (r, s1))" and
      "s' = on_ut (\<lambda>u. u\<lparr>TC_RUNNING := False\<rparr>) (fclose s1)"
    using assms by (auto simp: run_test_case_def split: option.splits) blast+
  then have "calm s s0" "calm s0 s1" "calm (fclose s1) s'"
    using fopen_read_calm run_loop_calm by (fastforce, fastforce, simp add: calm_frame on_ut_def)
  then show ?thesis using calm_trans fclose_calm by blast
qed

text \<open>Handlers of the application leave the command line alone.\<close>

definition app_quiet :: "'a env \<Rightarrow> bool" where
  "app_quiet ev \<longleftrightarrow>
     (\<forall>n p m s s'. ev_callback ev n p m s = Inr s' \<longrightarrow> sh_cli s' = sh_cli s \<and> sh_code s' = sh_code s) \<and>
     (\<forall>n p s s'. ev_disp ev n p s = Inr s' \<longrightarrow> sh_cli s' = sh_cli s \<and> sh_code s' = sh_code s)"

lemma history_calm: "show_history_callback_fn ev no_parse s = Some (Inr s') \<Longrightarrow> calm s s'"
proof -
  assume h: "show_history_callback_fn ev no_parse s = Some (Inr s')"
  show ?thesis
  proof (cases "fopen_read CMD_HIST_RECORD_FILE s")
    case None
    with h show ?thesis by (simp add: show_history_callback_fn_def) (metis calm_say)
  next
    case (Some fs)
    obtain f so where fs: "fs = (f, so)" by (cases fs)
    define s0 where "s0 = so\<lparr>sh_out := sh_out so @ map (\<lambda>i. dec_digits i @ ''. '' @
      file_lines FILE_CMD_SIZE_MAX f ! i) [0..<length (file_lines FILE_CMD_SIZE_MAX f)]\<rparr>"
    have "\<exists>c s1. history_choice ev s0 = Inr (c, s1) \<and> s' = fclose (say ''Invalid choice'' s1)"
      using h unfolding show_history_callback_fn_def Some fs option.case prod.case Let_def s0_def [symmetric] obind.simps(1)
      by (simp split: if_splits) (metis old.prod.exhaust)
    then obtain c s1 where "history_choice ev s0 = Inr (c, s1)" "s' = fclose (say ''Invalid choice'' s1)" by blast
    then have "sh_cli s' = sh_cli so \<and> sh_code s' = sh_code so"
      by (auto simp: history_choice_def s0_def fclose_def)
    then show ?thesis using fopen_read_calm [OF Some [unfolded fs]] calm_trans calm_frame by blast
  qed
qed

lemma ut_handler_calm: "ut_test_handler_fn ev no_parse s = Some (Inr s') \<Longrightarrow> calm s s'"
  by (auto simp: ut_test_handler_fn_def split: if_splits dest: run_test_case_calm)

lemma callback_calm:
  assumes "run_callback ev no_parse invk p cb eod s = Some (Inr s')" "app_quiet ev"
    and "cb \<noteq> mode_enter_callback" "cb \<noteq> display_sub_options_callback" "cb \<noteq> config_mode_enter_handler"
    and "cb \<noteq> exit_cmd_handler" "cb \<noteq> end_cmd_handler" "cb \<noteq> show_extension_param_handler"
  shows "calm s s'"
proof (cases cb)
  case (app_callback n)
  with assms(1,2) show ?thesis by (simp add: run_callback_def app_quiet_def calm_frame)
next
  case ut_test_handler
  with assms(1) ut_handler_calm show ?thesis by (simp add: run_callback_def)
next
  case show_history_callback
  with assms(1) history_calm show ?thesis by (simp add: run_callback_def)
next
  case show_cmd_tree
  with assms(1) cmd_tree_calm show ?thesis by (simp add: run_callback_def)
next
  case display_cmd_expansion_callback
  with assms(1) expansion_calm show ?thesis by (simp add: run_callback_def)
next
  case show_resgistered_cmd_handler
  with assms(1) registered_calm show ?thesis by (simp add: run_callback_def)
next
  case config_console_name_handler
  with assms(1) console_name_loop_calm show ?thesis
    by (auto simp: run_callback_def config_console_name_handler_fn_def)
next
  case show_help_handler
  with assms(1) show ?thesis by (auto simp: run_callback_def show_help_handler_fn_def intro: calm_frame)
next
  case supportsave_handler
  with assms(1) show ?thesis by (auto simp: run_callback_def supportsave_handler_fn_def split: op_mode.splits)
qed (use assms in \<open>auto simp: run_callback_def load_file_handler_fn_def cli_terminate_handler_fn_def
  repeat_last_command_fn_def clear_screen_handler_fn_def negate_callback_fn_def\<close>)

section \<open>Collecting records\<close>

definition grows :: "nat \<Rightarrow> 'a shell \<Rightarrow> 'a shell \<Rightarrow> bool" where
  "grows n s s' \<longleftrightarrow> params s' = params s \<and> cursor s' = cursor s \<and>
     sb_checkpoint (tlv_buff s') = sb_checkpoint (tlv_buff s) \<and> (tlv_ok (sh_code s) \<longrightarrow> tlv_ok (sh_code s')) \<and>
     (\<forall>ts. sb_tlvs (tlv_buff s) ts \<and> length ts + n \<le> 10000000 \<longrightarrow>
        (\<exists>us. length us \<le> n \<and> sb_tlvs (tlv_buff s') (ts @ us)))"

lemma calm_grows: "calm s s' \<Longrightarrow> grows 0 s s'"
  by (auto simp: calm_def grows_def)

lemma grows_trans:
  assumes "grows m s s1" "grows n s1 s2"
  shows "grows (m + n) s s2"
proof -
  have "\<exists>us. length us \<le> m + n \<and> sb_tlvs (tlv_buff s2) (ts @ us)"
    if t: "sb_tlvs (tlv_buff s) ts" "length ts + (m + n) \<le> 10000000" for ts
  proof -
    obtain us where us: "length us \<le> m" "sb_tlvs (tlv_buff s1) (ts @ us)"
      using assms(1) t by (auto simp: grows_def)
    then obtain vs where "length vs \<le> n" "sb_tlvs (tlv_buff s2) ((ts @ us) @ vs)"
      using assms(2) t(2) by (fastforce simp: grows_def)
    with us show ?thesis by (intro exI [of _ "us @ vs"]) simp
  qed
  with assms show ?thesis by (auto simp: grows_def)
qed

lemma grows_mono: "grows m s s' \<Longrightarrow> m \<le> n \<Longrightarrow> grows n s s'"
  unfolding grows_def by (meson add_le_mono le_refl le_trans)

lemma collect_grows:
  assumes "on_buff_opt (\<lambda>b. collect_tlv junk (Some b) t) s = Some (Inr s')" "tlv_ok t"
  shows "grows 1 s s'"
proof -
  obtain b where b: "collect_tlv junk (Some (tlv_buff s)) t = Some (Inr b)"
      "s' = s\<lparr>sh_cli := (sh_cli s)\<lparr>cl_tlv_buff := b\<rparr>\<rparr>"
    using assms(1) by (auto simp: shell_ops)
  have cp: "sb_checkpoint b = sb_checkpoint (tlv_buff s)"
    using b(1) by (auto simp: collect_tlv_def serialize_string_def serialize_bytes_def sb_put_def Let_def
        split: option.splits sum.splits if_splits)
  have "\<exists>us. length us \<le> 1 \<and> sb_tlvs b (ts @ us)" if "sb_tlvs (tlv_buff s) ts" "length ts + 1 \<le> 10000000" for ts
    using collect_tlv_appends [OF that(1) assms(2), of junk] that(2) b(1) by (intro exI [of _ "[t]"]) auto
  with b cp show ?thesis by (auto simp: grows_def get_cmd_tree_cursor_def)
qed

lemma display_grows:
  assumes "display_sub_options_callback_fn ev p s = Some (Inr s')" "app_quiet ev"
  shows "grows 1 s s'"
proof -
  obtain c ls where c: "pget (params s) p = Inr c" and
    r: "(case p_disp_callback c of None \<Rightarrow> Some (Inr s1)
       | Some d \<Rightarrow> obind (on_buff_opt (\<lambda>b. collect_tlv (ev_junk ev) (Some b) tlv_zero) s1) (\<lambda>s.
             Some (ev_disp ev d p (say ''possible values :'' s)))) = Some (Inr s')"
     if "s1 = (if p_callback c \<noteq> None then say ''<Enter>'' s else s)\<lparr>sh_out :=
            sh_out (if p_callback c \<noteq> None then say ''<Enter>'' s else s) @ ls\<rparr>" for s1
    using assms(1) by (auto simp: display_sub_options_callback_fn_def Let_def)
  define s1 where "s1 = (if p_callback c \<noteq> None then say ''<Enter>'' s else s)\<lparr>sh_out :=
            sh_out (if p_callback c \<noteq> None then say ''<Enter>'' s else s) @ ls\<rparr>"
  have calm1: "grows 0 s s1" by (rule calm_grows) (simp add: s1_def calm_frame)
  show ?thesis
  proof (cases "p_disp_callback c")
    case None
    with r [OF s1_def] calm1 show ?thesis by (auto intro: grows_mono)
  next
    case (Some d)
    with r [OF s1_def] obtain s2 where s2: "on_buff_opt (\<lambda>b. collect_tlv (ev_junk ev) (Some b) tlv_zero) s1 = Some (Inr s2)"
        "ev_disp ev d p (say ''possible values :'' s2) = Inr s'" by auto
    have "grows 0 s2 s'" using s2(2) assms(2) by (intro calm_grows calm_frame) (auto simp: app_quiet_def)
    with grows_trans [OF calm1 collect_grows [OF s2(1) tlv_zero_ok]] grows_trans show ?thesis by force
  qed
qed

lemma extension_grows:
  assumes "show_extension_param_handler_fn ev p s = Some (Inr s')"
  shows "grows 1 s s'"
proof (cases "p = libcli_get_show_brief_extension_param")
  case False
  with assms show ?thesis by (auto simp: show_extension_param_handler_fn_def intro: grows_mono [OF calm_grows])
next
  case True
  then obtain t i where t: "put_value_in_tlv tlv_zero ''SHOW_BRIEF'' = Inr t"
      "c_strncpy (tlv_leaf_id t) ''SHOW_EXTENSIONS'' 20 = Inr i"
      "on_buff_opt (\<lambda>b. collect_tlv (ev_junk ev) (Some b) (t\<lparr>tlv_leaf_type := LT_INVALID, tlv_leaf_id := i\<rparr>)) s = Some (Inr s')"
    using assms by (auto simp: show_extension_param_handler_fn_def)
  have "tlv_ok (t\<lparr>tlv_leaf_type := LT_INVALID, tlv_leaf_id := i\<rparr>)"
    using t(1,2) by (auto simp: put_value_in_tlv_def c_strncpy_def memcpy_def Let_def tlv_ok_def tlv_zero_def
        LEAF_VALUE_HOLDER_SIZE_def LEAF_ID_SIZE_def length_blit split: if_splits)
  from collect_grows [OF t(3) this] show ?thesis .
qed

lemma set_command_code_calm: "set_command_code n s = Inr s' \<Longrightarrow> calm s s'"
  by (auto simp: set_command_code_def calm_def c_sprintf_def memcpy_def length_blit tlv_ok_def
      LEAF_VALUE_HOLDER_SIZE_def split: if_splits)

lemma command_code_grows:
  assumes "set_command_code n s = Inr s1" "collect_command_code ev s1 = Some (Inr s2)" "tlv_ok (sh_code s)"
  shows "grows 1 s s2"
proof -
  have "calm s s1" using set_command_code_calm [OF assms(1)] .
  moreover from this have "tlv_ok (sh_code s1)" using assms(3) by (simp add: calm_def)
  then have "grows 1 s1 s2" using collect_grows assms(2) by (auto simp: collect_command_code_def)
  ultimately show ?thesis using grows_trans [OF calm_grows] by force
qed

text \<open>Every handler that is not for moving the cursor.\<close>

lemma callback_grows:
  assumes "run_callback ev no_parse invk p cb eod s = Some (Inr s')" "app_quiet ev"
    and "cb \<noteq> mode_enter_callback" "cb \<noteq> config_mode_enter_handler"
    and "cb \<noteq> exit_cmd_handler" "cb \<noteq> end_cmd_handler"
  shows "grows 1 s s'"
proof -
  consider "cb = display_sub_options_callback" | "cb = show_extension_param_handler"
    | "cb \<noteq> display_sub_options_callback \<and> cb \<noteq> show_extension_param_handler" by blast
  then show ?thesis
  proof cases
    case 1
    with assms(1,2) show ?thesis by (auto simp: run_callback_def simp del: One_nat_def intro: display_grows)
  next
    case 2
    with assms(1) show ?thesis by (auto simp: run_callback_def simp del: One_nat_def intro: extension_grows)
  next
    case 3
    with callback_calm [OF assms(1-3)] assms(4-6) show ?thesis by (auto intro: grows_mono [OF calm_grows])
  qed
qed

section \<open>The invariant\<close>

text \<open>
  During a command the buffer may hold more behind the leaves of the branch, at most \<open>n\<close> records;
  between two commands it does not.
\<close>

definition shell_ok :: "(pptr \<Rightarrow> nat) \<Rightarrow> 'a shell \<Rightarrow> bool" where
  "shell_ok rk s \<longleftrightarrow> tree_ok rk (params s) \<and> values_ok (params s) \<and> tlv_ok (sh_code s)"

definition settled :: "nat \<Rightarrow> (pptr \<Rightarrow> nat) \<Rightarrow> 'a shell \<Rightarrow> bool" where
  "settled n rk s \<longleftrightarrow> shell_ok rk s \<and>
     (\<exists>p ps ts. cursor s = Some p \<and> \<not> special p \<and> at (params s) p ps \<and> length ts \<le> n \<and>
        sb_tlvs (tlv_buff s) (leaf_tlvs (params s) (rev ps) @ ts) \<and>
        sb_checkpoint (tlv_buff s) = int (100 * length (leaf_tlvs (params s) (rev ps))))"

lemma settled_grows:
  assumes "settled n rk s" "grows m s s'" "n + m \<le> 5000"
  shows "settled (n + m) rk s'"
proof -
  obtain p ps ts where sp: "\<not> special p" and p: "cursor s = Some p" "at (params s) p ps" "length ts \<le> n"
      "sb_tlvs (tlv_buff s) (leaf_tlvs (params s) (rev ps) @ ts)"
      "sb_checkpoint (tlv_buff s) = int (100 * length (leaf_tlvs (params s) (rev ps)))" "shell_ok rk s"
    using assms(1) by (auto simp: settled_def)
  have "length (leaf_tlvs (params s) (rev ps)) \<le> 1001" using p(2,6) at_leaves by (auto simp: shell_ok_def)
  then have "length (leaf_tlvs (params s) (rev ps) @ ts) + m \<le> 10000000" using p(3) assms(3) by simp
  then obtain us where "length us \<le> m" "sb_tlvs (tlv_buff s') ((leaf_tlvs (params s) (rev ps) @ ts) @ us)"
    using assms(2) p(4) unfolding grows_def by blast
  with p sp assms(2) show ?thesis
    by (auto simp: settled_def grows_def shell_ok_def intro!: exI [of _ ps] exI [of _ "ts @ us"])
qed

lemma settled_mono: "settled m rk s \<Longrightarrow> m \<le> n \<Longrightarrow> settled n rk s"
  unfolding settled_def by (meson le_trans)

text \<open>Moving the cursor to a position whose leaves are in the buffer, after marking.\<close>

lemma settled_move:
  assumes "shell_ok rk s" "at (params s) y qs" "sb_tlvs (tlv_buff s) (leaf_tlvs (params s) (rev qs))"
    and "mark_checkpoint s = Inr s1" "grows m s1 s2" "m \<le> 100"
    and "params s3 = params s2" "tlv_buff s3 = tlv_buff s2" "cursor s3 = Some y" "tlv_ok (sh_code s3)" "\<not> special y"
  shows "settled m rk s3"
proof -
  have s1: "params s1 = params s" "sb_checkpoint (tlv_buff s1) = sb_next (tlv_buff s)"
      "sb_tlvs (tlv_buff s1) (leaf_tlvs (params s) (rev qs))"
    using assms(3,4) by (auto simp: mark_checkpoint_def shell_ops mark_checkpoint_serialize_buffer_def
        sb_tlvs_def sb_ok_def sb_bytes_def)
  have "length (leaf_tlvs (params s) (rev qs)) \<le> 1001" using assms(1,2) at_leaves by (auto simp: shell_ok_def)
  then obtain us where "length us \<le> m" "sb_tlvs (tlv_buff s2) (leaf_tlvs (params s) (rev qs) @ us)"
    using assms(5,6) s1(3) unfolding grows_def by force
  moreover have "sb_checkpoint (tlv_buff s2) = int (100 * length (leaf_tlvs (params s) (rev qs)))"
    using s1(2) sb_tlvs_next [OF assms(3)] assms(5) by (simp add: grows_def)
  ultimately show ?thesis
    using assms s1(1) by (auto simp: settled_def shell_ok_def grows_def intro!: exI [of _ qs] exI [of _ us])
qed

text \<open>Cleaning up after the command.\<close>

lemma sb_tlvs_cut:
  assumes "sb_tlvs b (ts @ us)"
  shows "sb_tlvs (b\<lparr>sb_next := int (100 * length ts)\<rparr>) ts"
proof -
  have nx: "sb_next b = int (100 * length (ts @ us))" using sb_tlvs_next [OF assms] .
  have l: "length (concat (map tlv_bytes ts)) = 100 * length ts"
    using assms length_concat_tlvs [of ts] by (simp add: sb_tlvs_def)
  have "sb_bytes (b\<lparr>sb_next := int (100 * length ts)\<rparr>) = take (100 * length ts) (sb_bytes b)"
    using nx by (simp add: sb_bytes_def min_def nat_mult_distrib)
  also have "\<dots> = concat (map tlv_bytes ts)" using assms l by (simp add: sb_tlvs_def)
  finally show ?thesis using assms nx by (auto simp: sb_tlvs_def sb_ok_def)
qed

lemma after_command_settles:
  assumes "settled n rk s" "after_command s = Inr s'" "cursor s \<noteq> Some libcli_get_do_hook"
  shows "settled 0 rk s' \<and> cursor s' = cursor s \<and> cursor s' \<noteq> Some libcli_get_do_hook"
proof -
  obtain p ps ts where sp: "\<not> special p" and p: "cursor s = Some p" "at (params s) p ps" "length ts \<le> n"
      "sb_tlvs (tlv_buff s) (leaf_tlvs (params s) (rev ps) @ ts)"
      "sb_checkpoint (tlv_buff s) = int (100 * length (leaf_tlvs (params s) (rev ps)))" "shell_ok rk s"
    using assms(1) by (auto simp: settled_def)
  obtain tk where tk: "re_init_tokens MAX_CMD_TREE_DEPTH (cl_tokens (sh_cli s)) = Inr tk"
    using assms(2) by (auto simp: after_command_def)
  show ?thesis
  proof (cases "p = libcli_get_root")
    case True
    then have ps: "ps = []" using p(2) branch_root by (auto simp: at_def)
    have "sb_tlvs (reset_serialize_buffer (tlv_buff s)) []"
      using p(4) by (auto simp: reset_serialize_buffer_def sb_tlvs_def sb_ok_def sb_bytes_def)
    with True ps p sp assms(2,3) tk show ?thesis
      by (auto simp: after_command_def is_user_in_cmd_mode_def get_cmd_tree_cursor_def shell_ops settled_def
          shell_ok_def at_def reset_serialize_buffer_def intro!: exI [of _ "[]"])
  next
    case False
    have "sb_tlvs ((tlv_buff s)\<lparr>sb_next := sb_checkpoint (tlv_buff s)\<rparr>) (leaf_tlvs (params s) (rev ps))"
      using sb_tlvs_cut [OF p(4)] p(5) by simp
    with False p sp assms(2,3) tk show ?thesis
      by (auto simp: after_command_def is_user_in_cmd_mode_def get_cmd_tree_cursor_def shell_ops settled_def
          shell_ok_def restore_checkpoint_serialize_buffer_def intro!: exI [of _ ps])
  qed
qed

section \<open>Moving up\<close>

lemma clear_leaf_value_cleared:
  "clear_leaf_value c = Inr c' \<Longrightarrow> c' = cleared c \<and> IS_PARAM_LEAF c \<and> value_ok c'"
  by (auto simp: clear_leaf_value_def cleared_def value_ok_def LEAF_VALUE_HOLDER_SIZE_def split: cmd_union.splits)

lemma cleared_idem [simp]: "cleared (cleared c) = cleared c"
  by (simp add: cleared_def split: cmd_union.splits)

lemma clear_update:
  assumes "values_ok h" "h p = Some c" "clear_leaf_value c = Inr c'"
  shows "same_tree h (h(p \<mapsto> c'))" "values_ok (h(p \<mapsto> c'))"
  using clear_leaf_value_cleared [OF assms(3)] assms(1,2)
  by (auto intro: same_tree_update simp: values_ok_def)

lemma top_loop_same:
  assumes "top_loop p h = Some res"
  shows "case res of Inl _ \<Rightarrow> True | Inr h' \<Rightarrow> values_ok h \<longrightarrow> same_tree h h' \<and> values_ok h'"
proof (rule top_loop.raw_induct [where ?P = "\<lambda>p h res. case res of Inl _ \<Rightarrow> True
    | Inr h' \<Rightarrow> values_ok h \<longrightarrow> same_tree h h' \<and> values_ok h'", OF _ assms], goal_cases)
  case (1 rec p h res)
  show ?case
  proof (cases "h p")
    case None
    with 1(2) show ?thesis by (auto simp: pget_def)
  next
    case (Some c)
    have p: "pget h p = Inr c" using Some by (simp add: pget_def)
    let ?turn = "if IS_PARAM_CMD c then Inr h else rbind (clear_leaf_value c) (\<lambda>c. Inr (h(p \<mapsto> c)))"
    show ?thesis
    proof (cases ?turn)
      case (Inl e)
      with 1(2) show ?thesis unfolding p sum.case by auto
    next
      case (Inr h1)
      have h1: "values_ok h \<Longrightarrow> same_tree h h1 \<and> values_ok h1"
        using Inr Some clear_update by (auto split: if_splits)
      show ?thesis
      proof (cases "p_parent c")
        case None
        with 1(2) show ?thesis unfolding p Inr sum.case by auto
      next
        case (Some q)
        have "(if q = libcli_get_root then Some (Inr h1) else rec q h1) = Some res"
          using 1(2) unfolding p Inr sum.case Some option.case .
        with h1 1(1) [of q h1 res] show ?thesis
          by (auto split: if_splits sum.splits intro: same_tree_trans)
      qed
    qed
  qed
qed

lemma settled_reset:
  assumes "shell_ok rk s" "sb_ok (tlv_buff s)" "0 < sb_size (tlv_buff s)"
    and "params s' = params s" "cursor s' = Some libcli_get_root \<or> cursor s' = Some libcli_get_do_hook"
    and "sh_code s' = sh_code s"
    and "tlv_buff s' = reset_serialize_buffer (tlv_buff s)"
  shows "settled 0 rk s'"
proof -
  have "sb_tlvs (tlv_buff s') []" using assms(2,3,7) by (auto simp: reset_serialize_buffer_def sb_tlvs_def sb_ok_def sb_bytes_def)
  moreover have "\<not> special libcli_get_root" "\<not> special libcli_get_do_hook" by (simp_all add: special_def hook_defs)
  ultimately show ?thesis using assms
    by (auto simp: settled_def shell_ok_def at_def reset_serialize_buffer_def intro!: exI [of _ "[]"])
qed

lemma settled_buff: "settled n rk s \<Longrightarrow> sb_ok (tlv_buff s) \<and> 0 < sb_size (tlv_buff s) \<and> shell_ok rk s"
  by (auto simp: settled_def sb_tlvs_def)

lemma root_not_hook [simp]: "libcli_get_root \<noteq> libcli_get_do_hook" "\<not> special libcli_get_root"
    "\<not> special libcli_get_do_hook"
  by (simp_all add: special_def hook_defs)

lemma end_settles:
  assumes "settled n rk s" "end_cmd_handler_fn s = Some (Inr s')"
  shows "settled n rk s' \<and> same_tree (params s) (params s') \<and>
    (cursor s' = Some libcli_get_root \<or> sh_cli s' = sh_cli s)"
proof -
  obtain p where p: "cursor s = Some p" using assms(1) by (auto simp: settled_def)
  obtain c where c: "goto_top_of_cmd_tree (Some p) (sh_cli s) = Some (Inr c)" "s' = s\<lparr>sh_cli := c\<rparr>"
    using assms(2) p by (auto simp: end_cmd_handler_fn_def on_cli_opt_def)
  show ?thesis
  proof (cases "p = libcli_get_root")
    case True
    then have "s' = s" using c by (cases s) (simp add: goto_top_of_cmd_tree_def)
    with assms(1) show ?thesis by simp
  next
    case False
    then obtain h where h: "top_loop p (params s) = Some (Inr h)"
        "reset_prompt (reset_cmd_tree_cursor ((sh_cli s)\<lparr>cl_params := h\<rparr>)) = Inr c"
      using c(1) by (auto simp: goto_top_of_cmd_tree_def split: option.splits sum.splits)
    have same: "same_tree (params s) h" "values_ok h"
      using top_loop_same [OF h(1)] settled_buff [OF assms(1)] by (auto simp: shell_ok_def)
    have calm: "cli_calm (reset_cmd_tree_cursor ((sh_cli s)\<lparr>cl_params := h\<rparr>)) c" using reset_prompt_calm [OF h(2)] .
    have "settled 0 rk s'"
    proof (rule settled_reset [where s = "s\<lparr>sh_cli := (sh_cli s)\<lparr>cl_params := h\<rparr>\<rparr>"])
      show "shell_ok rk (s\<lparr>sh_cli := (sh_cli s)\<lparr>cl_params := h\<rparr>\<rparr>)"
        using same settled_buff [OF assms(1)] tree_ok_same by (auto simp: shell_ok_def)
    qed (use calm c(2) settled_buff [OF assms(1)] in \<open>auto simp: cli_calm_def reset_cmd_tree_cursor_def get_cmd_tree_cursor_def\<close>)
    then show ?thesis using calm c(2) settled_mono [of 0 rk s' n] same(1)
      by (auto simp: cli_calm_def reset_cmd_tree_cursor_def get_cmd_tree_cursor_def)
  qed
qed

lemma exit_settles:
  assumes "settled n rk s" "exit_cmd_handler_fn ev s = Some (Inr s')"
    and "n = 0 \<or> (\<forall>p. cursor s = Some p \<longrightarrow> \<not> is_leaf (params s) p)"
  shows "settled n rk s' \<and> same_tree (params s) (params s') \<and>
    (cursor s' \<noteq> Some libcli_get_do_hook \<or> sh_cli s' = sh_cli s)"
proof -
  obtain p ps ts where p: "cursor s = Some p" "\<not> special p" "at (params s) p ps" "length ts \<le> n"
      "sb_tlvs (tlv_buff s) (leaf_tlvs (params s) (rev ps) @ ts)"
      "sb_checkpoint (tlv_buff s) = int (100 * length (leaf_tlvs (params s) (rev ps)))" "shell_ok rk s"
    using assms(1) by (auto simp: settled_def)
  obtain cl where cl: "go_one_level_up_cmd_tree (ev_junk ev) (Some p) (sh_cli s) = Some (Inr cl)" "s' = s\<lparr>sh_cli := cl\<rparr>"
    using assms(2) p(1) by (auto simp: exit_cmd_handler_fn_def on_cli_opt_def)
  show ?thesis
  proof (cases "p = libcli_get_root")
    case True
    then have "s' = s" using cl by (cases s) (simp add: go_one_level_up_cmd_tree_def)
    with assms(1) show ?thesis by simp
  next
    case False
    let ?up = "\<lambda>c. if IS_PARAM_LEAF c
                        then
                          (case serialize_buffer_skip (ev_junk ev) (tlv_buff s) (-1 * int TLV_SIZE) of
                             None \<Rightarrow> None
                           | Some r \<Rightarrow> Some (
                               rbind (clear_leaf_value c) (\<lambda>c.
                               rbind r (\<lambda>b. rbind (mark_checkpoint_serialize_buffer (Some b)) (\<lambda>b.
                                 Inr ((sh_cli s)\<lparr>cl_params := (params s)(p \<mapsto> c), cl_tlv_buff := b\<rparr>))))))
                        else Some (Inr (sh_cli s))"
    let ?fin = "\<lambda>s. if get_cmd_tree_cursor s = Some libcli_get_root
                           then Some (rbind (reset_prompt s) (\<lambda>s.
                                  Inr (s\<lparr>cl_tlv_buff := reset_serialize_buffer (cl_tlv_buff s)\<rparr>)))
                           else build_mode_console_name (get_cmd_tree_cursor s) s"
    obtain c where c: "params s p = Some c"
      using cl(1) False by (auto simp: go_one_level_up_cmd_tree_def pget_def split: option.splits)
    then have pg: "pget (params s) p = Inr c" by (simp add: pget_def)
    have pk: "param_ok rk (params s) p c" using p(7) c by (auto simp: shell_ok_def tree_ok_def)
    obtain c1 where c1: "?up c = Some (Inr c1)"
        "(case set_cmd_tree_cursor (p_parent c) c1 of Inl e \<Rightarrow> Some (Inl e) | Inr s \<Rightarrow> ?fin s) = Some (Inr cl)"
      using cl(1) unfolding go_one_level_up_cmd_tree_def option.case pg sum.case if_not_P [OF False]
      by (cases "?up c" rule: option.exhaust; simp split: sum.splits)
    obtain q where q: "p_parent c = Some q" using c1(2) by (cases "p_parent c") (auto simp: set_cmd_tree_cursor_def)
    have qq: "\<not> special q" "q \<noteq> libcli_get_do_hook"
      using param_okD(3) [OF pk q] by simp_all
    have br: "branch (params s) p ps"
      using p(3) False q param_okD(6) [OF pk] by (auto simp: at_def)
    then obtain qs where ps: "ps = p # qs" using branch_ConsD by blast
    have qat: "at (params s) q qs" using br c q unfolding ps branch_Cons by (auto simp: at_def split: if_splits)
    have rank: "p \<notin> set (rev qs)" using branch_rank [OF br] p(7) ps by (auto simp: shell_ok_def)
    text \<open>After the first half, the buffer and the tree are those of the parent.\<close>
    have half: "same_tree (params s) (cl_params c1) \<and> values_ok (cl_params c1) \<and>
        leaf_tlvs (cl_params c1) (rev qs) = leaf_tlvs (params s) (rev qs) \<and>
        sb_tlvs (cl_tlv_buff c1) (leaf_tlvs (params s) (rev qs) @ ts) \<and>
        sb_checkpoint (cl_tlv_buff c1) = int (100 * length (leaf_tlvs (params s) (rev qs)))"
    proof (cases "IS_PARAM_LEAF c")
      case False
      then have "leaf_tlvs (params s) (rev ps) = leaf_tlvs (params s) (rev qs)" "c1 = sh_cli s"
        using c1(1) c ps by (auto split: cmd_union.splits)
      with p show ?thesis by (simp add: shell_ok_def)
    next
      case True
      then have n: "ts = []" using assms(3) p(1,4) c by (auto simp: is_leaf_def)
      obtain l where l: "p_kind c = LeafP l" using True by (auto split: cmd_union.splits)
      have "leaf_tlvs (params s) (rev ps) = leaf_tlvs (params s) (rev qs) @ [leaf_tlv l]" using ps c l by simp
      with skip_back_one [of "tlv_buff s" "leaf_tlvs (params s) (rev qs)" "leaf_tlv l" "ev_junk ev"] p(5) n
      obtain b where b: "serialize_buffer_skip (ev_junk ev) (tlv_buff s) (-1 * int TLV_SIZE) = Some (Inr b)"
          "sb_tlvs b (leaf_tlvs (params s) (rev qs))" by auto
      obtain c' where c': "clear_leaf_value c = Inr c'" by (simp add: clear_leaf_value_def l)
      have e: "c1 = (sh_cli s)\<lparr>cl_params := (params s)(p \<mapsto> c'), cl_tlv_buff := b\<lparr>sb_checkpoint := sb_next b\<rparr>\<rparr>"
        using c1(1) True b(1) c' by (simp add: mark_checkpoint_serialize_buffer_def)
      have "sb_tlvs (b\<lparr>sb_checkpoint := sb_next b\<rparr>) (leaf_tlvs (params s) (rev qs))"
        using b(2) by (auto simp: sb_tlvs_def sb_ok_def sb_bytes_def)
      with e n sb_tlvs_next [OF b(2)] clear_update [where h = "params s" and p = p and c = c and c' = c'] c c' p(7) leaf_tlvs_update [OF rank, of "params s" c'] show ?thesis
        by (auto simp: shell_ok_def)
    qed
    have e: "?fin (c1\<lparr>cl_cursor := Some q\<rparr>) = Some (Inr cl)" using c1(2) q by (simp add: set_cmd_tree_cursor_def)
    have tree: "tree_ok rk (cl_params c1)" using half tree_ok_same p(7) by (auto simp: shell_ok_def)
    show ?thesis
    proof (cases "q = libcli_get_root")
      case True
      then obtain c2 where c2: "reset_prompt (c1\<lparr>cl_cursor := Some q\<rparr>) = Inr c2"
          "cl = c2\<lparr>cl_tlv_buff := reset_serialize_buffer (cl_tlv_buff c2)\<rparr>"
        using e by (auto simp: get_cmd_tree_cursor_def)
      have "settled 0 rk s'"
      proof (rule settled_reset [where s = "s\<lparr>sh_cli := c1\<rparr>"])
        show "shell_ok rk (s\<lparr>sh_cli := c1\<rparr>)" using half tree p(7) by (simp add: shell_ok_def)
      qed (use reset_prompt_calm [OF c2(1)] c2(2) half True cl(2) in
           \<open>auto simp: cli_calm_def get_cmd_tree_cursor_def sb_tlvs_def\<close>)
      then show ?thesis using settled_mono [of 0 rk s' n] reset_prompt_calm [OF c2(1)] c2(2) True cl(2) half
        by (auto simp: cli_calm_def get_cmd_tree_cursor_def)
    next
      case False
      then have "build_mode_console_name (Some q) (c1\<lparr>cl_cursor := Some q\<rparr>) = Some (Inr cl)"
        using e by (simp add: get_cmd_tree_cursor_def)
      from build_mode_console_name_calm [OF this]
      have k: "cl_params cl = cl_params c1" "cl_cursor cl = Some q" "cl_tlv_buff cl = cl_tlv_buff c1"
        by (auto simp: cli_calm_def)
      have "at (cl_params c1) q qs" using at_same half qat by blast
      with k half tree qq p(4,7) cl(2) show ?thesis
        by (auto simp: settled_def shell_ok_def get_cmd_tree_cursor_def intro!: exI [of _ qs])
    qed
  qed
qed

end
