(* ===== verification/ModeCommands.thy ===== *)
theory ModeCommands
  imports CmdMode
begin

text \<open>
  Whole commands keep the leaves of the mode: each special option, a plain command, the walk with
  what follows it, \<^verbatim>\<open>do\<close>, and the line of the user with the commands the parser
  knows itself. Lines that make a handler parse another line are left out here.
\<close>

section \<open>Commands\<close>

text \<open>Handlers that need no other handler and no other command.\<close>

lemma invoke_one: "invoke (Suc 0) ev p cb eod s = run_callback ev no_parse (\<lambda>p cb eod s. None) p cb eod s"
proof -
  have "parse_input_cmd 0 ev = no_parse" "invoke 0 ev = (\<lambda>p cb eod s. None)"
    by (intro ext, simp add: parse_input_cmd.simps invoke.simps)+
  then show ?thesis by (simp add: invoke.simps)
qed

text \<open>The state after a step of a command that started in \<open>s\<close>.\<close>

definition follows :: "nat \<Rightarrow> (pptr \<Rightarrow> nat) \<Rightarrow> 'a shell \<Rightarrow> 'a shell \<Rightarrow> bool" where
  "follows n rk s s' \<longleftrightarrow> settled n rk s' \<and> same_tree (params s) (params s')"

lemma follows_trans:
  "same_tree (params s) (params s1) \<Longrightarrow> follows n rk s1 s2 \<Longrightarrow> follows n rk s s2"
  using same_tree_trans by (auto simp: follows_def)

lemma follows_grows: "settled n rk s \<Longrightarrow> grows m s s' \<Longrightarrow> n + m \<le> 5000 \<Longrightarrow> follows (n + m) rk s s'"
  using settled_grows [of n rk s m s'] by (simp add: follows_def grows_def)

lemma follows_mono: "follows m rk s s' \<Longrightarrow> m \<le> n \<Longrightarrow> follows n rk s s'"
  using settled_mono by (auto simp: follows_def)

text \<open>A handler of a parameter that is neither the configuration nor the mode.\<close>

lemma handler_follows:
  assumes "settled n rk s" "invoke_handler (invoke (Suc 0) ev) p eod s = Some (Inr s')" "app_quiet ev" "n \<le> 4000"
    and "\<And>c. params s p = Some c \<Longrightarrow> p_callback c \<noteq> Some config_mode_enter_handler" "p \<noteq> libcli_get_mode_param"
    and "moves_up (params s) p \<Longrightarrow> n = 0 \<or> (\<forall>p. cursor s = Some p \<longrightarrow> \<not> is_leaf (params s) p)"
  shows "follows (n + 1) rk s s' \<and> (cursor s' = cursor s \<or> cursor s' \<noteq> Some libcli_get_do_hook)"
proof -
  have tree: "tree_ok rk (params s)" using assms(1) by (simp add: settled_def shell_ok_def)
  obtain c cb where c: "params s p = Some c" "p_callback c = Some cb"
      "run_callback ev no_parse (\<lambda>p cb eod s. None) p cb eod s = Some (Inr s')"
    using assms(2) by (auto simp: invoke_handler_def pget_def invoke_one split: option.splits)
  note pk = tree_param [OF tree c(1)]
  have cb: "cb \<noteq> mode_enter_callback" "cb \<noteq> config_mode_enter_handler"
    using param_okD(9) [OF pk] c(1,2) assms(5,6) by auto
  consider "cb = exit_cmd_handler" | "cb = end_cmd_handler" | "cb \<noteq> exit_cmd_handler \<and> cb \<noteq> end_cmd_handler" by blast
  then show ?thesis
  proof cases
    case 1
    then have "moves_up (params s) p" using c by (simp add: moves_up_def)
    with exit_settles [OF assms(1), of ev s'] 1 c(3) assms(7) show ?thesis
      by (auto simp: run_callback_def follows_def get_cmd_tree_cursor_def intro: settled_mono)
  next
    case 2
    with end_settles [OF assms(1), of s'] c(3) root_not_hook(1) [symmetric] show ?thesis
      by (auto simp: run_callback_def follows_def get_cmd_tree_cursor_def intro: settled_mono)
  next
    case 3
    then have "grows 1 s s'" using callback_grows [OF c(3) assms(3) cb] by blast
    moreover from follows_grows [OF assms(1) this] assms(4) have "follows (n + 1) rk s s'" by simp
    ultimately show ?thesis by (simp add: grows_def)
  qed
qed


text \<open>After the walk: the leaves of the position \<open>y\<close> are in the buffer, the cursor is still \<open>x\<close>.\<close>

definition arrived :: "(pptr \<Rightarrow> nat) \<Rightarrow> 'a shell \<Rightarrow> pptr \<Rightarrow> pptr list \<Rightarrow> bool" where
  "arrived rk s y qs \<longleftrightarrow> settled 1001 rk s \<and> at (params s) y qs \<and> \<not> special y \<and>
     sb_tlvs (tlv_buff s) (leaf_tlvs (params s) (rev qs))"

lemma walked_arrived:
  assumes "walked rk s x ps s' y qs" "settled 0 rk s" "cursor s = Some x" "at (params s) x ps"
    and "sb_checkpoint (tlv_buff s) = int (100 * length (leaf_tlvs (params s) (rev ps)))" "\<not> special x" "\<not> special y"
  shows "arrived rk s' y qs \<and> same_tree (params s) (params s') \<and> cursor s' = Some x"
proof -
  have w: "at (params s') y qs" "sb_tlvs (tlv_buff s') (leaf_tlvs (params s') (rev qs))"
      "sb_checkpoint (tlv_buff s') = sb_checkpoint (tlv_buff s)" "cursor s' = cursor s"
      "same_tree (params s) (params s')" "values_ok (params s')" "sh_code s' = sh_code s"
      "\<forall>z. rk z \<le> rk x \<longrightarrow> params s' z = params s z"
    using assms(1) unfolding walked_def by blast+
  obtain us where us: "leaf_tlvs (params s') (rev qs) = leaf_tlvs (params s) (rev ps) @ us"
    using assms(1) unfolding walked_def by blast
  have ok: "tree_ok rk (params s)" "tree_ok rk (params s')" "tlv_ok (sh_code s)"
    using assms(2) tree_ok_same [OF w(5)] by (auto simp: settled_def shell_ok_def)
  have "leaf_tlvs (params s') (rev ps) = leaf_tlvs (params s) (rev ps)"
    using at_rank [OF assms(4) ok(1)] w(8) by (intro leaf_tlvs_cong) auto
  moreover have "length us \<le> 1001" using at_leaves [OF w(1) ok(2)] us by simp
  ultimately have "settled 1001 rk s'"
    unfolding settled_def shell_ok_def using ok w us assms(3,5,6) at_same [OF w(5) assms(4)]
    by (auto intro!: exI [of _ ps] exI [of _ us])
  with w assms(3,7) show ?thesis by (simp add: arrived_def)
qed

text \<open>The commands that end in a special option.\<close>

lemma follows_calm: "settled n rk s \<Longrightarrow> calm s s' \<Longrightarrow> n \<le> 5000 \<Longrightarrow> follows n rk s s' \<and> cursor s' = cursor s"
  using follows_grows [of n rk s 0 s'] calm_grows by (fastforce simp: calm_def)

lemma show_brief_follows:
  assumes "show_brief_command ev (invoke (Suc 0) ev) (Some y) libcli_get_show_brief_extension_param s = Some (Inr (st, s'))"
    and "app_quiet ev" "settled 1001 rk s" "\<not> special y"
    and "params s y = Some c" "libcli_get_show_brief_extension_param \<in> set (live_options (p_options c))"
    and "moves_up (params s) libcli_get_show_brief_extension_param \<Longrightarrow> (\<forall>p. cursor s = Some p \<longrightarrow> \<not> is_leaf (params s) p)"
  shows "follows 1010 rk s s' \<and> (cursor s' = cursor s \<or> cursor s' \<noteq> Some libcli_get_do_hook)"
proof -
  have tree: "tree_ok rk (params s)" using assms(3) by (simp add: settled_def shell_ok_def)
  have pg: "pget (params s) y = Inr c" using assms(5) by (simp add: pget_def)
  show ?thesis
  proof (cases "p_callback c = None")
    case True
    then have "s' = say ''Error : Incomplete Command'' s" using assms(1) pg by (simp add: show_brief_command_def)
    with follows_calm [OF assms(3), of s'] show ?thesis by (auto intro: follows_mono)
  next
    case False
    then obtain s1 s2 s3 where s1: "invoke_handler (invoke (Suc 0) ev) libcli_get_show_brief_extension_param OPERATIONAL s = Some (Inr s1)"
        "set_command_code (p_CMDCODE c) s1 = Inr s2" "collect_command_code ev s2 = Some (Inr s3)"
        "invoke_handler (invoke (Suc 0) ev) y OPERATIONAL s3 = Some (Inr s')"
      using assms(1) pg by (auto simp: show_brief_command_def)
    have brief: "p_callback bc \<noteq> Some config_mode_enter_handler"
      if "params s libcli_get_show_brief_extension_param = Some bc" for bc
      using param_okD(8) [OF tree_param [OF tree that]] by (auto simp: hook_defs)
    have f1: "follows 1002 rk s s1" "cursor s1 = cursor s \<or> cursor s1 \<noteq> Some libcli_get_do_hook"
      using handler_follows [OF assms(3) s1(1) assms(2) _ brief] assms(7) by (auto simp: hook_defs)
    then have t1: "tlv_ok (sh_code s1)" by (simp add: follows_def settled_def shell_ok_def)
    have g: "grows 1 s1 s3" using command_code_grows [OF s1(2,3) t1] .
    have f3: "follows 1003 rk s1 s3" using follows_grows [OF _ g, of 1002 rk] f1(1) by (simp add: follows_def)
    have same: "same_tree (params s) (params s3)" using f1(1) f3 same_tree_trans by (auto simp: follows_def)
    obtain c3 where c3: "params s3 y = Some c3" "cleared c3 = cleared c"
      using same_tree_Some [OF same assms(5)] by blast
    have tree3: "tree_ok rk (params s3)" using tree_ok_same [OF same tree] .
    have brief3: "libcli_get_show_brief_extension_param \<in> set (live_options (p_options c3))"
      using assms(6) cleared_eqD(2) [OF c3(2)] by simp
    have "\<not> moves_up (params s3) y" "p_callback c3 \<noteq> Some config_mode_enter_handler"
      using param_okD(11,13) [OF tree_param [OF tree3 c3(1)]] brief3 c3(1) by (auto simp: moves_up_def)
    moreover have "settled 1003 rk s3" using f3 by (simp add: follows_def)
    ultimately have "follows 1004 rk s3 s' \<and> (cursor s' = cursor s3 \<or> cursor s' \<noteq> Some libcli_get_do_hook)"
      using handler_follows [of 1003 rk s3 ev y OPERATIONAL s'] s1(4) assms(2,4) c3(1) by (auto simp: special_def)
    moreover have "cursor s3 = cursor s1" using g by (simp add: grows_def)
    ultimately show ?thesis using f1(2) follows_trans [OF same] follows_mono [of 1004 rk s s' 1010] by auto
  qed
qed

lemma sub_options_follows:
  assumes "sub_options_command ev (Some y) s = Some (Inr (st, s'))" "app_quiet ev" "arrived rk s y qs"
  shows "follows 1 rk s s' \<and> cursor s' = Some y"
proof -
  obtain c :: param_t and s1 s2 s3 s4 where s: "set_command_code (p_CMDCODE c) s = Inr s1" "mark_checkpoint s1 = Inr s2"
      "display_sub_options_callback_fn ev y s2 = Some (Inr s3)" "on_cli (set_cmd_tree_cursor (Some y)) s3 = Inr s4"
      "s' = s4 \<or> on_cli_opt (build_mode_console_name (Some y)) s4 = Some (Inr s')"
    using assms(1) by (auto simp: sub_options_command_def split: if_splits)
  have c1: "calm s s1" using set_command_code_calm [OF s(1)] .
  have ok: "shell_ok rk s1" "at (params s1) y qs" "sb_tlvs (tlv_buff s1) (leaf_tlvs (params s1) (rev qs))" "\<not> special y"
    using assms(3) c1 by (auto simp: arrived_def settled_def shell_ok_def calm_def)
  have g: "grows 1 s2 s3" using display_grows [OF s(3) assms(2)] .
  have s4: "params s4 = params s3" "tlv_buff s4 = tlv_buff s3" "cursor s4 = Some y" "sh_code s4 = sh_code s3"
    using s(4) by (auto simp: on_cli_def set_cmd_tree_cursor_def get_cmd_tree_cursor_def)
  have c4: "calm s4 s'" using s(5) by (auto intro: on_cli_opt_calm build_mode_console_name_calm)
  have m: "params s2 = params s1" "sh_code s2 = sh_code s1" using s(2)
    by (auto simp: mark_checkpoint_def shell_ops mark_checkpoint_serialize_buffer_def)
  have "tlv_ok (sh_code s')" using ok(1) m(2) g s4(4) c4 by (auto simp: shell_ok_def grows_def calm_def)
  moreover have "params s' = params s3" "tlv_buff s' = tlv_buff s3" "cursor s' = Some y"
    using c4 s4 by (simp_all add: calm_def)
  ultimately have "settled 1 rk s'" using settled_move [OF ok(1-3) s(2) g _ _ _ _ _ ok(4)] by simp
  moreover have "params s' = params s" using c1 c4 s4(1) g m(1) by (simp add: calm_def grows_def)
  ultimately show ?thesis using \<open>cursor s' = Some y\<close> by (simp add: follows_def)
qed


lemma mark_grows: "mark_checkpoint s = Inr s' \<Longrightarrow> params s' = params s \<and> sh_code s' = sh_code s \<and> cursor s' = cursor s"
  by (auto simp: mark_checkpoint_def shell_ops mark_checkpoint_serialize_buffer_def get_cmd_tree_cursor_def)

lemma mode_follows:
  assumes "mode_command ev (invoke (Suc 0) ev) (Some y) eod s = Some (Inr (st, s'))" "app_quiet ev"
    and "arrived rk s y qs" "cursor s' \<noteq> Some libcli_get_config_hook"
  shows "follows 2 rk s s' \<and> (cursor s' = Some y \<or> cursor s' = cursor s \<or> cursor s' \<noteq> Some libcli_get_do_hook)"
proof -
  obtain hook and c :: param_t and s1 s2 s3 where s: "get_current_branch_hook (params s) (Some y) = Some (Inr hook)"
      "set_command_code (p_CMDCODE c) s = Inr s1" "mark_checkpoint s1 = Inr s2"
      "collect_command_code ev s2 = Some (Inr s3)"
      "mode_enter_callback_fn (invoke (Suc 0) ev) y (branch_mode hook eod) s3 = Some (Inr s')"
    using assms(1) by (auto simp: mode_command_def)
  have root: "y \<noteq> libcli_get_root" using s(1) by (auto simp: get_current_branch_hook_def)
  have c1: "calm s s1" using set_command_code_calm [OF s(2)] .
  have ok: "shell_ok rk s1" "at (params s1) y qs" "sb_tlvs (tlv_buff s1) (leaf_tlvs (params s1) (rev qs))" "\<not> special y"
    using assms(3) c1 by (auto simp: arrived_def settled_def shell_ok_def calm_def)
  have m: "params s2 = params s1" "sh_code s2 = sh_code s1" using mark_grows [OF s(3)] by auto
  have g: "grows 1 s2 s3" using collect_grows s(4) ok(1) m(2) by (auto simp: collect_command_code_def shell_ok_def)
  obtain s4 s5 c5 where s5: "on_cli (set_cmd_tree_cursor (Some y)) s3 = Inr s4"
      "on_cli_opt (build_mode_console_name (Some y)) s4 = Some (Inr s5)" "params s5 y = Some c5"
      "case p_callback c5 of None \<Rightarrow> s' = s5 | Some cb \<Rightarrow> invoke (Suc 0) ev y cb (branch_mode hook eod) s5 = Some (Inr s')"
    using s(5) root by (auto simp: mode_enter_callback_fn_def pget_def split: option.splits)
  have s4: "params s4 = params s3" "tlv_buff s4 = tlv_buff s3" "cursor s4 = Some y" "sh_code s4 = sh_code s3"
    using s5(1) by (auto simp: on_cli_def set_cmd_tree_cursor_def get_cmd_tree_cursor_def)
  have c4: "calm s4 s5" using s5(2) by (auto intro: on_cli_opt_calm build_mode_console_name_calm)
  have code: "tlv_ok (sh_code s5)" using ok(1) m(2) g s4(4) c4 by (auto simp: shell_ok_def grows_def calm_def)
  have p5: "params s5 = params s3" "tlv_buff s5 = tlv_buff s3" "cursor s5 = Some y"
    using c4 s4 by (simp_all add: calm_def)
  have "settled 1 rk s5" using settled_move [OF ok(1-3) s(3) g _ p5 code ok(4)] by simp
  moreover have ps: "params s5 = params s" using c1 c4 s4(1) g m(1) by (simp add: calm_def grows_def)
  ultimately have f5: "follows 1 rk s s5" by (simp add: follows_def)
  show ?thesis
  proof (cases "p_callback c5")
    case None
    with s5(4) f5 p5(3) show ?thesis by (auto intro: follows_mono)
  next
    case (Some cb)
    have tree: "param_ok rk (params s5) y c5" using \<open>settled 1 rk s5\<close> s5(3) by (auto simp: settled_def shell_ok_def tree_ok_def)
    have conf: "p_callback c5 \<noteq> Some config_mode_enter_handler"
    proof
      assume a: "p_callback c5 = Some config_mode_enter_handler"
      then have "y = libcli_get_config_hook" using param_okD(8) [OF tree] by simp
      moreover have "cursor s' = Some y"
        using a s5(4) by (auto simp: invoke_one run_callback_def config_mode_enter_handler_fn_def on_buff_def on_cli_def
            on_cli_opt_def set_cmd_tree_cursor_def get_cmd_tree_cursor_def mark_checkpoint_serialize_buffer_def
            dest!: build_mode_console_name_calm simp: cli_calm_def)
      ultimately show False using assms(4) by simp
    qed
    have "invoke_handler (invoke (Suc 0) ev) y (branch_mode hook eod) s5 = Some (Inr s')"
      using s5(3,4) Some by (simp add: invoke_handler_def pget_def)
    moreover have "\<not> is_leaf (params s5) y" if "moves_up (params s5) y"
      using that s5(3) param_okD(11) [OF tree] by (auto simp: moves_up_def is_leaf_def split: cmd_union.splits)
    ultimately have "follows 2 rk s5 s' \<and> (cursor s' = cursor s5 \<or> cursor s' \<noteq> Some libcli_get_do_hook)"
      using handler_follows [OF \<open>settled 1 rk s5\<close> _ assms(2), of y "branch_mode hook eod" s'] conf s5(3) ok(4) p5(3)
      by (simp add: special_def numeral_2_eq_2)
    with follows_trans [of s s5 2 rk s'] ps p5(3) show ?thesis by auto
  qed
qed


text \<open>A command without a special option.\<close>

lemma plain_follows:
  assumes "plain_command ev (invoke (Suc 0) ev) y eod s = Some (Inr (st, s'))" "app_quiet ev" "arrived rk s y qs"
    and "moves_up (params s) y \<Longrightarrow> (\<forall>p. cursor s = Some p \<longrightarrow> \<not> is_leaf (params s) p)"
  shows "follows 1010 rk s s' \<and> (cursor s' = Some y \<or> cursor s' = cursor s \<or> cursor s' \<noteq> Some libcli_get_do_hook)"
proof -
  have set: "settled 1001 rk s" and sp: "\<not> special y" using assms(3) by (simp_all add: arrived_def)
  have tree: "tree_ok rk (params s)" "tlv_ok (sh_code s)" using set by (simp_all add: settled_def shell_ok_def)
  obtain hook s1 where h: "get_current_branch_hook (params s) (Some y) = Some (Inr hook)"
      "(if hook \<noteq> libcli_get_repeat_hook \<and> y \<noteq> libcli_get_config_hook
            then obind (Some (pget (params s) y)) (\<lambda>c.
                 obind (Some (set_command_code (p_CMDCODE c) s)) (\<lambda>s. collect_command_code ev s))
            else Some (Inr s)) = Some (Inr s1)"
      "invoke_handler (invoke (Suc 0) ev) y (branch_mode hook eod) s1 = Some (Inr s')"
    using assms(1) by (auto simp: plain_command_def)
  show ?thesis
  proof (cases "y = libcli_get_config_hook \<and> (\<exists>c. params s y = Some c \<and> p_callback c = Some config_mode_enter_handler)")
    case True
    then have "s1 = s" using h(2) by simp
    with h(3) True have "config_mode_enter_handler_fn y s = Some (Inr s')"
      by (auto simp: invoke_handler_def pget_def invoke_one run_callback_def)
    then obtain s2 s3 where s: "on_cli (set_cmd_tree_cursor (Some y)) s = Inr s2"
        "on_cli_opt (build_mode_console_name (Some y)) s2 = Some (Inr s3)" "mark_checkpoint s3 = Inr s'"
      by (auto simp: config_mode_enter_handler_fn_def mark_checkpoint_def)
    have s2: "params s2 = params s" "tlv_buff s2 = tlv_buff s" "cursor s2 = Some y" "sh_code s2 = sh_code s"
      using s(1) by (auto simp: on_cli_def set_cmd_tree_cursor_def get_cmd_tree_cursor_def)
    have "calm s2 s3" using s(2) by (auto intro: on_cli_opt_calm build_mode_console_name_calm)
    then have s3: "params s3 = params s" "tlv_buff s3 = tlv_buff s" "cursor s3 = Some y" "tlv_ok (sh_code s3)"
      using s2 tree(2) by (simp_all add: calm_def)
    have ok: "shell_ok rk s3" "at (params s3) y qs" "sb_tlvs (tlv_buff s3) (leaf_tlvs (params s3) (rev qs))"
      using assms(3) s3 by (simp_all add: arrived_def settled_def shell_ok_def)
    have "settled 0 rk s'"
      using settled_move [OF ok s(3) calm_grows [OF calm_refl] _ refl refl _ _ sp] mark_grows [OF s(3)] s3 by simp
    with mark_grows [OF s(3)] s3 show ?thesis by (auto simp: follows_def intro: settled_mono)
  next
    case False
    have no_conf: "p_callback c \<noteq> Some config_mode_enter_handler" if "params s y = Some c" for c
      using param_okD(8) [OF tree_param [OF tree(1) that]] False that by blast
    have g: "grows 1 s s1" using h(2) command_code_grows tree(2)
      by (auto simp del: One_nat_def split: if_splits intro: grows_mono [OF calm_grows])
    have f: "follows 1002 rk s s1" using follows_grows [OF set g] by simp
    have s1: "params s1 = params s" "cursor s1 = cursor s" using g by (simp_all add: grows_def)
    have "follows 1003 rk s1 s' \<and> (cursor s' = cursor s1 \<or> cursor s' \<noteq> Some libcli_get_do_hook)"
      using handler_follows [OF _ h(3) assms(2), of 1002 rk] f no_conf sp assms(4) s1
      by (simp add: follows_def special_def)
    with f follows_trans [of s s1 1003 rk s'] s1 show ?thesis by (auto intro: follows_mono)
  qed
qed

lemma complete_follows:
  assumes "complete_command ev (invoke (Suc 0) ev) parent p eod s = Some (Inr (st, s'))" "app_quiet ev" "arrived rk s y qs"
    and "special p \<and> parent = Some y \<and> (\<exists>c. params s y = Some c \<and> p \<in> set (live_options (p_options c))) \<or>
         \<not> special p \<and> p = y"
    and "moves_up (params s) p \<Longrightarrow> (\<forall>p. cursor s = Some p \<longrightarrow> \<not> is_leaf (params s) p)"
    and "p = libcli_get_mode_param \<Longrightarrow> cursor s' \<noteq> Some libcli_get_config_hook"
  shows "follows 1010 rk s s' \<and> (cursor s' = Some y \<or> cursor s' = cursor s \<or> cursor s' \<noteq> Some libcli_get_do_hook)"
proof -
  let ?s = "say ''Parse Success.'' s"
  have frame: "params ?s = params s" "cursor ?s = cursor s" by simp_all
  have arr: "arrived rk ?s y qs" using assms(3) by (auto simp: arrived_def settled_def shell_ok_def)
  have pull: "follows n rk ?s s' \<Longrightarrow> follows n rk s s'" for n by (simp add: follows_def)
  note d = assms(1) [unfolded complete_command_def Let_def]
  show ?thesis
  proof (cases "special p")
    case False
    then have "plain_command ev (invoke (Suc 0) ev) y eod ?s = Some (Inr (st, s'))" "p = y"
      using d assms(4) by (auto simp: special_def)
    with plain_follows [OF _ assms(2) arr] assms(5) pull show ?thesis by simp
  next
    case True
    then obtain c where c: "parent = Some y" "params s y = Some c" "p \<in> set (live_options (p_options c))"
      using assms(4) by blast
    from True consider "p = libcli_get_show_brief_extension_param" | "p = libcli_get_suboptions_param"
      | "p = libcli_get_mode_param" | "p = libcli_get_cmd_expansion_param" by (auto simp: special_def)
    then show ?thesis
    proof cases
      case 1
      with d c(1) have "show_brief_command ev (invoke (Suc 0) ev) (Some y) libcli_get_show_brief_extension_param ?s = Some (Inr (st, s'))"
        by simp
      from show_brief_follows [OF this assms(2)] arr c 1 assms(5) pull show ?thesis by (auto simp: arrived_def)
    next
      case 2
      with d c(1) have "sub_options_command ev (Some y) ?s = Some (Inr (st, s'))" by (simp add: hook_defs)
      from sub_options_follows [OF this assms(2) arr] pull follows_mono [of 1 rk s s' 1010] show ?thesis by simp
    next
      case 3
      with d c(1) have "mode_command ev (invoke (Suc 0) ev) (Some y) eod ?s = Some (Inr (st, s'))" by (simp add: hook_defs)
      from mode_follows [OF this assms(2) arr] assms(6) 3 pull follows_mono [of 2 rk s s' 1010] show ?thesis by simp
    next
      case 4
      with d c(1) have "display_cmd_expansion_callback_fn (Some y) ?s = Inr s'" by (auto simp: hook_defs)
      from follows_calm [OF _ expansion_calm [OF this], of 1001 rk] arr pull follows_mono [of 1001 rk s s' 1010]
      show ?thesis by (simp add: arrived_def)
    qed
  qed
qed


section \<open>The line\<close>

text \<open>\<open>slash\<close>: the last token abbreviates the command that enters a mode.\<close>

definition slash :: "'a shell \<Rightarrow> nat \<Rightarrow> bool" where
  "slash s i \<longleftrightarrow> (case token_str (sh_cli s) True i of Inl _ \<Rightarrow> False | Inr t \<Rightarrow> prefix t ''/'')"

lemma build_follows:
  assumes "build_tlv_buffer ev (invoke (Suc 0) ev) off n s = Some (Inr (st, s'))" "app_quiet ev" "settled 0 rk s"
    and "cursor s = Some x" "n \<noteq> 0" "slash s (off + n - 1) \<Longrightarrow> cursor s' \<noteq> Some libcli_get_config_hook"
  shows "follows 1010 rk s s' \<and> (cursor s' = Some x \<or> cursor s' \<noteq> Some libcli_get_do_hook)"
proof -
  obtain ps where p: "\<not> special x" "at (params s) x ps" "sb_tlvs (tlv_buff s) (leaf_tlvs (params s) (rev ps))"
      "sb_checkpoint (tlv_buff s) = int (100 * length (leaf_tlvs (params s) (rev ps)))"
    using assms(3,4) by (auto simp: settled_def)
  have ok: "tree_ok rk (params s)" "values_ok (params s)" using assms(3) by (simp_all add: settled_def shell_ok_def)
  obtain w s1 where w: "token_loop ev off 0 None x MODE_UNKNOWN s n = Some (Inr (w, s1))"
      "(case (wk_status w, wk_param w) of
              (COMPLETE, Some p) \<Rightarrow>
                obind (Some (pget (params s1) p)) (\<lambda>c.
                  if p_callback c = None
                  then Some (Inr (INCOMPLETE_COMMAND, say ''Error : Incomplete Command'' s1))
                  else complete_command ev (invoke (Suc 0) ev) (wk_parent w) p (wk_mode w) s1)
            | _ \<Rightarrow>
                obind (Some (error_message w off s1)) (\<lambda>m. Some (Inr (wk_status w, say m s1)))) = Some (Inr (st, s'))"
    using assms(1,4) by (auto simp: build_tlv_buffer_def)
  obtain y qs where y: "walked rk s x ps s1 y qs" "\<not> special y"
      "y = x \<or> y \<noteq> libcli_get_root \<and> y \<noteq> libcli_get_do_hook"
      "wk_status w = COMPLETE \<longrightarrow> ends_at s x off n w y"
    using token_loop_walks [OF w(1) ok p(2,3,1)] by auto
  have arr: "arrived rk s1 y qs" "same_tree (params s) (params s1)" "cursor s1 = Some x"
    using walked_arrived [OF y(1) assms(3,4) p(2,4,1) y(2)] by auto
  have set: "settled 1001 rk s1" using arr(1) by (simp add: arrived_def)
  have said: "?thesis" if "s' = say m s1" for m
    using follows_calm [OF set, of s'] that arr(2,3) follows_trans [OF arr(2)] follows_mono by fastforce
  show ?thesis
  proof (cases "wk_status w = COMPLETE")
    case False
    then show ?thesis using w(2) said by (cases "wk_status w") (auto split: option.splits)
  next
    case True
    with y(4) obtain p where e: "wk_param w = Some p"
        "special p \<and> wk_parent w = Some y \<and> (\<exists>c. params s y = Some c \<and> p \<in> set (live_options (p_options c))) \<or>
         \<not> special p \<and> p = y" "moves_up (params s) p \<longrightarrow> x = libcli_get_root"
      "\<exists>tok. token_str (sh_cli s) True (off + n - 1) = Inr tok \<and> (is_leaf (params s) p \<or> prefix tok (name_of (params s) p))"
      using assms(5) unfolding ends_at_def by blast
    obtain c where c: "params s1 p = Some c"
        "if p_callback c = None then s' = say ''Error : Incomplete Command'' s1
         else complete_command ev (invoke (Suc 0) ev) (wk_parent w) p (wk_mode w) s1 = Some (Inr (st, s'))"
      using w(2) True e(1) by (auto simp: pget_def split: option.splits if_splits)
    show ?thesis
    proof (cases "p_callback c = None")
      case True
      with c(2) said show ?thesis by simp
    next
      case False
      then have comp: "complete_command ev (invoke (Suc 0) ev) (wk_parent w) p (wk_mode w) s1 = Some (Inr (st, s'))"
        using c(2) by simp
      have pos: "special p \<and> wk_parent w = Some y \<and> (\<exists>c. params s1 y = Some c \<and> p \<in> set (live_options (p_options c))) \<or>
         \<not> special p \<and> p = y"
        using e(2) same_tree_Some [OF arr(2)] cleared_eqD(2) by metis
      have up: "\<forall>q. cursor s1 = Some q \<longrightarrow> \<not> is_leaf (params s1) q" if "moves_up (params s1) p"
      proof -
        have "x = libcli_get_root" using that moves_up_same [OF arr(2)] e(3) by simp
        then show ?thesis using param_okD(6) [OF tree_param [OF ok(1)]] is_leaf_same [OF arr(2)] arr(3)
          by (auto simp: is_leaf_def split: option.splits cmd_union.splits) fastforce
      qed
      have mode: "cursor s' \<noteq> Some libcli_get_config_hook" if "p = libcli_get_mode_param"
      proof -
        obtain c0 where c0: "params s p = Some c0" using same_tree_Some [OF same_tree_sym [OF arr(2)] c(1)] by blast
        then have "p_kind c0 = CmdP ''/''" using param_okD(12) [OF tree_param [OF ok(1) c0]] that by simp
        then have "name_of (params s) p = ''/''" "\<not> is_leaf (params s) p" using c0 by (simp_all add: name_of_def is_leaf_def)
        then have "slash s (off + n - 1)" using e(4) by (auto simp: slash_def)
        with assms(6) show ?thesis by blast
      qed
      have "follows 1010 rk s1 s' \<and> (cursor s' = Some y \<or> cursor s' = cursor s1 \<or> cursor s' \<noteq> Some libcli_get_do_hook)"
        using complete_follows [OF comp assms(2) arr(1) pos up mode] by blast
      with arr(2,3) y(3) follows_trans show ?thesis by auto
    qed
  qed
qed

text \<open>Rebuilding the leaves succeeds only on a branch without the negation command.\<close>

lemma collect_leaf_is_leaf: "collect_leaf junk c b = Some (Inr b') \<Longrightarrow> IS_PARAM_LEAF c"
  by (auto simp: collect_leaf_def split: cmd_union.splits)

lemma rebuilt_plain:
  assumes "branch h p ps" "leaves_loop junk h libcli_get_root p b = Some (Inr b')" "tree_ok rk h" "values_ok h"
  shows "plain h ps"
  using assms
proof (induction h p ps arbitrary: b rule: branch.induct)
  have ok: "case p_kind c of CmdP _ \<Rightarrow> True | LeafP l \<Rightarrow> leaf_ok l | NoCmdP _ \<Rightarrow> False"
    if c: "h p = Some c" "tree_ok rk h" "values_ok h" "IS_PARAM_CMD c \<or> IS_PARAM_LEAF c" for h p c
  proof (cases "p_kind c")
    case (LeafP l)
    have "length (cstr (lf_value l)) \<le> 64"
      using values_okD [OF c(3,1) LeafP] length_takeWhile_le [of _ "lf_value l"] unfolding cstr_def by metis
    moreover have "length (cstr (lf_id l)) \<le> 32"
      using param_okD(7) [OF tree_param [OF c(2,1)]] LeafP by (simp add: id_length_def)
    ultimately show ?thesis using LeafP by (simp add: leaf_ok_def)
  qed (use c in auto)
  { case (1 h p) then show ?case by simp }
  { case (2 h p x)
    then obtain c where c: "h p = Some c" "x = p" "p \<noteq> libcli_get_root" by auto
    have "IS_PARAM_CMD c \<or> IS_PARAM_LEAF c"
      using 2(2) c(3) collect_leaf_is_leaf
      by (subst (asm) leaves_loop.simps) (auto simp: pget_def c(1) split: if_splits option.splits sum.splits)
    from ok [OF c(1) 2(3,4) this] c show ?case by (simp add: plain_def) }
  { case (3 h p x y r)
    then obtain c where c: "h p = Some c" "x = p" "p \<noteq> libcli_get_root" "p_parent c = Some y" "branch h y (y # r)" by auto
    have "(IS_PARAM_CMD c \<or> IS_PARAM_LEAF c) \<and> (\<exists>b1. leaves_loop junk h libcli_get_root y b1 = Some (Inr b'))"
      using "3.prems"(2) c(3,4) collect_leaf_is_leaf
      by (subst (asm) leaves_loop.simps) (auto simp: pget_def c(1) split: if_splits option.splits sum.splits)
    then obtain b1 where "IS_PARAM_CMD c \<or> IS_PARAM_LEAF c" "leaves_loop junk h libcli_get_root y b1 = Some (Inr b')" by blast
    from 3(1) [OF c(5) this(2) "3.prems"(3,4)] ok [OF c(1) "3.prems"(3,4) this(1)] c(1,2)
    show ?case by (simp add: plain_def) }
qed

lemma rebuilt_leaves:
  assumes "branch h p ps" "tree_ok rk h" "values_ok h" "sb_ok b" "0 < sb_size b"
    and "build_cmd_tree_leaves_data junk h (Some b) (Some libcli_get_root) (Some p) = Some (Inr b')"
  shows "sb_tlvs b' (leaf_tlvs h (rev ps))"
proof -
  obtain c b1 where c: "h libcli_get_root = Some c"
      "leaves_loop junk h libcli_get_root p (reset_serialize_buffer b) = Some (Inr b1)"
    using assms(6) by (auto simp: build_cmd_tree_leaves_data_def pget_def split: option.splits sum.splits if_splits)
  have "plain h ps" using rebuilt_plain [OF assms(1) c(2) assms(2,3)] .
  moreover have "root_ok h" using param_okD(6) [OF tree_param [OF assms(2) c(1)]] c(1)
    by (auto simp: root_ok_def split: cmd_union.splits)
  moreover have "length ps < 10000000" using at_length [of h p ps rk] assms(1,2) by (simp add: at_def)
  ultimately show ?thesis using build_leaves_data [OF assms(1) _ _ assms(4,5), of junk] assms(6) by auto
qed

text \<open>\<^verbatim>\<open>do\<close>\<close>

lemma do_follows:
  assumes "do_command ev (invoke (Suc 0) ev) cnt s = Some (Inr (st, s'))" "app_quiet ev" "settled 0 rk s"
    and "cnt > 1" "cursor s \<noteq> Some libcli_get_root" "cursor s \<noteq> Some libcli_get_do_hook"
    and "slash s (cnt - 1) \<Longrightarrow> cursor s' \<noteq> Some libcli_get_config_hook"
  shows "settled 1010 rk s' \<and> cursor s' \<noteq> Some libcli_get_do_hook"
proof -
  obtain p ps where p: "cursor s = Some p" "\<not> special p" "at (params s) p ps" "shell_ok rk s"
    using assms(3) by (auto simp: settled_def)
  have br: "branch (params s) p ps" using p(1,3) assms(5,6) by (auto simp: at_def)
  define s1 where "s1 = s\<lparr>sh_cli := (sh_cli s)\<lparr>cl_cursor := Some libcli_get_do_hook,
      cl_tlv_buff := reset_serialize_buffer (tlv_buff s)\<rparr>\<rparr>"
  obtain s2 where s2: "build_tlv_buffer ev (invoke (Suc 0) ev) 1 (cnt - 1) s1 = Some (Inr (st, s2))"
      "if cursor s2 \<noteq> Some libcli_get_do_hook then s' = s2
       else \<exists>s4. on_buff_opt (\<lambda>b. build_cmd_tree_leaves_data (ev_junk ev) (params s2) (Some b)
                   (Some libcli_get_root) (Some p)) (s2\<lparr>sh_cli := (sh_cli s2)\<lparr>cl_cursor := Some p\<rparr>\<rparr>) = Some (Inr s4) \<and>
          mark_checkpoint s4 = Inr s'"
    using assms(1) p(1) by (auto simp: do_command_def Let_def on_cli_def on_buff_def set_cmd_tree_cursor_def
        get_cmd_tree_cursor_def s1_def split: if_splits)
  have "settled 0 rk s1"
    using settled_reset [OF p(4), of s1] settled_buff [OF assms(3)] by (simp add: s1_def get_cmd_tree_cursor_def)
  moreover have "cursor s1 = Some libcli_get_do_hook" by (simp add: s1_def get_cmd_tree_cursor_def)
  moreover have "slash s1 (1 + (cnt - 1) - 1) = slash s (cnt - 1)" by (simp add: slash_def token_str_def s1_def)
  moreover have conf: "cursor s2 \<noteq> Some libcli_get_config_hook" if "slash s (cnt - 1)"
    using assms(7) [OF that] s2(2) by (auto simp: hook_defs split: if_splits)
  ultimately have f: "follows 1010 rk s1 s2"
    using build_follows [OF s2(1) assms(2)] assms(4) by fastforce
  show ?thesis
  proof (cases "cursor s2 = Some libcli_get_do_hook")
    case False
    with s2(2) f show ?thesis by (simp add: follows_def)
  next
    case True
    with s2(2) obtain b where b: "build_cmd_tree_leaves_data (ev_junk ev) (params s2) (Some (tlv_buff s2))
        (Some libcli_get_root) (Some p) = Some (Inr b)"
      "mark_checkpoint (s2\<lparr>sh_cli := (sh_cli s2)\<lparr>cl_cursor := Some p, cl_tlv_buff := b\<rparr>\<rparr>) = Inr s'"
      by (auto simp: on_buff_opt_def on_cli_opt_def)
    have same: "same_tree (params s) (params s2)" using f by (simp add: follows_def s1_def)
    have ok: "shell_ok rk s2" "sb_ok (tlv_buff s2)" "0 < sb_size (tlv_buff s2)"
      using f settled_buff by (auto simp: follows_def)
    have br2: "branch (params s2) p ps" using branch_same [OF same br] .
    have "sb_tlvs b (leaf_tlvs (params s2) (rev ps))"
      using rebuilt_leaves [OF br2 _ _ ok(2,3) b(1)] ok(1) by (auto simp: shell_ok_def)
    then have "settled 0 rk s'"
      using settled_move [of rk "s2\<lparr>sh_cli := (sh_cli s2)\<lparr>cl_cursor := Some p, cl_tlv_buff := b\<rparr>\<rparr>" p ps s' 0 s' s']
        b(2) mark_grows [OF b(2)] ok(1) br2 calm_grows [OF calm_refl, of s'] p(2)
      by (simp add: shell_ok_def at_def get_cmd_tree_cursor_def)
    moreover have "cursor s' = Some p" using mark_grows [OF b(2)] by (simp add: get_cmd_tree_cursor_def)
    ultimately show ?thesis using assms(6) p(1) settled_mono by auto
  qed
qed

text \<open>The invariant between two commands.\<close>

definition mode_inv :: "(pptr \<Rightarrow> nat) \<Rightarrow> 'a shell \<Rightarrow> bool" where
  "mode_inv rk s \<longleftrightarrow> settled 0 rk s \<and> cursor s \<noteq> Some libcli_get_do_hook"

text \<open>Loading a file of commands, which is a command of the parser.\<close>

definition loads_file :: "'a shell \<Rightarrow> nat \<Rightarrow> bool" where
  "loads_file s cnt \<longleftrightarrow> cnt = 3 \<and>
     (case (token_str (sh_cli s) True 0, token_str (sh_cli s) True 1) of
        (Inr t0, Inr t1) \<Rightarrow> strn_prefix t0 ''config'' \<and> strn_prefix t1 ''load''
      | _ \<Rightarrow> False)"

lemma dispatch_settles:
  assumes "dispatch_line ev no_parse (invoke (Suc 0) ev) cnt s = Some (Inr (st, rep, s'))" "app_quiet ev"
    and "mode_inv rk s" "cnt > 0" "\<not> loads_file s cnt"
    and "slash s (cnt - 1) \<Longrightarrow> cursor s' \<noteq> Some libcli_get_config_hook"
  shows "settled 1010 rk s' \<and> cursor s' \<noteq> Some libcli_get_do_hook"
proof -
  have set: "settled 0 rk s" "cursor s \<noteq> Some libcli_get_do_hook" using assms(3) by (simp_all add: mode_inv_def)
  obtain x where x: "cursor s = Some x" using set(1) by (auto simp: settled_def)
  have tree: "tree_ok rk (params s)" using set(1) by (simp add: settled_def shell_ok_def)
  obtain t0 where t0: "token_str (sh_cli s) True 0 = Inr t0"
    using assms(1) by (cases "token_str (sh_cli s) True 0") (auto simp: dispatch_line_def Let_def)
  have calm: "?thesis" if "calm s s'"
    using follows_calm [OF set(1) that] set settled_mono by (fastforce simp: follows_def)
  have ex: "?thesis" if "exit_cmd_handler_fn ev s = Some (Inr s')"
    using exit_settles [OF set(1) that] set(2) settled_mono [of 0 rk s' 1010] by (auto simp: get_cmd_tree_cursor_def)
  have en: "?thesis" if "end_cmd_handler_fn s = Some (Inr s')"
    using end_settles [OF set(1) that] set(2) settled_mono [of 0 rk s' 1010] by (auto simp: get_cmd_tree_cursor_def hook_defs)
  have ut: "?thesis" if "run_test_case ev no_parse f n s = Some (Inr (b, s'))" for f n b
    using calm run_test_case_calm [OF that] by blast
  have bu: "?thesis" if "build_tlv_buffer ev (invoke (Suc 0) ev) 0 cnt s = Some (Inr (st', s'))" for st'
    using build_follows [OF that assms(2) set(1) x] assms(4,6) set(2) x by (auto simp: follows_def)
  have re: "invoke_handler (invoke (Suc 0) ev) libcli_get_repeat_hook OPERATIONAL s \<noteq> Some (Inr s')"
    using param_okD(10) [OF tree_param [OF tree]]
    by (auto simp: invoke_handler_def pget_def invoke_one run_callback_def repeat_last_command_fn_def split: option.splits)
  have don: "?thesis" if "do_command ev (invoke (Suc 0) ev) cnt s = Some (Inr (st', s'))" "cnt > 1"
    "cursor s \<noteq> Some libcli_get_root" for st'
    using do_follows [OF that(1) assms(2) set(1) that(2,3) set(2) assms(6)] by blast
  note d = assms(1) [unfolded dispatch_line_def Let_def t0 obind.simps]
  show ?thesis
  proof (cases "cnt > 1 \<and> strn_prefix t0 ''do'' \<and> cursor s \<noteq> Some libcli_get_root")
    case True
    then show ?thesis using d don calm by (auto split: if_splits)
  next
    case False
    note d1 = d [unfolded if_not_P [OF False]]
    show ?thesis
    proof (cases "strn_prefix ''repeat'' t0 \<or> strn_prefix t0 ''cd..'' \<and> cnt = 1 \<or> strn_prefix t0 ''cd'' \<and> cnt = 1
        \<or> strn_prefix t0 ''cls'' \<and> cnt = 1")
      case True
      then show ?thesis using d1 re ex en calm by (auto simp: clear_screen_handler_fn_def split: if_splits)
    next
      case False
      then have n: "\<not> strn_prefix ''repeat'' t0" "\<not> (strn_prefix t0 ''cd..'' \<and> cnt = 1)" "\<not> (strn_prefix t0 ''cd'' \<and> cnt = 1)"
          "\<not> (strn_prefix t0 ''cls'' \<and> cnt = 1)" by blast+
      note d2 = d1 [unfolded if_not_P [OF n(1)] if_not_P [OF n(2)] if_not_P [OF n(3)] if_not_P [OF n(4)]]
      obtain u where u: "(if strn_prefix t0 ''run'' then rbind (token_str (sh_cli s) True 1) (\<lambda>t1. Inr (strn_prefix t1 ''ut'' \<and> cnt = 4))
          else Inr False) = Inr u" using d2 by (auto simp only: obind_Inr)
      obtain l where l: "(if \<not> u \<and> strn_prefix t0 ''config''
          then rbind (token_str (sh_cli s) True 1) (\<lambda>t1. Inr (strn_prefix t1 ''load'' \<and> cnt = 3)) else Inr False) = Inr l"
        using d2 by (auto simp only: obind_Inr u)
      have "\<not> (strn_prefix t0 ''config'' \<and> (\<exists>t1. token_str (sh_cli s) True 1 = Inr t1 \<and> strn_prefix t1 ''load'' \<and> cnt = 3))"
        using assms(5) t0 by (auto simp: loads_file_def)
      then have "\<not> l" using l by (auto split: if_splits)
      with d2 [unfolded u obind.simps l] ut bu show ?thesis by (cases u) auto
    qed
  qed
qed

text \<open>A whole line that needs no nested command.\<close>

lemma line_keeps_mode:
  assumes "parse_input_body ev no_parse (invoke (Suc 0) ev) input s = Some (Inr (st, rep, s'))" "app_quiet ev"
    and "mode_inv rk s" "tokenizer input CHR '' '' (cl_tokens (sh_cli s)) = Inr (ts, arr, cnt)"
    and "t = s\<lparr>sh_cli := (sh_cli s)\<lparr>cl_tokens := ts\<rparr>\<rparr>" "\<not> loads_file t cnt"
    and "slash t (cnt - 1) \<Longrightarrow> cursor s' \<noteq> Some libcli_get_config_hook"
  shows "mode_inv rk s'"
proof -
  have inv: "mode_inv rk t"
    using assms(3) by (simp add: assms(5) mode_inv_def settled_def shell_ok_def get_cmd_tree_cursor_def)
  show ?thesis
  proof (cases "cnt = 0")
    case True
    with assms(1,4) have "s' = t" by (simp add: parse_input_body_def assms(5))
    with inv show ?thesis by simp
  next
    case False
    with assms(1,4) obtain s1 where s1: "dispatch_line ev no_parse (invoke (Suc 0) ev) cnt t = Some (Inr (st, rep, s1))"
        "after_command s1 = Inr s'"
      by (auto simp: parse_input_body_def assms(5))
    have "cursor s' = cursor s1" using s1(2)
      by (auto simp: after_command_def Let_def on_buff_def on_cli_def get_cmd_tree_cursor_def
          restore_checkpoint_serialize_buffer_def split: if_splits)
    then have "settled 1010 rk s1 \<and> cursor s1 \<noteq> Some libcli_get_do_hook"
      using dispatch_settles [OF s1(1) assms(2) inv _ assms(6)] assms(7) False by simp
    then show ?thesis using after_command_settles [OF _ s1(2)] by (auto simp: mode_inv_def)
  qed
qed

end
