(* ===== verification/ParserDepth.thy ===== *)
theory ParserDepth
  imports CmdParser
begin

text \<open>
  The bound on the depth of nested calls: a bound that is enough gives the result that every larger
  bound gives. The proof follows the calls of the parser and of handlers through the definitions.
\<close>

section \<open>Results that a larger bound keeps\<close>

definition below :: "'b option \<Rightarrow> 'b option \<Rightarrow> bool" where
  "below a b \<longleftrightarrow> a = None \<or> a = b"

named_theorems below_intros \<open>how calls that are compared sit in a definition\<close>

lemma below_refl [simp, intro, below_intros]: "below a a"
  by (simp add: below_def)

lemma below_None [simp]: "below None a"
  by (simp add: below_def)

lemma below_obind [below_intros]:
  "below m m' \<Longrightarrow> (\<And>v. below (k v) (k' v)) \<Longrightarrow> below (obind m k) (obind m' k')"
  unfolding below_def by (cases m) (auto, metis obind.simps old.sum.exhaust)

lemma below_if [below_intros]: "below a a' \<Longrightarrow> below b b' \<Longrightarrow> below (if c then a else b) (if c then a' else b')"
  by simp

lemma below_option [below_intros]:
  "below a a' \<Longrightarrow> (\<And>v. below (f v) (f' v)) \<Longrightarrow>
   below (case x of None \<Rightarrow> a | Some v \<Rightarrow> f v) (case x of None \<Rightarrow> a' | Some v \<Rightarrow> f' v)"
  by (cases x) auto

lemma below_prod [below_intros]: "(\<And>a b. below (f a b) (f' a b)) \<Longrightarrow> below (case x of (a, b) \<Rightarrow> f a b) (case x of (a, b) \<Rightarrow> f' a b)"
  by (cases x) auto

lemma below_status [below_intros]:
  "below a a' \<Longrightarrow> below (case st of COMPLETE \<Rightarrow> a | _ \<Rightarrow> b) (case st of COMPLETE \<Rightarrow> a' | _ \<Rightarrow> b)"
  by (cases st) auto

lemma below_Let [below_intros]: "(\<And>v. below (f v) (f' v)) \<Longrightarrow> below (Let x f) (Let x f')"
  by simp

definition parse_below :: "'a parse_fn \<Rightarrow> 'a parse_fn \<Rightarrow> bool" where
  "parse_below P Q \<longleftrightarrow> (\<forall>i s. below (P i s) (Q i s))"

definition invoke_below :: "'a invoke_fn \<Rightarrow> 'a invoke_fn \<Rightarrow> bool" where
  "invoke_below I J \<longleftrightarrow> (\<forall>p cb eod s. below (I p cb eod s) (J p cb eod s))"

lemma parse_belowD: "parse_below P Q \<Longrightarrow> below (P i s) (Q i s)"
  by (simp add: parse_below_def)

lemma invoke_belowD: "invoke_below I J \<Longrightarrow> below (I p cb eod s) (J p cb eod s)"
  by (simp add: invoke_below_def)

section \<open>Unit tests\<close>

lemma run_cmd_line_below [below_intros]:
  assumes "parse_below P Q"
  shows "below (run_cmd_line P l s) (run_cmd_line Q l s)"
  unfolding run_cmd_line_def by (intro below_intros parse_belowD [OF assms])

lemma run_line_below [below_intros]: "parse_below P Q \<Longrightarrow> below (run_line P f n l r s) (run_line Q f n l r s)"
  unfolding run_line_def by (intro below_intros)

lemma run_loop_below [below_intros]:
  assumes "parse_below P Q"
  shows "below (run_loop P f n r s) (run_loop Q f n r s)"
proof -
  have "run_loop Q f n r s = Some res" if "run_loop P f n r s = Some res" for res
  proof (rule run_loop.raw_induct [where ?P = "\<lambda>P' f n r s res. P' = P \<longrightarrow> run_loop Q f n r s = Some res",
      rule_format, OF _ that refl], goal_cases)
    case (1 rec P' f n r s res)
    show ?case
    proof (cases "fgets 512 (ur_file r)")
      case None
      with 1(2) show ?thesis by (subst run_loop.simps) simp
    next
      case (Some lf)
      obtain line rest where lf: "lf = (line, rest)" by (cases lf)
      let ?turn = "\<lambda>P. if hd line \<noteq> CHR '':''
                 then Some (Inr (r\<lparr>ur_file := rest\<rparr>, if line = [newline] then say [] s else s))
                 else obind (Some (substitute_stores (sh_ut s) (takeWhile (\<lambda>c. c \<noteq> newline) (cstr line)))) (\<lambda>line.
                        run_line P f n line (r\<lparr>ur_file := rest\<rparr>) s)"
      have "below (?turn P) (?turn Q)" by (intro below_intros assms)
      moreover obtain t where t: "?turn P = Some t"
        using 1(2) unfolding Some lf option.case prod.case 1(3) by (cases "?turn P") simp_all
      ultimately have tq: "?turn Q = Some t" unfolding below_def by simp
      show ?thesis
      proof (cases t)
        case (Inl e)
        have "res = Inl e" using 1(2) unfolding Some lf option.case prod.case 1(3) t Inl sum.case by simp
        then show ?thesis by (subst run_loop.simps) (simp only: Some lf option.case prod.case tq Inl sum.case)
      next
        case (Inr rs)
        obtain r1 s1 where rs: "rs = (r1, s1)" by (cases rs)
        have res: "(if ur_done r1 then Some (Inr (r1, s1)) else rec P f n r1 s1) = Some res"
          using 1(2) unfolding Some lf option.case prod.case 1(3) t Inr rs sum.case .
        then have "(if ur_done r1 then Some (Inr (r1, s1)) else run_loop Q f n r1 s1) = Some res"
          using 1(1) by (auto split: if_splits)
        then show ?thesis by (subst run_loop.simps) (simp only: Some lf option.case prod.case tq Inr rs sum.case)
      qed
    qed
  qed
  then show ?thesis by (cases "run_loop P f n r s") (auto simp: below_def)
qed

lemma run_test_case_below [below_intros]:
  "parse_below P Q \<Longrightarrow> below (run_test_case ev P f n s) (run_test_case ev Q f n s)"
  unfolding run_test_case_def by (intro below_intros)

section \<open>Handlers\<close>

lemma ut_test_handler_below [below_intros]:
  "parse_below P Q \<Longrightarrow> below (ut_test_handler_fn ev P s) (ut_test_handler_fn ev Q s)"
  unfolding ut_test_handler_fn_def by (intro below_intros)

lemma history_below [below_intros]:
  assumes "parse_below P Q"
  shows "below (show_history_callback_fn ev P s) (show_history_callback_fn ev Q s)"
  unfolding show_history_callback_fn_def by (intro below_intros parse_belowD [OF assms])

lemma repeat_below [below_intros]:
  assumes "parse_below P Q"
  shows "below (repeat_last_command_fn P s) (repeat_last_command_fn Q s)"
  unfolding repeat_last_command_fn_def by (intro below_intros parse_belowD [OF assms])

lemma mode_enter_below [below_intros]:
  assumes "invoke_below I J"
  shows "below (mode_enter_callback_fn I p eod s) (mode_enter_callback_fn J p eod s)"
  unfolding mode_enter_callback_fn_def by (intro below_intros invoke_belowD [OF assms])

lemma run_callback_below [below_intros]:
  "parse_below P Q \<Longrightarrow> invoke_below I J \<Longrightarrow> below (run_callback ev P I p cb eod s) (run_callback ev Q J p cb eod s)"
  unfolding run_callback_def by (cases cb) (simp_all, (intro below_intros; assumption)+)

lemma invoke_handler_below [below_intros]:
  assumes "invoke_below I J"
  shows "below (invoke_handler I p eod s) (invoke_handler J p eod s)"
  unfolding invoke_handler_def by (intro below_intros invoke_belowD [OF assms])

section \<open>Commands\<close>

lemma show_brief_below [below_intros]:
  "invoke_below I J \<Longrightarrow> below (show_brief_command ev I q p s) (show_brief_command ev J q p s)"
  unfolding show_brief_command_def by (intro below_intros)

lemma mode_command_below [below_intros]:
  "invoke_below I J \<Longrightarrow> below (mode_command ev I q eod s) (mode_command ev J q eod s)"
  unfolding mode_command_def by (intro below_intros)

lemma plain_command_below [below_intros]:
  "invoke_below I J \<Longrightarrow> below (plain_command ev I p eod s) (plain_command ev J p eod s)"
  unfolding plain_command_def by (intro below_intros)

lemma complete_command_below [below_intros]:
  "invoke_below I J \<Longrightarrow> below (complete_command ev I q p eod s) (complete_command ev J q p eod s)"
  unfolding complete_command_def by (intro below_intros)

lemma build_tlv_buffer_below [below_intros]:
  "invoke_below I J \<Longrightarrow> below (build_tlv_buffer ev I off n s) (build_tlv_buffer ev J off n s)"
  unfolding build_tlv_buffer_def prod.case by (intro below_intros)

lemma do_command_below [below_intros]:
  "invoke_below I J \<Longrightarrow> below (do_command ev I n s) (do_command ev J n s)"
  unfolding do_command_def by (intro below_intros)

lemma parse_lines_below [below_intros]:
  "invoke_below I J \<Longrightarrow> below (parse_lines ev I ls s) (parse_lines ev J ls s)"
proof (induction ls arbitrary: s)
  case (Cons l ls)
  show ?case unfolding parse_lines.simps by (intro below_intros Cons)
qed simp

lemma parse_file_below [below_intros]:
  "invoke_below I J \<Longrightarrow> below (parse_file ev I f s) (parse_file ev J f s)"
  unfolding parse_file_def by (intro below_intros)

lemma dispatch_line_below [below_intros]:
  "parse_below P Q \<Longrightarrow> invoke_below I J \<Longrightarrow> below (dispatch_line ev P I n s) (dispatch_line ev Q J n s)"
  unfolding dispatch_line_def Let_def by (intro below_intros)

lemma parse_input_body_below [below_intros]:
  "parse_below P Q \<Longrightarrow> invoke_below I J \<Longrightarrow> below (parse_input_body ev P I input s) (parse_input_body ev Q J input s)"
  unfolding parse_input_body_def by (intro below_intros)

section \<open>The bound\<close>

lemma depth_below: "invoke_below (invoke n ev) (invoke (n + k) ev) \<and> parse_below (parse_input_cmd n ev) (parse_input_cmd (n + k) ev)"
proof (induction n)
  case 0
  then show ?case by (simp add: invoke_below_def parse_below_def invoke.simps parse_input_cmd.simps)
next
  case (Suc n)
  then have "invoke_below (invoke (Suc n) ev) (invoke (Suc (n + k)) ev)"
    unfolding invoke_below_def [of "invoke (Suc n) ev"] by (simp add: invoke.simps run_callback_below)
  moreover have "parse_below (parse_input_cmd (Suc n) ev) (parse_input_cmd (Suc (n + k)) ev)"
    unfolding parse_below_def [of "parse_input_cmd (Suc n) ev"] using Suc
    by (simp add: parse_input_cmd.simps parse_input_body_below)
  ultimately show ?case by simp
qed

lemma parse_depth:
  assumes "parse_input_cmd n ev input s = Some r" "n \<le> m"
  shows "parse_input_cmd m ev input s = Some r"
  using depth_below [of n ev "m - n"] assms parse_belowD [of "parse_input_cmd n ev" "parse_input_cmd m ev" input s]
  by (auto simp: below_def)

end
