(* ===== verification/TypedCommand.thy ===== *)
theory TypedCommand
  imports ModeCommands ParserDepth
begin

text \<open>
  A line whose words follow a path of the tree: the walk takes every word, puts the values into the
  leaves and into the buffer, and the handler at the end of the path is called with the leaves of
  the mode, those of the line, and the code of the command.
\<close>

section \<open>Paths\<close>

text \<open>One command abbreviated by the word, or none and a leaf.\<close>

definition unambiguous :: "param_heap \<Rightarrow> pptr option list \<Rightarrow> string \<Rightarrow> pptr \<Rightarrow> bool" where
  "unambiguous h os w p \<longleftrightarrow>
     (case match_loop h os w None [] of
        Inl _ \<Rightarrow> False
      | Inr (lf, poss) \<Rightarrow> poss = [p] \<or> poss = [] \<and> lf = Some p)"

definition accepts :: "'a env \<Rightarrow> param_t \<Rightarrow> string \<Rightarrow> bool" where
  "accepts ev c w \<longleftrightarrow>
     (case p_kind c of
        LeafP l \<Rightarrow> leaf_handler (lf_type l) w = Inr True \<and> INVOKE_LEAF_USER_VALIDATION_CALLBACK ev l w \<and> length w < 64
      | _ \<Rightarrow> True)"

fun word_path :: "'a env \<Rightarrow> param_heap \<Rightarrow> pptr \<Rightarrow> string list \<Rightarrow> pptr list \<Rightarrow> bool" where
  "word_path ev h x [] ps \<longleftrightarrow> ps = []"
| "word_path ev h x (w # ws) [] \<longleftrightarrow> False"
| "word_path ev h x (w # ws) (p # ps) \<longleftrightarrow>
     (case (h x, h p) of
        (Some c, Some pc) \<Rightarrow> unambiguous h (p_options c) w p \<and> accepts ev pc w \<and> nul \<notin> set w \<and> word_path ev h p ws ps
      | _ \<Rightarrow> False)"

text \<open>What the words put into the buffer, and the mode they select.\<close>

fun word_tlvs :: "param_heap \<Rightarrow> string list \<Rightarrow> pptr list \<Rightarrow> tlv_struct list" where
  "word_tlvs h (w # ws) (p # ps) =
     (case map_option p_kind (h p) of
        Some (LeafP l) \<Rightarrow> leaf_tlv (l\<lparr>lf_value := w\<rparr>) # word_tlvs h ws ps
      | _ \<Rightarrow> word_tlvs h ws ps)"
| "word_tlvs h _ _ = []"

fun word_mode :: "param_heap \<Rightarrow> pptr list \<Rightarrow> op_mode \<Rightarrow> op_mode" where
  "word_mode h [] eod = eod"
| "word_mode h (p # ps) eod =
     word_mode h ps (case map_option p_kind (h p) of Some (NoCmdP _) \<Rightarrow> CONFIG_DISABLE | _ \<Rightarrow> eod)"

lemma word_tlvs_length: "length (word_tlvs h ws ps) \<le> length ws"
  by (induction h ws ps rule: word_tlvs.induct) (auto split: option.splits cmd_union.splits)

section \<open>Trees that differ in the values of leaves\<close>

lemma match_loop_same: "same_tree h h' \<Longrightarrow> match_loop h' os w lf poss = match_loop h os w lf poss"
proof (induction os arbitrary: lf poss)
  case (Cons po os)
  show ?case
  proof (cases po)
    case (Some p)
    show ?thesis
    proof (cases "h p")
      case None
      then have "h' p = None" using same_tree_None [OF Cons.prems] by blast
      with None Some show ?thesis by (simp add: match_loop.simps(3) pget_def)
    next
      case (Some c)
      then obtain c' where c': "h' p = Some c'" using same_tree_Some [OF Cons.prems] by blast
      show ?thesis unfolding \<open>po = Some p\<close> match_step [where h = h and p = p, OF Some]
          match_step [where h = h' and p = p, OF c']
        using Cons is_leaf_same [OF Cons.prems] name_of_same [OF Cons.prems] by simp
    qed
  qed simp
qed simp

lemma unambiguous_same: "same_tree h h' \<Longrightarrow> unambiguous h' os w p = unambiguous h os w p"
  by (simp add: unambiguous_def match_loop_same)

text \<open>A leaf in another tree of the same shape.\<close>

lemma same_leaf:
  assumes "cleared c' = cleared c" "p_kind c = LeafP l"
  shows "\<exists>l'. p_kind c' = LeafP l' \<and> lf_type l' = lf_type l \<and> lf_id l' = lf_id l \<and>
    lf_user_validation l' = lf_user_validation l"
proof -
  have k: "clear_kind (p_kind c') = clear_kind (p_kind c)" using assms(1) by (rule cleared_eqD(1))
  then obtain l' where l': "p_kind c' = LeafP l'" using assms(2) by (cases "p_kind c'") (auto simp: clear_kind_def)
  then have "l'\<lparr>lf_value := []\<rparr> = l\<lparr>lf_value := []\<rparr>"
    using k assms(2) by (cases l; cases l') (simp add: clear_kind_def)
  then have "lf_type l' = lf_type l \<and> lf_id l' = lf_id l \<and> lf_user_validation l' = lf_user_validation l"
    by (cases l; cases l') simp
  with l' show ?thesis by blast
qed

lemma same_kind:
  assumes "cleared c' = cleared c"
  shows "p_kind c = CmdP n \<longleftrightarrow> p_kind c' = CmdP n" "p_kind c = NoCmdP n \<longleftrightarrow> p_kind c' = NoCmdP n"
  using cleared_eqD(1) [OF assms] by (metis clear_kind_simps(1), metis clear_kind_simps(2))

lemma typed_leaf_tlv:
  "nul \<notin> set w \<Longrightarrow> lf_type l' = lf_type l \<Longrightarrow> lf_id l' = lf_id l \<Longrightarrow>
   leaf_tlv (l'\<lparr>lf_value := new_value w v\<rparr>) = leaf_tlv (l\<lparr>lf_value := w\<rparr>)"
  by (simp add: leaf_tlv_def new_value_def cstr_def takeWhile_stop) (metis (mono_tags, lifting) takeWhile_eq_all_conv)

text \<open>Paths do not depend on the values of leaves.\<close>

lemma accepts_same:
  assumes "cleared c' = cleared c"
  shows "accepts ev c' w = accepts ev c w"
proof (cases "p_kind c")
  case (LeafP l)
  with same_leaf [OF assms] show ?thesis by (auto simp: accepts_def INVOKE_LEAF_USER_VALIDATION_CALLBACK_def)
next
  case (CmdP n)
  then have "p_kind c' = CmdP n" using same_kind(1) [OF assms] by simp
  with CmdP show ?thesis by (simp add: accepts_def)
next
  case (NoCmdP n)
  then have "p_kind c' = NoCmdP n" using same_kind(2) [OF assms] by simp
  with NoCmdP show ?thesis by (simp add: accepts_def)
qed

lemma word_path_same: "same_tree h h' \<Longrightarrow> word_path ev h x ws ps \<Longrightarrow> word_path ev h' x ws ps"
proof (induction ev h x ws ps rule: word_path.induct)
  case (3 ev h x w ws p ps)
  then obtain c pc where c: "h x = Some c" "h p = Some pc" "unambiguous h (p_options c) w p" "accepts ev pc w"
      "nul \<notin> set w" "word_path ev h p ws ps" by (auto split: option.splits)
  obtain c' pc' where c': "h' x = Some c'" "cleared c' = cleared c" "h' p = Some pc'" "cleared pc' = cleared pc"
    using same_tree_Some [OF "3.prems"(1) c(1)] same_tree_Some [OF "3.prems"(1) c(2)] by blast
  have "unambiguous h' (p_options c') w p"
    using c(3) unambiguous_same [OF "3.prems"(1)] cleared_eqD(2) [OF c'(2)] by simp
  moreover have "word_path ev h' p ws ps" using "3.IH" [OF refl c(1,2) "3.prems"(1) c(6)] .
  ultimately show ?case using c' c(4,5) accepts_same [OF c'(4), of ev w] by simp
qed auto

section \<open>The walk along a path\<close>

lemma match_token_unambiguous:
  "unambiguous (params s) os w p \<Longrightarrow> match_token os w s = Inr (Some p, s)"
proof -
  assume "unambiguous (params s) os w p"
  then obtain lf poss where m: "match_loop (params s) os w None [] = Inr (lf, poss)" "poss = [p] \<or> poss = [] \<and> lf = Some p"
    by (auto simp: unambiguous_def split: sum.splits)
  show ?thesis unfolding match_token_def find_matching_param_def m(1) using m(2) by auto
qed

lemma token_loop_path:
  assumes "word_path ev h x ws ps" "same_tree h (params s)" "tree_ok rk h" "values_ok (params s)"
    and "\<forall>j < length ws. token_str (sh_cli s) True (off + i + j) = Inr (ws ! j)"
    and "sb_tlvs (tlv_buff s) ts" "length ts + length ws \<le> 900000"
  shows "\<exists>h' b. token_loop ev off i parent x eod s (length ws) =
      Some (Inr (\<lparr>wk_status = COMPLETE, wk_i = i + length ws,
                  wk_parent = (if ps = [] then parent else Some (last (butlast (x # ps)))),
                  wk_param = Some (last (x # ps)), wk_mode = word_mode h ps eod\<rparr>,
             s\<lparr>sh_cli := (sh_cli s)\<lparr>cl_params := h', cl_tlv_buff := b\<rparr>\<rparr>)) \<and>
    same_tree h h' \<and> values_ok h' \<and> sb_tlvs b (ts @ word_tlvs h ws ps)"
  using assms
proof (induction ev h x ws ps arbitrary: i parent eod s ts rule: word_path.induct)
  case (1 ev h x ps)
  then show ?case by (intro exI [of _ "params s"] exI [of _ "tlv_buff s"]) simp
next
  case (2 ev h x w ws)
  then show ?case by simp
next
  case (3 ev h x w ws p ps)
  obtain c pc where c: "h x = Some c" "h p = Some pc" "unambiguous h (p_options c) w p" "accepts ev pc w"
      "nul \<notin> set w" "word_path ev h p ws ps"
    using "3.prems"(1) by (auto split: option.splits)
  obtain c' pc' where c': "params s x = Some c'" "cleared c' = cleared c" "params s p = Some pc'" "cleared pc' = cleared pc"
    using same_tree_Some [OF "3.prems"(2) c(1)] same_tree_Some [OF "3.prems"(2) c(2)] by blast
  have tok: "token_str (sh_cli s) True (off + i) = Inr w" using "3.prems"(5) by force
  have rest: "\<forall>j < length ws. token_str (sh_cli s) True (off + Suc i + j) = Inr (ws ! j)"
    using "3.prems"(5) by (metis Suc_less_eq add_Suc_right add_Suc_shift length_Cons nth_Cons_Suc)
  have m: "match_token (p_options c') w s = Inr (Some p, s)"
    using match_token_unambiguous unambiguous_same [OF "3.prems"(2)] c(3) cleared_eqD(2) [OF c'(2)] by metis
  have pg: "pget (params s) x = Inr c'" "pget (params s) p = Inr pc'" using c'(1,3) by (simp_all add: pget_def)
  note IH = "3.IH" [OF _ c(1,2), simplified, OF c(6)]
  have body: "token_loop ev off i parent x eod s (length (w # ws)) =
      (case p_kind pc' of
         CmdP _ \<Rightarrow> token_loop ev off (Suc i) (Some x) p eod s (length ws)
       | NoCmdP _ \<Rightarrow> token_loop ev off (Suc i) (Some x) p CONFIG_DISABLE s (length ws)
       | LeafP l \<Rightarrow>
           obind (Some (leaf_handler (lf_type l) w)) (\<lambda>ok.
             if \<not> ok
             then Some (Inr (\<lparr>wk_status = INVALID_LEAF, wk_i = i, wk_parent = Some x,
                              wk_param = Some p, wk_mode = eod\<rparr>, s))
             else if \<not> INVOKE_LEAF_USER_VALIDATION_CALLBACK ev l w
             then Some (Inr (\<lparr>wk_status = USER_INVALID_LEAF, wk_i = i, wk_parent = Some x,
                              wk_param = Some p, wk_mode = eod\<rparr>, s))
             else obind (take_leaf ev p pc' l w s) (\<lambda>s.
                    token_loop ev off (Suc i) (Some x) p eod s (length ws))))"
    unfolding length_Cons token_loop.simps tok obind.simps pg m prod.case option.case ..
  have ends: "(if ps = [] then Some x else Some (last (butlast (p # ps)))) = Some (last (butlast (x # p # ps)))"
    "last (p # ps) = last (x # p # ps)" by auto
  show ?case
  proof (cases "p_kind pc")
    case (CmdP n)
    then have k: "p_kind pc' = CmdP n" using same_kind(1) [OF c'(4)] by simp
    from IH [OF "3.prems"(2-4) rest "3.prems"(6), of "Some x" eod] "3.prems"(7)
    obtain h' b where "token_loop ev off (Suc i) (Some x) p eod s (length ws) =
        Some (Inr (\<lparr>wk_status = COMPLETE, wk_i = Suc i + length ws, wk_parent = Some (last (butlast (x # p # ps))),
          wk_param = Some (last (x # p # ps)), wk_mode = word_mode h ps eod\<rparr>,
          s\<lparr>sh_cli := (sh_cli s)\<lparr>cl_params := h', cl_tlv_buff := b\<rparr>\<rparr>))"
      "same_tree h h' \<and> values_ok h' \<and> sb_tlvs b (ts @ word_tlvs h ws ps)" unfolding ends by force
    then show ?thesis unfolding body k cmd_union.case using c(2) CmdP
      by (intro exI [of _ h'] exI [of _ b]) simp
  next
    case (NoCmdP n)
    then have k: "p_kind pc' = NoCmdP n" using same_kind(2) [OF c'(4)] by simp
    from IH [OF "3.prems"(2-4) rest "3.prems"(6), of "Some x" CONFIG_DISABLE] "3.prems"(7)
    obtain h' b where "token_loop ev off (Suc i) (Some x) p CONFIG_DISABLE s (length ws) =
        Some (Inr (\<lparr>wk_status = COMPLETE, wk_i = Suc i + length ws, wk_parent = Some (last (butlast (x # p # ps))),
          wk_param = Some (last (x # p # ps)), wk_mode = word_mode h ps CONFIG_DISABLE\<rparr>,
          s\<lparr>sh_cli := (sh_cli s)\<lparr>cl_params := h', cl_tlv_buff := b\<rparr>\<rparr>))"
      "same_tree h h' \<and> values_ok h' \<and> sb_tlvs b (ts @ word_tlvs h ws ps)" unfolding ends by force
    then show ?thesis unfolding body k cmd_union.case using c(2) NoCmdP
      by (intro exI [of _ h'] exI [of _ b]) simp
  next
    case (LeafP l)
    obtain l' where l': "p_kind pc' = LeafP l'" "lf_type l' = lf_type l" "lf_id l' = lf_id l"
        "lf_user_validation l' = lf_user_validation l"
      using same_leaf [OF c'(4) LeafP] by blast
    have acc: "leaf_handler (lf_type l') w = Inr True" "INVOKE_LEAF_USER_VALIDATION_CALLBACK ev l' w" "length w < 64"
      using c(4) LeafP l' by (simp_all add: accepts_def INVOKE_LEAF_USER_VALIDATION_CALLBACK_def)
    have v: "length (lf_value l') = 64" using values_okD [OF "3.prems"(4) c'(3) l'(1)] by simp
    have id: "length (cstr (lf_id l')) \<le> 32"
      using param_okD(7) [OF tree_param [OF "3.prems"(3) c(2)]] LeafP l'(3) by (simp add: id_length_def)
    let ?l = "l'\<lparr>lf_value := new_value w (lf_value l')\<rparr>"
    let ?h = "(params s)(p \<mapsto> pc'\<lparr>p_kind := LeafP ?l\<rparr>)"
    obtain b where b: "take_leaf ev p pc' l' w s = Some (Inr (s\<lparr>sh_cli := (sh_cli s)\<lparr>cl_params := ?h, cl_tlv_buff := b\<rparr>\<rparr>))"
        "sb_tlvs b (ts @ [leaf_tlv ?l])"
      using take_leaf_eq [OF c(5) v id "3.prems"(6), of ev p pc'] acc(3) "3.prems"(7) by auto
    have e: "leaf_tlv ?l = leaf_tlv (l\<lparr>lf_value := w\<rparr>)" using typed_leaf_tlv [OF c(5) l'(2,3)] .
    have "cleared (pc'\<lparr>p_kind := LeafP ?l\<rparr>) = cleared pc'" using l'(1) by (simp add: cleared_def)
    then have same: "same_tree h ?h"
      using same_tree_trans [OF "3.prems"(2)] same_tree_update [where h = "params s" and p = p, OF c'(3)] by blast
    have vals: "values_ok ?h" using "3.prems"(4) new_value [OF c(5) acc(3) v] by (simp add: values_ok_def value_ok_def)
    let ?s = "s\<lparr>sh_cli := (sh_cli s)\<lparr>cl_params := ?h, cl_tlv_buff := b\<rparr>\<rparr>"
    have rest': "\<forall>j < length ws. token_str (sh_cli ?s) True (off + Suc i + j) = Inr (ws ! j)"
      using rest by (simp add: token_str_def)
    obtain h' b' where "token_loop ev off (Suc i) (Some x) p eod ?s (length ws) =
        Some (Inr (\<lparr>wk_status = COMPLETE, wk_i = Suc i + length ws, wk_parent = Some (last (butlast (x # p # ps))),
          wk_param = Some (last (x # p # ps)), wk_mode = word_mode h ps eod\<rparr>,
          ?s\<lparr>sh_cli := (sh_cli ?s)\<lparr>cl_params := h', cl_tlv_buff := b'\<rparr>\<rparr>))"
      "same_tree h h' \<and> values_ok h' \<and> sb_tlvs b' ((ts @ [leaf_tlv ?l]) @ word_tlvs h ws ps)"
      using IH [of ?s "Suc i" "ts @ [leaf_tlv ?l]" "Some x" eod] same vals "3.prems"(3,7) rest' b(2) unfolding ends by force
    then show ?thesis unfolding body l'(1) cmd_union.case using c(2) LeafP acc b(1) e
      by (intro exI [of _ h'] exI [of _ b']) simp
  qed
qed

section \<open>The line\<close>

text \<open>Lines that the parser takes for one of its own commands, in a mode or at the root.\<close>

definition parser_word :: "bool \<Rightarrow> string list \<Rightarrow> bool" where
  "parser_word at_root ws \<longleftrightarrow>
     length ws > 1 \<and> prefix ''do'' (hd ws) \<and> \<not> at_root \<or>
     prefix (hd ws) ''repeat'' \<or>
     length ws = 1 \<and> (prefix ''cd'' (hd ws) \<or> prefix ''cls'' (hd ws) \<or> prefix ''run'' (hd ws) \<or> prefix ''config'' (hd ws)) \<or>
     length ws = 4 \<and> prefix ''run'' (hd ws) \<and> prefix ''ut'' (ws ! 1) \<or>
     length ws = 3 \<and> prefix ''config'' (hd ws) \<and> prefix ''load'' (ws ! 1)"

lemma dispatch_to_tree:
  assumes "\<forall>j < length ws. token_str (sh_cli s) True j = Inr (ws ! j)" "ws \<noteq> []"
    and "\<not> parser_word (cursor s = Some libcli_get_root) ws"
  shows "dispatch_line ev parse invk (length ws) s =
    obind (build_tlv_buffer ev invk 0 (length ws) s) (\<lambda>(status, s). Some (Inr (status, False, s)))"
proof -
  have t0: "token_str (sh_cli s) True 0 = Inr (hd ws)" using assms(1,2) by (simp add: hd_conv_nth)
  have t1: "token_str (sh_cli s) True 1 = Inr (ws ! 1)" if "length ws \<noteq> 1"
    using assms(1,2) that by (cases ws) auto
  have n: "\<not> (length ws > 1 \<and> strn_prefix (hd ws) ''do'' \<and> cursor s \<noteq> Some libcli_get_root)"
      "\<not> strn_prefix ''repeat'' (hd ws)" "\<not> (strn_prefix (hd ws) ''cd..'' \<and> length ws = 1)"
      "\<not> (strn_prefix (hd ws) ''cd'' \<and> length ws = 1)" "\<not> (strn_prefix (hd ws) ''cls'' \<and> length ws = 1)"
    using assms(3) prefix_order.trans [of "''cd''" "''cd..''" "hd ws"] by (auto simp: parser_word_def strn_prefix_def)
  have ut: "(if strn_prefix (hd ws) ''run'' then rbind (token_str (sh_cli s) True 1) (\<lambda>t1. Inr (strn_prefix t1 ''ut'' \<and> length ws = 4))
      else Inr False) = Inr False"
    using assms(3) t1 by (auto simp: parser_word_def strn_prefix_def)
  have load: "(if \<not> False \<and> strn_prefix (hd ws) ''config''
      then rbind (token_str (sh_cli s) True 1) (\<lambda>t1. Inr (strn_prefix t1 ''load'' \<and> length ws = 3)) else Inr False) = Inr False"
    using assms(3) t1 by (auto simp: parser_word_def strn_prefix_def)
  show ?thesis
    unfolding dispatch_line_def Let_def t0 obind.simps if_not_P [OF n(1)] if_not_P [OF n(2)] if_not_P [OF n(3)]
      if_not_P [OF n(4)] if_not_P [OF n(5)] ut load if_False ..
qed

text \<open>The state in which the handler runs: the leaves and the code are in the buffer.\<close>

definition handler_sees :: "'a shell \<Rightarrow> tlv_struct list \<Rightarrow> int \<Rightarrow> bool" where
  "handler_sees t ts code \<longleftrightarrow> TLV_LOOP (Some (tlv_buff t)) = Inr ts \<and> EXTRACT_CMD_CODE (tlv_buff t) = Inr code"

lemma print_d_length:
  assumes "i32_ok n"
  shows "length (print_d n) < 64 \<and> nul \<notin> set (print_d n)"
proof -
  have "\<bar>n\<bar> < 10000000000" using assms by (auto simp: i32_ok_def abs_if)
  then have b: "nat \<bar>n\<bar> < 10 ^ Suc 9" by (simp add: nat_less_iff)
  have "nul \<notin> set (dec_digits (nat \<bar>n\<bar>))"
    using dec_digits_all [of "nat \<bar>n\<bar>"] digit_not_space by (auto simp: list_all_iff)
  with dec_digits_length [OF b] show ?thesis by (auto simp: print_d_def nul_def)
qed

lemma obind_assoc: "obind (obind m k) l = obind m (\<lambda>v. obind (k v) l)"
  by (cases "(m, k)" rule: obind.cases) auto

lemma command_code_collected:
  assumes "i32_ok code" "tlv_ok (sh_code s)" "sb_tlvs (tlv_buff s) ts" "length ts < 1000000"
  shows "\<exists>s1 s2. set_command_code code s = Inr s1 \<and> collect_command_code ev s1 = Some (Inr s2) \<and>
    (\<exists>v b. s2 = s\<lparr>sh_code := (sh_code s)\<lparr>tlv_value := v\<rparr>, sh_cli := (sh_cli s)\<lparr>cl_tlv_buff := b\<rparr>\<rparr>) \<and>
    handler_sees s2 ts code \<and> tlv_ok (sh_code s2) \<and> sb_tlvs (tlv_buff s2) (ts @ [sh_code s2])"
proof -
  let ?v = "print_d code @ nul # replicate (63 - length (print_d code)) nul"
  let ?t = "(sh_code s)\<lparr>tlv_value := ?v\<rparr>"
  have l: "length (print_d code) < 64" "nul \<notin> set (print_d code)" using print_d_length [OF assms(1)] by simp_all
  then have s1: "set_command_code code s = Inr (s\<lparr>sh_code := ?t\<rparr>)"
    by (simp add: set_command_code_def c_sprintf_def memcpy_def blit_def Let_def LEAF_VALUE_HOLDER_SIZE_def)
  have ok: "tlv_ok ?t" using assms(2) l by (simp add: tlv_ok_def)
  obtain b where b: "collect_tlv (ev_junk ev) (Some (tlv_buff s)) ?t = Some (Inr b)" "sb_tlvs b (ts @ [?t])"
    using collect_tlv_appends [OF assms(3) ok, of "ev_junk ev"] assms(4) by auto
  have "collect_command_code ev (s\<lparr>sh_code := ?t\<rparr>) =
      Some (Inr (s\<lparr>sh_code := ?t, sh_cli := (sh_cli s)\<lparr>cl_tlv_buff := b\<rparr>\<rparr>))"
    using b(1) by (simp add: collect_command_code_def on_buff_opt_def on_cli_opt_def)
  moreover have "handler_sees (s\<lparr>sh_code := ?t, sh_cli := (sh_cli s)\<lparr>cl_tlv_buff := b\<rparr>\<rparr>) ts code"
    using TLV_LOOP_leaves [OF b(2)] atoi_print_d [OF assms(1)] l(2) by (simp add: handler_sees_def)
  ultimately show ?thesis using s1 ok b(2)
    by (intro exI [of _ "s\<lparr>sh_code := ?t\<rparr>"] exI [of _ "s\<lparr>sh_code := ?t, sh_cli := (sh_cli s)\<lparr>cl_tlv_buff := b\<rparr>\<rparr>"]) auto
qed

theorem typed_line:
  assumes tree: "shell_ok rk s" "cursor s = Some x" "sb_tlvs (tlv_buff s) ts" "length ts \<le> 1001"
    and line: "holds input l" "length l < 2048" "tokens_ok (cl_tokens (sh_cli s))" "strtok_all CHR '' '' (trim l) = ws"
      "ws \<noteq> []" "length ws \<le> 16" "\<forall>w \<in> set ws. length w < 64" "\<not> parser_word (x = libcli_get_root) ws"
    and path: "word_path ev (params s) x ws ps" "params s (last ps) = Some c" "p_callback c = Some cb" "i32_ok (p_CMDCODE c)"
      "\<not> special (last ps)" "last ps \<noteq> libcli_get_config_hook" "branch (params s) (last ps) bs"
      "last bs \<noteq> libcli_get_repeat_hook"
  shows "\<exists>t. parse_input_body ev parse invk input s =
      obind (invk (last ps) cb (branch_mode (last bs) (word_mode (params s) ps MODE_UNKNOWN)) t) (\<lambda>s.
        obind (Some (after_command s)) (\<lambda>s. Some (Inr (COMPLETE, False, s)))) \<and>
    handler_sees t (ts @ word_tlvs (params s) ws ps) (p_CMDCODE c) \<and> cursor t = cursor s \<and> sh_app t = sh_app s \<and>
    same_tree (params s) (params t) \<and> tokens_ok (cl_tokens (sh_cli t)) \<and> shell_ok rk t \<and>
    sb_tlvs (tlv_buff t) (ts @ word_tlvs (params s) ws ps @ [sh_code t]) \<and>
    sh_input t = sh_input s \<and> sh_stdin t = sh_stdin s \<and> sh_out t = sh_out s @ [''Parse Success.''] \<and>
    sh_free_fds t = sh_free_fds s"
proof -
  have "length (strtok_all CHR '' '' (trim l)) \<le> 16" "\<forall>w \<in> set (strtok_all CHR '' '' (trim l)). length w < 64"
    using line by simp_all
  from tokenizer_words [OF line(1-3) this] line(4,5) obtain ts' where tk:
    "tokenizer input CHR '' '' (cl_tokens (sh_cli s)) = Inr (ts', True, length ws)" "tokens_ok ts'"
    "\<forall>k < length ws. holds (ts' ! k) (ws ! k)" by auto
  define s0 where "s0 = s\<lparr>sh_cli := (sh_cli s)\<lparr>cl_tokens := ts'\<rparr>\<rparr>"
  have toks: "\<forall>j < length ws. token_str (sh_cli s0) True j = Inr (ws ! j)"
    using tk(2,3) line(6) strlen_holds by (fastforce simp: s0_def token_str_def get_token_def tokens_ok_def holds_def)
  have cur: "cursor s0 = Some x" using tree(2) by (simp add: s0_def get_cmd_tree_cursor_def)
  have ok: "tree_ok rk (params s)" "values_ok (params s0)" "tlv_ok (sh_code s0)" "sb_tlvs (tlv_buff s0) ts" "params s0 = params s"
    using tree(1,3) by (simp_all add: shell_ok_def s0_def)
  have ne: "ps \<noteq> []" using path(1) line(5) by (cases ws; cases ps) auto
  have tl: "length (word_tlvs (params s) ws ps) \<le> 16" using word_tlvs_length [of "params s" ws ps] line(6) by simp
  obtain w h' b where walk: "token_loop ev 0 0 None x MODE_UNKNOWN s0 (length ws) =
      Some (Inr (w, s0\<lparr>sh_cli := (sh_cli s0)\<lparr>cl_params := h', cl_tlv_buff := b\<rparr>\<rparr>))"
      "wk_status w = COMPLETE" "wk_param w = Some (last ps)" "wk_mode w = word_mode (params s) ps MODE_UNKNOWN"
      "same_tree (params s) h'" "values_ok h'" "sb_tlvs b (ts @ word_tlvs (params s) ws ps)"
    using token_loop_path [OF path(1) _ ok(1,2) _ ok(4), of 0 0 None MODE_UNKNOWN] toks ok(5) tree(4) line(6) ne by auto
  define s1 where "s1 = say ''Parse Success.'' (s0\<lparr>sh_cli := (sh_cli s0)\<lparr>cl_params := h', cl_tlv_buff := b\<rparr>\<rparr>)"
  obtain c' where c': "h' (last ps) = Some c'" "cleared c' = cleared c" using same_tree_Some [OF walk(5) path(2)] by blast
  have cb: "p_callback c' = Some cb" "p_CMDCODE c' = p_CMDCODE c" using cleared_eqD(3,4) [OF c'(2)] path(3) by simp_all
  have pg: "pget (params s1) (last ps) = Inr c'" "pget h' (last ps) = Inr c'" using c'(1) by (simp_all add: pget_def s1_def)
  have hook: "get_current_branch_hook (params s1) (Some (last ps)) = Some (Inr (last bs))"
    using current_branch_hook_top branch_same [OF walk(5) path(7)] by (simp add: s1_def)
  obtain s2 s3 where code: "set_command_code (p_CMDCODE c) s1 = Inr s2" "collect_command_code ev s2 = Some (Inr s3)"
      "\<exists>v b. s3 = s1\<lparr>sh_code := (sh_code s1)\<lparr>tlv_value := v\<rparr>, sh_cli := (sh_cli s1)\<lparr>cl_tlv_buff := b\<rparr>\<rparr>"
      "handler_sees s3 (ts @ word_tlvs (params s) ws ps) (p_CMDCODE c)" "tlv_ok (sh_code s3)"
      "sb_tlvs (tlv_buff s3) (ts @ word_tlvs (params s) ws ps @ [sh_code s3])"
    using command_code_collected [OF path(4), of s1 "ts @ word_tlvs (params s) ws ps" ev] ok(3) walk(7) tree(4) tl
    by (auto simp: s1_def)
  have h3: "params s3 = h'" "cursor s3 = cursor s" "sh_app s3 = sh_app s" "tokens_ok (cl_tokens (sh_cli s3))"
      "sh_input s3 = sh_input s" "sh_stdin s3 = sh_stdin s" "sh_out s3 = sh_out s @ [''Parse Success.'']"
      "sh_free_fds s3 = sh_free_fds s"
    using code(3) tk(2) by (auto simp: s1_def s0_def say_def get_cmd_tree_cursor_def)
  have pg3: "pget (params s3) (last ps) = Inr c'" using c'(1) h3(1) by (simp add: pget_def)
  have plain: "plain_command ev invk (last ps) (wk_mode w) s1 =
      obind (invk (last ps) cb (branch_mode (last bs) (word_mode (params s) ps MODE_UNKNOWN)) s3)
        (\<lambda>s. Some (Inr (COMPLETE, s)))"
    using path(6,8) hook pg(1) cb code(1,2) pg3 walk(4)
    by (simp add: plain_command_def invoke_handler_def)
  have "build_tlv_buffer ev invk 0 (length ws) s0 = plain_command ev invk (last ps) (wk_mode w) s1"
    using cur walk(1-3) pg(2) cb(1) path(5)
    by (simp add: build_tlv_buffer_def complete_command_def s1_def special_def)
  with plain dispatch_to_tree [OF toks line(5)] line(8) cur
  have "dispatch_line ev parse invk (length ws) s0 =
      obind (invk (last ps) cb (branch_mode (last bs) (word_mode (params s) ps MODE_UNKNOWN)) s3)
        (\<lambda>s. Some (Inr (COMPLETE, False, s)))"
    by (simp add: obind_assoc)
  then have "parse_input_body ev parse invk input s =
      obind (invk (last ps) cb (branch_mode (last bs) (word_mode (params s) ps MODE_UNKNOWN)) s3) (\<lambda>s.
        obind (Some (after_command s)) (\<lambda>s. Some (Inr (COMPLETE, False, s))))"
    using tk(1) line(5) by (simp add: parse_input_body_def s0_def [symmetric] obind_assoc)
  moreover have "shell_ok rk s3"
    using code(5) h3(1) walk(6) tree_ok_same [OF walk(5) ok(1)] by (simp add: shell_ok_def)
  ultimately show ?thesis using code(4,6) h3 walk(5) by blast
qed

theorem typed_command:
  assumes tree: "shell_ok rk s" "cursor s = Some x" "sb_tlvs (tlv_buff s) ts" "length ts \<le> 1001"
    and line: "holds input l" "length l < 2048" "tokens_ok (cl_tokens (sh_cli s))" "strtok_all CHR '' '' (trim l) = ws"
      "ws \<noteq> []" "length ws \<le> 16" "\<forall>w \<in> set ws. length w < 64" "\<not> parser_word (x = libcli_get_root) ws"
    and path: "word_path ev (params s) x ws ps" "params s (last ps) = Some c" "p_callback c = Some cb" "i32_ok (p_CMDCODE c)"
      "\<not> special (last ps)" "last ps \<noteq> libcli_get_config_hook" "branch (params s) (last ps) bs"
      "last bs \<noteq> libcli_get_repeat_hook"
  shows "\<exists>t. parse_input_cmd (Suc n) ev input s =
      obind (invoke n ev (last ps) cb (branch_mode (last bs) (word_mode (params s) ps MODE_UNKNOWN)) t) (\<lambda>s.
        obind (Some (after_command s)) (\<lambda>s. Some (Inr (COMPLETE, False, s)))) \<and>
    handler_sees t (ts @ word_tlvs (params s) ws ps) (p_CMDCODE c) \<and> cursor t = cursor s \<and> sh_app t = sh_app s \<and>
    same_tree (params s) (params t) \<and> tokens_ok (cl_tokens (sh_cli t)) \<and> shell_ok rk t \<and>
    sb_tlvs (tlv_buff t) (ts @ word_tlvs (params s) ws ps @ [sh_code t]) \<and>
    sh_input t = sh_input s \<and> sh_stdin t = sh_stdin s \<and> sh_out t = sh_out s @ [''Parse Success.''] \<and>
    sh_free_fds t = sh_free_fds s"
  using typed_line [OF assms, of "parse_input_cmd n ev" "invoke n ev"] by (simp add: parse_input_cmd.simps)

text \<open>A line at the keyboard, in a turn of the shell.\<close>

lemma line_read:
  assumes "sh_stdin s = l @ newline # rest" "sh_input s = replicate CONS_INPUT_BUFFER_SIZE nul"
    and "nul \<notin> set l" "newline \<notin> set l" "l \<noteq> []" "length l < 2046"
  shows "\<exists>b. holds b l \<and> shell_turn n ev s =
    obind (parse_input_cmd n ev b (s\<lparr>sh_stdin := rest, sh_input := b\<rparr>)) (\<lambda>(status, rep, s).
      let empty = replicate CONS_INPUT_BUFFER_SIZE nul in
      if rep then Some (Inr (s\<lparr>sh_input := empty\<rparr>))
      else
        obind (Some (if status = COMPLETE \<and> sh_recording s then record_command (cstr (sh_input s)) s else Inr s)) (\<lambda>s.
        obind (Some (c_strlen (sh_input s))) (\<lambda>len.
        obind (Some (memcpy empty 0 (sh_input s) 0 len)) (\<lambda>last.
          Some (Inr (s\<lparr>sh_recording := True, sh_last := last, sh_input := empty\<rparr>))))))"
proof -
  have len: "takeWhile (\<lambda>c. c \<noteq> newline) (l @ newline # rest) = l" using assms(4) by (auto simp: takeWhile_tail)
  have fg: "fgets (CONS_INPUT_BUFFER_SIZE - 1) (sh_stdin s) = Some (l @ [newline], rest)"
    using assms(1,6) len by (simp add: fgets_def Let_def CONS_INPUT_BUFFER_SIZE_def)
  let ?b = "l @ newline # nul # replicate (2046 - length l) nul"
  have nl: "newline \<noteq> nul" by (simp add: newline_def nul_def)
  have bl: "blit (sh_input s) 0 ((l @ [newline]) @ [nul]) = ?b"
    using assms(2,6) by (simp add: blit_def CONS_INPUT_BUFFER_SIZE_def)
  have sl: "c_strlen ?b = Inr (length l + 1)"
    using assms(3) nl cstr_append [of "l @ [newline]"] by (simp add: c_strlen_def)
  have st: "store ?b (length l) nul = Inr (l @ nul # nul # replicate (2046 - length l) nul)"
    by (simp add: store_def)
  have "holds (l @ nul # nul # replicate (2046 - length l) nul) l" using assms(3) by (simp add: holds_def)
  with assms(5) show ?thesis
    unfolding shell_turn_def fg option.case prod.case Let_def bl
    by (intro exI [of _ "l @ nul # nul # replicate (2046 - length l) nul"]) (simp add: sl st)
qed

end
