(* ===== verification/TestApp.thy ===== *)
theory TestApp
  imports Controller NetUtils TypedCommand
begin

text \<open>
  The server application (\<^verbatim>\<open>testapp.cpp\<close>): its list of controllers, the two handlers
  of its commands, and the commands it registers below \<^verbatim>\<open>config\<close> and \<^verbatim>\<open>show\<close>.
  A controller is a record of the theory \<^verbatim>\<open>Controller\<close>, alive while its address is mapped;
  the list keeps addresses. What the machine adds is a parameter: the results of
  \<^verbatim>\<open>socket()\<close> and of creating a thread, the lookup of a host, and the contents of fresh
  memory.

  \<^verbatim>\<open>std::string\<close> of a null pointer throws an exception that nobody catches; it is the
  fault \<open>NullDeref\<close>.
\<close>

section \<open>State\<close>

record app =
  tcp_server_lst :: "nat list"
  ctrl_heap :: "nat \<Rightarrow> server option"
  next_ctrl :: nat

record machine =
  mc_socket :: "app \<Rightarrow> int"
  mc_thread :: "app \<Rightarrow> bool"
  mc_host :: "app \<Rightarrow> bool"
  mc_server :: "app \<Rightarrow> server"
  mc_client :: "app \<Rightarrow> tcp_client"

definition default_port_no :: u16 where "default_port_no = 40000"
definition default_ip_addr :: string where "default_ip_addr = ''127.0.0.1''"

definition TCP_SERVER_CREATE :: int where "TCP_SERVER_CREATE = 1"
definition TCP_SERVER_START :: int where "TCP_SERVER_START = 2"
definition TCP_SERVER_SHOW_TCP_SERVER :: int where "TCP_SERVER_SHOW_TCP_SERVER = 3"
definition TCP_SERVER_STOP_CONN_ACCEPT :: int where "TCP_SERVER_STOP_CONN_ACCEPT = 4"
definition TCP_SERVER_STOP_CLIENT_LISTEN :: int where "TCP_SERVER_STOP_CLIENT_LISTEN = 5"
definition TCP_SERVER_STOP :: int where "TCP_SERVER_STOP = 6"
definition TCP_SERVER_CONNECT_REMOTE :: int where "TCP_SERVER_CONNECT_REMOTE = 7"

lemmas app_code_defs = TCP_SERVER_CREATE_def TCP_SERVER_START_def TCP_SERVER_SHOW_TCP_SERVER_def
  TCP_SERVER_STOP_CONN_ACCEPT_def TCP_SERVER_STOP_CLIENT_LISTEN_def TCP_SERVER_STOP_def
  TCP_SERVER_CONNECT_REMOTE_def

section \<open>Controllers by name\<close>

text \<open>Every controller before the one that is found is read, freed or not.\<close>

fun TcpServer_lookup :: "(nat \<Rightarrow> server option) \<Rightarrow> nat list \<Rightarrow> string \<Rightarrow> nat option res" where
  "TcpServer_lookup h [] name = Inr None"
| "TcpServer_lookup h (a # as) name =
     (case h a of
        None \<Rightarrow> Inl UseAfterFree
      | Some s \<Rightarrow> if ctrl_name s = name then Inr (Some a) else TcpServer_lookup h as name)"

definition app_lookup :: "string option \<Rightarrow> app shell \<Rightarrow> nat option res" where
  "app_lookup name s =
     (case name of
        None \<Rightarrow> Inl NullDeref
      | Some n \<Rightarrow> TcpServer_lookup (ctrl_heap (sh_app s)) (tcp_server_lst (sh_app s)) n)"

definition set_ctrl :: "nat \<Rightarrow> server \<Rightarrow> app shell \<Rightarrow> app shell" where
  "set_ctrl a c s = s\<lparr>sh_app := (sh_app s)\<lparr>ctrl_heap := (ctrl_heap (sh_app s))(a \<mapsto> c)\<rparr>\<rparr>"

text \<open>A command on an existing controller; without one, only a message is printed.\<close>

definition on_server ::
  "string \<Rightarrow> string option \<Rightarrow> (server \<Rightarrow> app shell \<Rightarrow> nat \<Rightarrow> app shell res) \<Rightarrow> app shell \<Rightarrow> app shell res" where
  "on_server msg name f s =
     rbind (app_lookup name s) (\<lambda>a.
       case a of
         None \<Rightarrow> Inr (say msg s)
       | Some a \<Rightarrow> (case ctrl_heap (sh_app s) a of None \<Rightarrow> Inl UseAfterFree | Some c \<Rightarrow> f c s a))"

section \<open>Arguments of the commands\<close>

record leaf_args =
  la_server_name :: "string option"
  la_ip_addr :: string
  la_port_no :: u16
  la_remote_ip_addr :: "string option"
  la_remote_port :: u16

definition default_args :: leaf_args where
  "default_args =
     \<lparr>la_server_name = None, la_ip_addr = default_ip_addr, la_port_no = default_port_no,
      la_remote_ip_addr = None, la_remote_port = 0\<rparr>"

fun read_leaves :: "tlv_struct list \<Rightarrow> leaf_args \<Rightarrow> leaf_args res" where
  "read_leaves [] a = Inr a"
| "read_leaves (t # ts) a =
     (let i = cstr (tlv_leaf_id t); v = cstr (tlv_value t) in
      if strn_prefix i ''tcp-server-name'' then read_leaves ts (a\<lparr>la_server_name := Some v\<rparr>)
      else if strn_prefix i ''tcp-server-addr'' then read_leaves ts (a\<lparr>la_ip_addr := v\<rparr>)
      else if strn_prefix i ''tcp-server-port''
      then rbind (atoi v) (\<lambda>n. read_leaves ts (a\<lparr>la_port_no := of_int n\<rparr>))
      else if strn_prefix i ''remote-addr'' then read_leaves ts (a\<lparr>la_remote_ip_addr := Some v\<rparr>)
      else if strn_prefix i ''remote-port''
      then rbind (atoi v) (\<lambda>n. read_leaves ts (a\<lparr>la_remote_port := of_int n\<rparr>))
      else read_leaves ts a)"

section \<open>The configuration commands\<close>

definition create_server :: "machine \<Rightarrow> leaf_args \<Rightarrow> app shell \<Rightarrow> app shell res" where
  "create_server mc a s =
     rbind (app_lookup (la_server_name a) s) (\<lambda>found.
       if found \<noteq> None then Inr (say ''Error: Tcp Server Already Exits'' s)
       else
         let p = sh_app s in
         rbind (TcpServerController_new (mc_server mc p) (network_convert_ip_p_to_n (la_ip_addr a))
                  (la_port_no a) (the (la_server_name a)) (mc_socket mc p)) (\<lambda>c.
           Inr (s\<lparr>sh_app := p\<lparr>tcp_server_lst := tcp_server_lst p @ [next_ctrl p],
                    ctrl_heap := (ctrl_heap p)(next_ctrl p \<mapsto> SetServerNotifCallbacks AppFn AppFn AppFn c),
                    next_ctrl := Suc (next_ctrl p)\<rparr>\<rparr>)))"

text \<open>The branches of the \<^verbatim>\<open>switch\<close>. Stopping frees the controller, the list keeps it.\<close>

definition config_switch :: "machine \<Rightarrow> int \<Rightarrow> leaf_args \<Rightarrow> op_mode \<Rightarrow> app shell \<Rightarrow> app shell res" where
  "config_switch mc code a eod s =
     (if code = TCP_SERVER_CREATE then create_server mc a s
      else if code = TCP_SERVER_START
      then on_server ''Error: Tcp Server do not Exist'' (la_server_name a) (\<lambda>c s p.
             rbind (Start (mc_thread mc (sh_app s)) c) (\<lambda>c. Inr (set_ctrl p c s))) s
      else if code = TCP_SERVER_STOP_CONN_ACCEPT
      then on_server ''Error: Tcp Server do not Exist'' (la_server_name a) (\<lambda>c s p.
             case eod of
               CONFIG_ENABLE \<Rightarrow>
                 Inr (say ''Stop accepting new connetions'' (set_ctrl p (StopConnectionAcceptingSvc c) s))
             | CONFIG_DISABLE \<Rightarrow>
                 rbind (StartConectionAcceptionSvc (mc_socket mc (sh_app s)) (mc_thread mc (sh_app s)) c)
                   (\<lambda>c. Inr (set_ctrl p c s))
             | _ \<Rightarrow> Inr s) s
      else if code = TCP_SERVER_STOP_CLIENT_LISTEN
      then on_server ''Error : Tcp Server do not exist'' (la_server_name a) (\<lambda>c s p.
             case eod of
               CONFIG_ENABLE \<Rightarrow>
                 rbind (StopClientSvcMgr c) (\<lambda>c. Inr (set_ctrl p c (say ''Stop listening on new client'' s)))
             | CONFIG_DISABLE \<Rightarrow> Inr (set_ctrl p (StartClientSvcMgr c) s)
             | _ \<Rightarrow> Inr s) s
      else if code = TCP_SERVER_STOP
      then on_server ''Error: Tcp Server do not Exist'' (la_server_name a) (\<lambda>c s p.
             case eod of
               CONFIG_ENABLE \<Rightarrow>
                 rbind (Stop c) (\<lambda>_.
                   Inr (s\<lparr>sh_app := (sh_app s)\<lparr>ctrl_heap := (ctrl_heap (sh_app s))(p := None)\<rparr>\<rparr>))
             | CONFIG_DISABLE \<Rightarrow> Inr (say ''Command Negation is not support for this CLI'' s)
             | _ \<Rightarrow> Inr s) s
      else if code = TCP_SERVER_CONNECT_REMOTE
      then on_server ''Error : Tcp Server do not Exist'' (la_server_name a) (\<lambda>c s p.
             case eod of
               CONFIG_ENABLE \<Rightarrow>
                 (case la_remote_ip_addr a of
                    None \<Rightarrow> Inl NullDeref
                  | Some ip \<Rightarrow>
                      rbind (CreateActiveAClient (network_convert_ip_p_to_n ip) (la_remote_port a)
                               (mc_host mc (sh_app s)) (mc_client mc (sh_app s)) c)
                        (\<lambda>c. Inr (set_ctrl p c s)))
             | _ \<Rightarrow> Inr s) s
      else Inr s)"

definition config_tcp_server_handler :: "machine \<Rightarrow> op_mode \<Rightarrow> app shell \<Rightarrow> app shell res" where
  "config_tcp_server_handler mc eod s =
     rbind (EXTRACT_CMD_CODE (tlv_buff s)) (\<lambda>code.
     rbind (TLV_LOOP (Some (tlv_buff s))) (\<lambda>ts.
     rbind (read_leaves ts default_args) (\<lambda>a. config_switch mc code a eod s)))"

definition show_tcp_server_handler :: "app shell \<Rightarrow> app shell res" where
  "show_tcp_server_handler s =
     rbind (EXTRACT_CMD_CODE (tlv_buff s)) (\<lambda>code.
     rbind (TLV_LOOP (Some (tlv_buff s))) (\<lambda>ts.
     rbind (read_leaves ts default_args) (\<lambda>a.
       if code = TCP_SERVER_SHOW_TCP_SERVER
       then on_server ''Error: Tcp Server do not Exist'' (la_server_name a) (\<lambda>c s p.
              rbind (Display c) (\<lambda>(flags, clients).
                Inr (s\<lparr>sh_out := sh_out s @ flags @ concat clients\<rparr>))) s
       else Inr s)))"

section \<open>Notifications\<close>

text \<open>What the callbacks of a connection print; the static block holds the text of an address.\<close>

definition print_client :: "tcp_client \<Rightarrow> string res" where
  "print_client c =
     rbind (network_convert_ip_n_to_p (htonl (cl_ip_addr c)) (replicate 16 nul)) (\<lambda>b.
       Inr (''['' @ cstr b @ '','' @ dec_digits (unat (cl_port_no c)) @ '']''))"

definition print_server :: "server \<Rightarrow> string res" where
  "print_server c =
     rbind (network_convert_ip_n_to_p (ctrl_ip_addr c) (replicate 16 nul)) (\<lambda>b.
       Inr (''['' @ cstr b @ '','' @ dec_digits (unat (htons (ctrl_port_no c))) @ '']''))"

definition appln_client_connected :: "server \<Rightarrow> tcp_client \<Rightarrow> string list res" where
  "appln_client_connected c t =
     rbind (print_server c) (\<lambda>a. rbind (print_client t) (\<lambda>b. Inr [a, ''Appln:Client Connected:'' @ b]))"

definition appln_client_disconnected :: "server \<Rightarrow> tcp_client \<Rightarrow> string list res" where
  "appln_client_disconnected c t =
     rbind (print_server c) (\<lambda>a. rbind (print_client t) (\<lambda>b. Inr [a, ''Appln:CLient Disconnect:'' @ b]))"

section \<open>The tree of commands\<close>

text \<open>The handlers by number, and the addresses of the static parameters.\<close>

definition APP_CONFIG :: nat where "APP_CONFIG = 0"
definition APP_SHOW :: nat where "APP_SHOW = 1"

definition app_env :: "machine \<Rightarrow> (nat \<Rightarrow> byte) \<Rightarrow> int \<Rightarrow> app env" where
  "app_env mc junk uninit =
     \<lparr>ev_callback = (\<lambda>n p eod s.
        if n = APP_CONFIG then config_tcp_server_handler mc eod s
        else if n = APP_SHOW then show_tcp_server_handler s
        else Inl NullDeref),
      ev_user_validation = (\<lambda>n v. True), ev_disp = (\<lambda>n p s. Inl NullDeref),
      ev_junk = junk, ev_uninit = uninit\<rparr>"

definition app_tcp_server :: pptr where "app_tcp_server = 40"
definition app_tcp_server_name :: pptr where "app_tcp_server_name = 41"
definition app_dis_conn_accept :: pptr where "app_dis_conn_accept = 42"
definition app_disable_client_listen :: pptr where "app_disable_client_listen = 43"
definition app_stop :: pptr where "app_stop = 44"
definition app_tcp_server_addr :: pptr where "app_tcp_server_addr = 45"
definition app_tcp_server_port :: pptr where "app_tcp_server_port = 46"
definition app_start :: pptr where "app_start = 47"
definition app_connect :: pptr where "app_connect = 48"
definition app_remote_machine_addr :: pptr where "app_remote_machine_addr = 49"
definition app_remote_machine_port :: pptr where "app_remote_machine_port = 50"
definition app_no_name :: pptr where "app_no_name = 51"
definition app_no_config :: pptr where "app_no_config = 52"
definition app_show_server :: pptr where "app_show_server = 53"
definition app_show_server_name :: pptr where "app_show_server_name = 54"

lemmas app_params = app_tcp_server_def app_tcp_server_name_def app_dis_conn_accept_def
  app_disable_client_listen_def app_stop_def app_tcp_server_addr_def app_tcp_server_port_def app_start_def
  app_connect_def app_remote_machine_addr_def app_remote_machine_port_def app_no_name_def app_no_config_def
  app_show_server_def app_show_server_name_def

definition app_leaf :: "pptr \<Rightarrow> cmd_callback option \<Rightarrow> leaf_type_t \<Rightarrow> string \<Rightarrow> string \<Rightarrow> param_heap \<Rightarrow> param_heap res" where
  "app_leaf p cb ty leaf_name help = init_param p LEAF None cb None ty (Some leaf_name) help"

definition tcp_config_steps :: "(param_heap \<Rightarrow> param_heap res) list" where
  "tcp_config_steps =
    (let cfg = Some (app_callback APP_CONFIG) in
    [init_cmd app_tcp_server ''tcp-server'' None ''config tcp-server'',
     libcli_register_param (Some libcli_get_config_hook) app_tcp_server,
     app_leaf app_tcp_server_name cfg LT_STRING ''tcp-server-name'' ''Tcp Server Name'',
     libcli_register_param (Some app_tcp_server) app_tcp_server_name,
     set_param_cmd_code app_tcp_server_name TCP_SERVER_CREATE,
     init_cmd app_dis_conn_accept ''disable-conn-accept'' cfg ''Connection Accept Settings'',
     libcli_register_param (Some app_tcp_server_name) app_dis_conn_accept,
     set_param_cmd_code app_dis_conn_accept TCP_SERVER_STOP_CONN_ACCEPT,
     init_cmd app_disable_client_listen ''disable-client-listen'' cfg ''Listening  Settings'',
     libcli_register_param (Some app_tcp_server_name) app_disable_client_listen,
     set_param_cmd_code app_disable_client_listen TCP_SERVER_STOP_CLIENT_LISTEN,
     init_cmd app_stop ''stop'' cfg ''Stop TCP Server'',
     libcli_register_param (Some app_tcp_server_name) app_stop,
     set_param_cmd_code app_stop TCP_SERVER_STOP,
     app_leaf app_tcp_server_addr None LT_IPV4 ''tcp-server-addr'' ''Tcp Server Address'',
     libcli_register_param (Some app_tcp_server_name) app_tcp_server_addr,
     app_leaf app_tcp_server_port cfg LT_INT ''tcp-server-port'' ''Tcp Server Port Number'',
     libcli_register_param (Some app_tcp_server_addr) app_tcp_server_port,
     set_param_cmd_code app_tcp_server_port TCP_SERVER_CREATE,
     init_cmd app_start ''start'' cfg ''Start'',
     libcli_register_param (Some app_tcp_server_name) app_start,
     set_param_cmd_code app_start TCP_SERVER_START,
     init_cmd app_connect ''connect'' None ''connect tcp-server'',
     libcli_register_param (Some app_tcp_server_name) app_connect,
     app_leaf app_remote_machine_addr None LT_IPV4 ''remote-addr'' ''Remote IPV4 address'',
     libcli_register_param (Some app_connect) app_remote_machine_addr,
     app_leaf app_remote_machine_port cfg LT_INT ''remote-port'' ''Remote Port Number'',
     libcli_register_param (Some app_remote_machine_addr) app_remote_machine_port,
     set_param_cmd_code app_remote_machine_port TCP_SERVER_CONNECT_REMOTE])"

definition tcp_build_config_cli_tree :: "param_heap \<Rightarrow> param_heap res option" where
  "tcp_build_config_cli_tree h =
     obind (Some (run_steps tcp_config_steps h)) (\<lambda>h.
     obind (support_cmd_negation app_no_name (-1) app_tcp_server_name h) (\<lambda>h.
       support_cmd_negation app_no_config (-1) libcli_get_config_hook h))"

definition tcp_build_show_cli_tree :: "param_heap \<Rightarrow> param_heap res" where
  "tcp_build_show_cli_tree =
     run_steps
      [init_cmd app_show_server ''tcp-server'' None ''show tcp-server'',
       libcli_register_param (Some libcli_get_show_hook) app_show_server,
       app_leaf app_show_server_name (Some (app_callback APP_SHOW)) LT_STRING ''tcp-server-name'' ''Tcp Server Name'',
       libcli_register_param (Some app_show_server) app_show_server_name,
       set_param_cmd_code app_show_server_name TCP_SERVER_SHOW_TCP_SERVER]"

definition tcp_build_cli :: "param_heap \<Rightarrow> param_heap res option" where
  "tcp_build_cli h = obind (tcp_build_config_cli_tree h) (\<lambda>h. Some (tcp_build_show_cli_tree h))"

section \<open>The program\<close>

text \<open>
  \<^verbatim>\<open>main\<close> as it is compiled: one server, started, then its display after a key.
  The branch for the shell is not compiled (\<^verbatim>\<open>#else if\<close>).
\<close>

definition main_server :: "machine \<Rightarrow> app \<Rightarrow> (string list \<times> string list list) res" where
  "main_server mc p =
     rbind (TcpServerController_new (mc_server mc p) (network_convert_ip_p_to_n ''127.0.0.1'') 40000
              ''Default TCP Server'' (mc_socket mc p)) (\<lambda>c.
     rbind (Start (mc_thread mc p) c) (\<lambda>c. Display (SetServerNotifCallbacks AppFn AppFn AppFn c)))"

definition main_shell :: "cli res option" where
  "main_shell =
     obind (Some init_libcli) (\<lambda>c.
     obind (tcp_build_cli (cl_params c)) (\<lambda>h. Some (Inr (c\<lparr>cl_params := h\<rparr>))))"

end
