(* ===== verification/TestAppProps.thy ===== *)
theory TestAppProps
  imports TestApp
begin

text \<open>
  The tree that the application builds is well-formed, its commands are typed in, and what they do
  to the list of servers.
\<close>

section \<open>Which parameters the tree has\<close>

definition within :: "pptr set \<Rightarrow> (param_heap \<Rightarrow> param_heap res) \<Rightarrow> bool" where
  "within S f \<longleftrightarrow> (\<forall>h h'. dom h \<subseteq> S \<longrightarrow> f h = Inr h' \<longrightarrow> dom h' \<subseteq> S)"

named_theorems within_intros \<open>steps that add no other parameters\<close>

lemma within_run_steps: "list_all (within S) fs \<Longrightarrow> within S (run_steps fs)"
proof (induction fs)
  case (Cons f fs)
  then have f: "within S f" and fs: "within S (run_steps fs)" by simp_all
  show ?case unfolding within_def
  proof (intro allI impI)
    fix h h'
    assume h: "dom h \<subseteq> S" "run_steps (f # fs) h = Inr h'"
    then obtain h1 where "f h = Inr h1" "run_steps fs h1 = Inr h'" by auto
    with f fs h(1) show "dom h' \<subseteq> S" unfolding within_def by blast
  qed
qed (simp add: within_def)

lemma dom_within: "dom h \<subseteq> S \<longleftrightarrow> (\<forall>p c. h p = Some c \<longrightarrow> p \<in> S)"
  by blast

lemmas within_simps = within_def dom_within pget_Inr

lemma within_init [within_intros]: "p \<in> S \<Longrightarrow> within S (init_param p ty n cb uv lt lid help)"
  by (auto simp: within_def init_param_def split: param_type.splits if_splits option.splits)

lemma within_init_cmd [within_intros]: "p \<in> S \<Longrightarrow> within S (init_cmd p n cb help)"
  unfolding init_cmd_def by (rule within_init)

lemma within_leaf [within_intros]: "p \<in> S \<Longrightarrow> within S (app_leaf p cb ty lid help)"
  unfolding app_leaf_def by (rule within_init)

lemma within_code [within_intros]: "within S (set_param_cmd_code p n)"
  by (auto simp: within_simps set_param_cmd_code_def split: if_splits)

lemma within_hide [within_intros]: "within S (HIDE_PARAM p)"
  by (auto simp: within_simps HIDE_PARAM_def split: if_splits)

lemma within_do_hook [within_intros]: "within S fill_do_hook"
  by (auto simp: within_simps fill_do_hook_def split: if_splits)

lemma within_register [within_intros]: "within S (libcli_register_param q p)"
  by (auto simp: within_simps libcli_register_param_def Let_def split: if_splits option.splits)

lemma within_negation:
  "support_cmd_negation new choice p h = Some (Inr h') \<Longrightarrow> dom h \<subseteq> S \<Longrightarrow> new \<in> S \<Longrightarrow> dom h' \<subseteq> S"
proof -
  assume n: "support_cmd_negation new choice p h = Some (Inr h')" "dom h \<subseteq> S" "new \<in> S"
  let ?ok = "\<lambda>r :: param_heap res. \<forall>h'. r = Inr h' \<longrightarrow> dom h' \<subseteq> S"
  have ok_rbind: "?ok (rbind m k)" if "\<And>v. m = Inr v \<Longrightarrow> ?ok (k v)" for m :: "'b res" and k using that by auto
  have ok_if: "?ok (if c then x else y)" if "?ok x" "?ok y" for c x y using that by simp
  have ok_prod: "?ok (case x of (a, b) \<Rightarrow> f a b)" if "\<And>a b. ?ok (f a b)" for x :: "pptr option list \<times> nat" and f
    using that by (cases x) simp
  have last: "?ok (Inr (h1(new \<mapsto> x, p \<mapsto> y)))"
    if "init_param new NO_CMD (Some ''no'') (Some negate_callback) None LT_INVALID None ''Command Negation'' h = Inr h1"
      "pget h p = Inr c" for h1 x y c
  proof -
    have "dom h1 \<subseteq> S" using within_init [OF n(3)] that(1) n(2) unfolding within_def by blast
    moreover have "p \<in> S" using that(2) n(2) by (auto simp: pget_Inr)
    ultimately show ?thesis using n(3) by auto
  qed
  let ?body = "rbind (pget h p) (\<lambda>c.
            rbind (find_matching_param h choice (p_options c) ''no'') (\<lambda>neg.
            rbind (case neg of None \<Rightarrow> Inr False | Some q \<Rightarrow> rbind (pget h q) (\<lambda>qc. Inr (IS_PARAM_NO_CMD qc)))
              (\<lambda>dup.
              if dup then Inr h
              else
                rbind (init_param new NO_CMD (Some ''no'') (Some negate_callback) None LT_INVALID None
                         ''Command Negation'' h) (\<lambda>h.
                rbind (pget h new) (\<lambda>nc.
                  case copy_children (p_options c)
                         ((p_options nc)[MODE_PARAM_INDEX := Some libcli_get_suboptions_param,
                                         SUBOPTIONS_INDEX := Some libcli_get_suboptions_param,
                                         CMD_EXPANSION_INDEX := Some libcli_get_cmd_expansion_param])
                         CHILDREN_START_INDEX (Suc CHILDREN_END_INDEX - CHILDREN_START_INDEX) of
                    (os, i) \<Rightarrow>
                      if i > CHILDREN_END_INDEX then Inl AssertFail
                      else Inr (h(new \<mapsto> nc\<lparr>p_options := os, p_parent := Some p\<rparr>,
                                  p \<mapsto> c\<lparr>p_options := (p_options c)[i := Some new]\<rparr>)))))))"
  have "?ok ?body" by (intro ok_rbind ok_if ok_prod last) (use n(2) in auto)
  moreover have "?body = Inr h'"
    using n(1) by (auto simp only: support_cmd_negation_def split: option.splits sum.splits if_splits)
  ultimately show "dom h' \<subseteq> S" by blast
qed

lemma device_name_params: "set_device_name n c = Inr c' \<Longrightarrow> cl_params c' = cl_params c"
  using set_device_name_calm by (auto simp: cli_calm_def)

lemma library_params_within:
  assumes "init_libcli = Inr c0"
  shows "dom (cl_params c0) \<subseteq> {..<55}"
proof -
  obtain h0 h1 where h0: "init_cmd libcli_get_root ''ROOT'' None ''ROOT'' Map.empty = Inr h1"
      "run_steps (init_show_and_debug @ init_config_and_run @ init_do_and_console) h1 = Inr h0" "cl_params c0 = h0"
    using assms by (auto simp: init_libcli_def init_params_def reset_cmd_tree_cursor_def dest!: device_name_params)
  have "within {..<55} (init_cmd libcli_get_root ''ROOT'' None ''ROOT'')"
    by (rule within_init_cmd) (simp add: libcli_get_root_def)
  moreover have "dom (Map.empty :: param_heap) \<subseteq> {..<55}" by simp
  ultimately have "dom h1 \<subseteq> {..<55}" using h0(1) unfolding within_def by blast
  moreover have "within {..<55} (run_steps (init_show_and_debug @ init_config_and_run @ init_do_and_console))"
    by (rule within_run_steps)
      (simp add: init_show_and_debug_def init_config_and_run_def init_do_and_console_def within_intros hook_defs static_param_defs)
  ultimately show ?thesis using h0(2,3) unfolding within_def by blast
qed

lemma shell_params_within:
  assumes "main_shell = Some (Inr c)"
  shows "dom (cl_params c) \<subseteq> {..<55}"
proof -
  obtain c0 h where c0: "init_libcli = Inr c0" "tcp_build_cli (cl_params c0) = Some (Inr h)" "cl_params c = h"
    using assms by (auto simp: main_shell_def)
  obtain h2 h3 h4 where h: "run_steps tcp_config_steps (cl_params c0) = Inr h2"
      "support_cmd_negation app_no_name (-1) app_tcp_server_name h2 = Some (Inr h3)"
      "support_cmd_negation app_no_config (-1) libcli_get_config_hook h3 = Some (Inr h4)"
      "tcp_build_show_cli_tree h4 = Inr h"
    using c0(2) by (auto simp: tcp_build_cli_def tcp_build_config_cli_tree_def)
  have "within {..<55} (run_steps tcp_config_steps)"
    by (rule within_run_steps) (simp add: tcp_config_steps_def Let_def within_intros app_params)
  with library_params_within [OF c0(1)] h(1) have "dom h2 \<subseteq> {..<55}" unfolding within_def by blast
  then have "dom h4 \<subseteq> {..<55}" using within_negation [OF h(3)] within_negation [OF h(2)] by (simp add: app_params)
  moreover have "within {..<55} tcp_build_show_cli_tree"
    unfolding tcp_build_show_cli_tree_def by (rule within_run_steps) (simp add: within_intros app_params)
  ultimately show ?thesis using h(4) c0(3) unfolding within_def by blast
qed

text \<open>Numbers that grow downwards.\<close>

definition app_rank :: "pptr \<Rightarrow> nat" where
  "app_rank p =
     (if p \<in> {0, 1} then 0 else if p \<in> {9, 10, 11, 12} then 100
      else if p \<in> {2, 3, 5, 6, 7, 8, 32, 33, 34} then 1
      else if p = 52 then 2 else if p = 40 then 3 else if p = 41 then 4 else if p = 51 then 5 else 20 + p)"

text \<open>The tree as a table, and everything a proof needs of it, by evaluation.\<close>

definition table :: "param_t option list \<Rightarrow> param_heap" where
  "table tab p = (if p < length tab then tab ! p else None)"

definition table_ok :: "param_t option list \<Rightarrow> bool" where
  "table_ok tab \<longleftrightarrow> list_all (\<lambda>p. case table tab p of None \<Rightarrow> True
       | Some x \<Rightarrow> param_ok app_rank (table tab) p x \<and> value_ok x) [0..<length tab]"

definition is_cmd :: "param_heap \<Rightarrow> pptr \<Rightarrow> string \<Rightarrow> bool" where
  "is_cmd h p n \<longleftrightarrow> map_option p_kind (h p) = Some (CmdP n)"

definition app_facts :: "param_heap \<Rightarrow> bool" where
  "app_facts h \<longleftrightarrow>
     is_cmd h libcli_get_config_hook ''config'' \<and> is_cmd h app_tcp_server ''tcp-server'' \<and>
     is_cmd h 10 ''/'' \<and> is_cmd h 11 ''?'' \<and> is_cmd h 12 ''.'' \<and>
     map_option (\<lambda>c. unambiguous h (p_options c) ''config'' libcli_get_config_hook) (h libcli_get_root) = Some True \<and>
     map_option (\<lambda>c. unambiguous h (p_options c) ''tcp-server'' app_tcp_server) (h libcli_get_config_hook) = Some True \<and>
     map_option (\<lambda>c. live_options (p_options c)) (h app_tcp_server) = Some [10, 11, 12, app_tcp_server_name] \<and>
     map_option p_kind (h app_tcp_server_name) =
       Some (LeafP \<lparr>lf_type = LT_STRING, lf_value = replicate 64 nul, lf_user_validation = None,
                    lf_id = ''tcp-server-name''\<rparr>) \<and>
     map_option p_callback (h app_tcp_server_name) = Some (Some (app_callback APP_CONFIG)) \<and>
     map_option p_CMDCODE (h app_tcp_server_name) = Some TCP_SERVER_CREATE \<and>
     map_option p_parent (h app_tcp_server_name) = Some (Some app_tcp_server) \<and>
     map_option p_parent (h app_tcp_server) = Some (Some libcli_get_config_hook) \<and>
     map_option p_parent (h libcli_get_config_hook) = Some (Some libcli_get_root) \<and>
     is_cmd h libcli_get_repeat_hook ''repeat'' \<and>
     map_option (\<lambda>c. unambiguous h (p_options c) ''repeat'' libcli_get_repeat_hook) (h libcli_get_root) = Some True \<and>
     map_option p_callback (h libcli_get_repeat_hook) = Some (Some repeat_last_command) \<and>
     map_option p_parent (h libcli_get_repeat_hook) = Some (Some libcli_get_root)"

definition app_cli :: cli where
  "app_cli = (case main_shell of Some (Inr c) \<Rightarrow> c | _ \<Rightarrow> projr init_libcli)"

definition app_table_ok :: "param_t option list \<Rightarrow> bool" where
  "app_table_ok tab \<longleftrightarrow> table_ok tab \<and> app_facts (table tab)"

definition app_tables_ok :: "cli \<Rightarrow> bool" where
  "app_tables_ok c \<longleftrightarrow> app_table_ok (map (cl_params c) [0..<55]) \<and>
     cl_cursor c = Some libcli_get_root \<and> cl_tokens c = init_token_array"

lemma app_cli: "main_shell = Some (Inr app_cli) \<and> app_tables_ok app_cli"
proof -
  have "case main_shell of Some (Inr c) \<Rightarrow> app_tables_ok c | _ \<Rightarrow> False" by code_simp
  then obtain c where c: "main_shell = Some (Inr c)" "app_tables_ok c"
    by (auto split: option.splits sum.splits)
  have "app_cli = c" unfolding app_cli_def c(1) option.case sum.case ..
  with c show ?thesis by simp
qed

lemma app_cli_table: "table (map (cl_params app_cli) [0..<55]) = cl_params app_cli"
proof
  fix p
  have "dom (cl_params app_cli) \<subseteq> {..<55}" using shell_params_within app_cli by blast
  then have "\<not> p < 55 \<Longrightarrow> cl_params app_cli p = None" by auto
  then show "table (map (cl_params app_cli) [0..<55]) p = cl_params app_cli p" by (simp add: table_def)
qed

lemma app_tree: "tree_ok app_rank (cl_params app_cli)" "values_ok (cl_params app_cli)" "app_facts (cl_params app_cli)"
    "cl_cursor app_cli = Some libcli_get_root" "cl_tokens app_cli = init_token_array"
proof -
  have l: "\<forall>p \<in> {0..<55}. case table (map (cl_params app_cli) [0..<55]) p of None \<Rightarrow> True
       | Some x \<Rightarrow> param_ok app_rank (table (map (cl_params app_cli) [0..<55])) p x \<and> value_ok x"
    using app_cli unfolding app_tables_ok_def app_table_ok_def table_ok_def list_all_iff by (simp only: length_map length_upt set_upt diff_zero) (elim conjE)
  have d: "p \<in> {0..<55}" if "cl_params app_cli p = Some x" for p x
    using shell_params_within app_cli that by fastforce
  have "param_ok app_rank (cl_params app_cli) p x \<and> value_ok x" if "cl_params app_cli p = Some x" for p x
    using bspec [OF l [unfolded app_cli_table] d [OF that]] that by simp
  then show "tree_ok app_rank (cl_params app_cli)" "values_ok (cl_params app_cli)"
    unfolding tree_ok_def values_ok_def by blast+
  show "app_facts (cl_params app_cli)" "cl_cursor app_cli = Some libcli_get_root" "cl_tokens app_cli = init_token_array"
    using app_cli unfolding app_tables_ok_def app_table_ok_def app_cli_table by blast+
qed

section \<open>Creating a server\<close>

text \<open>
  A state of the shell whose tree is \<open>h\<close>, up to the values of leaves, at the root and
  between two commands.
\<close>

definition ready_at_root :: "param_heap \<Rightarrow> 'a shell \<Rightarrow> bool" where
  "ready_at_root h s \<longleftrightarrow> same_tree h (params s) \<and> values_ok (params s) \<and> tlv_ok (sh_code s) \<and>
     cursor s = Some libcli_get_root \<and> sb_tlvs (tlv_buff s) [] \<and> tokens_ok (cl_tokens (sh_cli s))"

abbreviation app_at_root :: "app shell \<Rightarrow> bool" where
  "app_at_root \<equiv> ready_at_root (cl_params app_cli)"

lemmas app_at_root_def = ready_at_root_def

lemma app_shell_ok: "app_at_root s \<Longrightarrow> shell_ok app_rank s"
  using tree_ok_same app_tree(1) by (auto simp: app_at_root_def shell_ok_def)

text \<open>A parameter whose only option of its own is a leaf takes any word but the special characters.\<close>

lemma leaf_unambiguous:
  assumes f: "live_options os = [10, 11, 12, p]" "is_cmd h 10 ''/''" "is_cmd h 11 ''?''" "is_cmd h 12 ''.''"
      "is_leaf h p" "h p \<noteq> None"
    and w: "\<not> prefix w ''/''" "\<not> prefix w ''?''" "\<not> prefix w ''.''"
  shows "unambiguous h os w p"
proof -
  have n: "name_of h 10 = ''/'' \<and> \<not> is_leaf h 10 \<and> h 10 \<noteq> None" "name_of h 11 = ''?'' \<and> \<not> is_leaf h 11 \<and> h 11 \<noteq> None"
      "name_of h 12 = ''.'' \<and> \<not> is_leaf h 12 \<and> h 12 \<noteq> None"
    using f(2-4) by (auto simp: is_cmd_def name_of_def is_leaf_def)
  have "candidates h w (live_options os) = []"
    unfolding f(1) candidates_def using n f(5) w by simp
  moreover have "set (live_options os) \<subseteq> dom h" unfolding f(1) using n f(6) by auto
  moreover have "\<forall>p \<in> set (live_options os). is_leaf h p \<or> name_of h p \<noteq> w"
    unfolding f(1) using n f(5) w by auto
  ultimately have "match_loop h os w None [] = Inr (Some p, [])"
    using match_loop_result [of os h "[]" w None] f(1,5) n by (simp add: Let_def)
  then show ?thesis by (simp add: unambiguous_def)
qed

lemma name_leaf_unambiguous:
  assumes "app_facts h" "h app_tcp_server = Some c" "\<not> prefix name ''/''" "\<not> prefix name ''?''" "\<not> prefix name ''.''"
  shows "unambiguous h (p_options c) name app_tcp_server_name"
  using assms(1,2) by (intro leaf_unambiguous assms(3-5)) (auto simp: app_facts_def is_leaf_def)

lemma name_path:
  assumes "\<not> prefix name ''/''" "\<not> prefix name ''?''" "\<not> prefix name ''.''" "nul \<notin> set name" "length name < 64"
  shows "word_path ev (cl_params app_cli) libcli_get_root [''config'', ''tcp-server'', name]
    [libcli_get_config_hook, app_tcp_server, app_tcp_server_name]"
proof -
  let ?h = "cl_params app_cli"
  note f = app_tree(3) [unfolded app_facts_def]
  obtain r cfg ts nm where c: "?h libcli_get_root = Some r" "?h libcli_get_config_hook = Some cfg"
      "?h app_tcp_server = Some ts" "?h app_tcp_server_name = Some nm"
    using f by (auto simp: is_cmd_def)
  have "accepts ev cfg ''config''" "accepts ev ts ''tcp-server''" "accepts ev nm name"
    using f c assms(5) by (simp_all add: is_cmd_def accepts_def INVOKE_LEAF_USER_VALIDATION_CALLBACK_def)
  moreover have "unambiguous ?h (p_options r) ''config'' libcli_get_config_hook"
      "unambiguous ?h (p_options cfg) ''tcp-server'' app_tcp_server" using f c by simp_all
  moreover have "unambiguous ?h (p_options ts) name app_tcp_server_name"
    using name_leaf_unambiguous [OF app_tree(3) c(3) assms(1-3)] .
  ultimately show ?thesis using c assms(4) by (simp add: nul_def)
qed

text \<open>The line creates the server: the handler sees the name, and the list gets a new controller.\<close>

lemma read_name:
  assumes "nul \<notin> set name" "length name < 64" "lf_id l = ''tcp-server-name''"
  shows "read_leaves [leaf_tlv (l\<lparr>lf_value := name\<rparr>)] default_args = Inr (default_args\<lparr>la_server_name := Some name\<rparr>)"
proof -
  have c: "cstr name = name" using assms(1) by (auto simp: cstr_def takeWhile_eq_all_conv)
  have v: "cstr (name @ replicate (64 - length name) nul) = name"
    using assms(1,2) cstr_append [of name "replicate (63 - length name) nul"]
    by (cases "64 - length name") (simp_all add: Suc_diff_Suc)
  have i: "cstr ''tcp-server-name'' = ''tcp-server-name''" by code_simp
  have j: "cstr (''tcp-server-name'' @ replicate 17 nul) = ''tcp-server-name''" by code_simp
  have "cstr (tlv_leaf_id (leaf_tlv (l\<lparr>lf_value := name\<rparr>))) = ''tcp-server-name''"
      "cstr (tlv_value (leaf_tlv (l\<lparr>lf_value := name\<rparr>))) = name"
    using i j v c assms(3) by (simp_all add: leaf_tlv_def)
  then show ?thesis by (simp add: strn_prefix_def)
qed

lemma default_ip: "network_convert_ip_p_to_n default_ip_addr = 0x7F000001"
proof -
  have "inet_pton default_ip_addr = Some [127, 0, 0, 1]" by code_simp
  moreover have "memory_bytes (from_memory [127, 0, 0, 1]) = [127, 0, 0, 1]" by (rule memory_bytes_from) simp_all
  ultimately show ?thesis by (simp add: network_convert_ip_p_to_n_def htonl_def del: from_memory.simps) simp
qed

lemma app_handler_runs:
  assumes "handler_sees t [leaf_tlv (l\<lparr>lf_value := name\<rparr>)] TCP_SERVER_CREATE" "lf_id l = ''tcp-server-name''"
    and "nul \<notin> set name" "length name < 64"
    and "TcpServer_lookup (ctrl_heap (sh_app t)) (tcp_server_lst (sh_app t)) name = Inr None"
    and "0 \<le> mc_socket mc (sh_app t)"
  shows "\<exists>c. config_tcp_server_handler mc eod t = Inr (t\<lparr>sh_app := (sh_app t)\<lparr>
      tcp_server_lst := tcp_server_lst (sh_app t) @ [next_ctrl (sh_app t)],
      ctrl_heap := (ctrl_heap (sh_app t))(next_ctrl (sh_app t) \<mapsto> c),
      next_ctrl := Suc (next_ctrl (sh_app t))\<rparr>\<rparr>) \<and>
    ctrl_name c = name \<and> ctrl_ip_addr c = 0x7F000001 \<and> ctrl_port_no c = 40000 \<and>
    state_flags c = TCP_SERVER_INITIALIZED \<and> ctrl_alive c"
proof -
  show ?thesis
    using assms(1,5,6) read_name [OF assms(3,4,2)] default_ip
    by (auto simp: config_tcp_server_handler_def handler_sees_def config_switch_def app_code_defs create_server_def
        app_lookup_def TcpServerController_new_def TcpNewConnectionAcceptor_new_def SetServerNotifCallbacks_def
        SetBit_def flag_set_def default_args_def default_port_no_def TCP_SERVER_INITIALIZED_def Let_def)
qed

lemma is_cmd_same:
  assumes "same_tree h h'" "is_cmd h p n"
  shows "\<exists>c. h' p = Some c \<and> p_kind c = CmdP n"
proof -
  obtain c where "h p = Some c" "p_kind c = CmdP n" using assms(2) by (auto simp: is_cmd_def)
  with same_tree_Some [OF assms(1)] same_kind(1) show ?thesis by blast
qed

lemma re_init_ok: "tokens_ok ts \<Longrightarrow> i + n \<le> 16 \<Longrightarrow> \<exists>ts'. re_init_from i n ts = Inr ts' \<and> tokens_ok ts'"
proof (induction n arbitrary: i ts)
  case (Suc n)
  let ?t = "ts[i := replicate LEAF_VALUE_HOLDER_SIZE nul]"
  have "untokenize i ts = Inr ?t" using Suc.prems by (simp add: untokenize_def store_def tokens_ok_def)
  moreover have "tokens_ok ?t" using Suc.prems
    by (auto simp: tokens_ok_def string_sizes dest!: set_update_subset_insert [THEN subsetD])
  ultimately show ?case using Suc.IH [of ?t "Suc i"] Suc.prems(2) by simp
qed simp

lemma after_root_command:
  assumes "cursor s = Some libcli_get_root" "tokens_ok (cl_tokens (sh_cli s))" "same_tree h (params s)"
    and "shell_ok rk s" "sb_tlvs (tlv_buff s) ts"
  shows "\<exists>s'. after_command s = Inr s' \<and> ready_at_root h s' \<and> sh_app s' = sh_app s \<and>
    sh_input s' = sh_input s \<and> sh_stdin s' = sh_stdin s \<and> sh_out s' = sh_out s \<and>
    sh_free_fds s' = sh_free_fds s \<and> sh_files s' = sh_files s \<and> sh_last s' = sh_last s \<and>
    sh_recording s' = sh_recording s"
proof -
  obtain ts' where "re_init_tokens MAX_CMD_TREE_DEPTH (cl_tokens (sh_cli s)) = Inr ts'" "tokens_ok ts'"
    using re_init_ok [OF assms(2), of 0 16] by (auto simp: re_init_tokens_def MAX_CMD_TREE_DEPTH_def)
  moreover have "sb_tlvs (reset_serialize_buffer (tlv_buff s)) []"
    using assms(5) by (auto simp: reset_serialize_buffer_def sb_tlvs_def sb_ok_def sb_bytes_def)
  ultimately show ?thesis using assms(1,3,4)
    by (simp add: after_command_def is_user_in_cmd_mode_def get_cmd_tree_cursor_def shell_ops ready_at_root_def shell_ok_def)
qed

lemma after_app_command:
  assumes "cursor s = Some libcli_get_root" "tokens_ok (cl_tokens (sh_cli s))" "same_tree (cl_params app_cli) (params s)"
    and "shell_ok app_rank s" "sb_tlvs (tlv_buff s) ts"
  shows "\<exists>s'. after_command s = Inr s' \<and> app_at_root s' \<and> sh_app s' = sh_app s \<and>
    sh_input s' = sh_input s \<and> sh_stdin s' = sh_stdin s \<and> sh_free_fds s' = sh_free_fds s"
  using after_root_command [OF assms] by blast

text \<open>The words of the line lead to the leaf of the name, whose handler is the configuration's.\<close>

lemma server_line:
  assumes "app_at_root s" "nul \<notin> set name" "length name < 64"
    and "\<not> prefix name ''/''" "\<not> prefix name ''?''" "\<not> prefix name ''.''"
  shows "\<exists>c l. params s app_tcp_server_name = Some c \<and> p_callback c = Some (app_callback APP_CONFIG) \<and>
    p_CMDCODE c = TCP_SERVER_CREATE \<and> lf_id l = ''tcp-server-name'' \<and>
    word_path (app_env mc junk u) (params s) libcli_get_root [''config'', ''tcp-server'', name]
      [libcli_get_config_hook, app_tcp_server, app_tcp_server_name] \<and>
    branch (params s) app_tcp_server_name [app_tcp_server_name, app_tcp_server, libcli_get_config_hook] \<and>
    word_tlvs (params s) [''config'', ''tcp-server'', name]
      [libcli_get_config_hook, app_tcp_server, app_tcp_server_name] = [leaf_tlv (l\<lparr>lf_value := name\<rparr>)] \<and>
    branch_mode libcli_get_config_hook (word_mode (params s)
      [libcli_get_config_hook, app_tcp_server, app_tcp_server_name] MODE_UNKNOWN) = CONFIG_ENABLE"
proof -
  have root: "same_tree (cl_params app_cli) (params s)" using assms(1) by (simp add: app_at_root_def)
  note f = app_tree(3) [unfolded app_facts_def]
  obtain nm where nm: "cl_params app_cli app_tcp_server_name = Some nm" using f by auto
  then obtain c where c: "params s app_tcp_server_name = Some c" "cleared c = cleared nm"
    using same_tree_Some [OF root] by blast
  obtain l where l: "p_kind c = LeafP l" "lf_id l = ''tcp-server-name''"
    using same_leaf [OF c(2)] f nm by force
  have cb: "p_callback c = Some (app_callback APP_CONFIG)" "p_CMDCODE c = TCP_SERVER_CREATE"
    using cleared_eqD(3,4) [OF c(2)] f nm by auto
  obtain cfg ts where h: "params s libcli_get_config_hook = Some cfg" "p_kind cfg = CmdP ''config''"
      "params s app_tcp_server = Some ts" "p_kind ts = CmdP ''tcp-server''"
    using f is_cmd_same [OF root] by blast
  have "branch (params s) app_tcp_server_name [app_tcp_server_name, app_tcp_server, libcli_get_config_hook]"
    using f by (intro branch_same [OF root]) (auto simp: app_params hook_defs)
  moreover have "word_path (app_env mc junk u) (params s) libcli_get_root [''config'', ''tcp-server'', name]
      [libcli_get_config_hook, app_tcp_server, app_tcp_server_name]"
    using word_path_same [OF root name_path [OF assms(4-6,2,3)]] .
  ultimately show ?thesis
    using c(1) l cb h by (intro exI [of _ c] exI [of _ l]) (simp add: branch_mode_def)
qed

text \<open>What a line needs to be a command of this kind, whatever its words.\<close>

lemma server_line_end:
  assumes "params s app_tcp_server_name = Some c" "p_CMDCODE c = TCP_SERVER_CREATE" "length name < 64"
  shows "params s (last [libcli_get_config_hook, app_tcp_server, app_tcp_server_name]) = Some c"
    "i32_ok (p_CMDCODE c)" "\<not> special (last [libcli_get_config_hook, app_tcp_server, app_tcp_server_name])"
    "last [libcli_get_config_hook, app_tcp_server, app_tcp_server_name] \<noteq> libcli_get_config_hook"
    "last [app_tcp_server_name, app_tcp_server, libcli_get_config_hook] \<noteq> libcli_get_repeat_hook"
    "length ([] :: tlv_struct list) \<le> 1001" "[''config'', ''tcp-server'', name] \<noteq> []"
    "length [''config'', ''tcp-server'', name] \<le> 16" "\<forall>w \<in> set [''config'', ''tcp-server'', name]. length w < 64"
    "\<not> parser_word (libcli_get_root = libcli_get_root) [''config'', ''tcp-server'', name]"
  using assms by (simp_all add: i32_ok_def app_code_defs special_def hook_defs app_params parser_word_def)

lemma create_server_body:
  assumes "app_at_root s" "holds input l" "length l < 2048"
    and "strtok_all CHR '' '' (trim l) = [''config'', ''tcp-server'', name]" "length name < 64"
    and "\<not> prefix name ''/''" "\<not> prefix name ''?''" "\<not> prefix name ''.''"
    and "TcpServer_lookup (ctrl_heap (sh_app s)) (tcp_server_lst (sh_app s)) name = Inr None"
    and "0 \<le> mc_socket mc (sh_app s)"
  shows "\<exists>s' c. parse_input_body (app_env mc junk u) parse (invoke (Suc n) (app_env mc junk u)) input s = Some (Inr (COMPLETE, False, s')) \<and>
    app_at_root s' \<and> tcp_server_lst (sh_app s') = tcp_server_lst (sh_app s) @ [next_ctrl (sh_app s)] \<and>
    ctrl_heap (sh_app s') = (ctrl_heap (sh_app s))(next_ctrl (sh_app s) \<mapsto> c) \<and>
    ctrl_name c = name \<and> ctrl_ip_addr c = 0x7F000001 \<and> ctrl_port_no c = 40000 \<and>
    state_flags c = TCP_SERVER_INITIALIZED \<and> ctrl_alive c \<and> sh_input s' = sh_input s \<and> sh_stdin s' = sh_stdin s \<and>
    sh_free_fds s' = sh_free_fds s"
proof -
  have root: "same_tree (cl_params app_cli) (params s)" "cursor s = Some libcli_get_root" "sb_tlvs (tlv_buff s) []"
      "tokens_ok (cl_tokens (sh_cli s))" using assms(1) by (simp_all add: app_at_root_def)
  have nn: "nul \<notin> set name"
    using assms(2,4) trim_set [of l] strtok_words [of name "CHR '' ''" "trim l"] by (auto simp: holds_iff)
  obtain nm l' where w: "params s app_tcp_server_name = Some nm" "p_callback nm = Some (app_callback APP_CONFIG)"
      "p_CMDCODE nm = TCP_SERVER_CREATE" "lf_id l' = ''tcp-server-name''"
      "word_path (app_env mc junk u) (params s) libcli_get_root [''config'', ''tcp-server'', name]
        [libcli_get_config_hook, app_tcp_server, app_tcp_server_name]"
      "branch (params s) app_tcp_server_name [app_tcp_server_name, app_tcp_server, libcli_get_config_hook]"
      "word_tlvs (params s) [''config'', ''tcp-server'', name]
        [libcli_get_config_hook, app_tcp_server, app_tcp_server_name] = [leaf_tlv (l'\<lparr>lf_value := name\<rparr>)]"
      "branch_mode libcli_get_config_hook (word_mode (params s)
        [libcli_get_config_hook, app_tcp_server, app_tcp_server_name] MODE_UNKNOWN) = CONFIG_ENABLE"
    using server_line [OF assms(1) nn assms(5-8)] by blast
  note e = server_line_end [OF w(1,3) assms(5)]
  have L: "last [libcli_get_config_hook, app_tcp_server, app_tcp_server_name] = app_tcp_server_name"
      "last [app_tcp_server_name, app_tcp_server, libcli_get_config_hook] = libcli_get_config_hook" by simp_all
  have br: "branch (params s) (last [libcli_get_config_hook, app_tcp_server, app_tcp_server_name])
      [app_tcp_server_name, app_tcp_server, libcli_get_config_hook]" unfolding L by (rule w(6))
  obtain t where t: "parse_input_body (app_env mc junk u) parse (invoke (Suc n) (app_env mc junk u)) input s =
      obind (invoke (Suc n) (app_env mc junk u) app_tcp_server_name (app_callback APP_CONFIG) CONFIG_ENABLE t) (\<lambda>s.
        obind (Some (after_command s)) (\<lambda>s. Some (Inr (COMPLETE, False, s))))"
      "handler_sees t [leaf_tlv (l'\<lparr>lf_value := name\<rparr>)] TCP_SERVER_CREATE" "cursor t = cursor s" "sh_app t = sh_app s"
      "same_tree (params s) (params t)" "tokens_ok (cl_tokens (sh_cli t))" "shell_ok app_rank t"
      "sb_tlvs (tlv_buff t) ([leaf_tlv (l'\<lparr>lf_value := name\<rparr>)] @ [sh_code t])"
      "sh_input t = sh_input s" "sh_stdin t = sh_stdin s" "sh_free_fds t = sh_free_fds s"
    using typed_line [OF app_shell_ok [OF assms(1)] root(2,3) e(6) assms(2,3) root(4) assms(4) e(7-10) w(5)
        e(1) w(2) e(2-4) br e(5), of parse "invoke (Suc n) (app_env mc junk u)",
        unfolded L w(3,7,8) append_Nil] by blast
  obtain c where c: "config_tcp_server_handler mc CONFIG_ENABLE t = Inr (t\<lparr>sh_app := (sh_app s)\<lparr>
      tcp_server_lst := tcp_server_lst (sh_app s) @ [next_ctrl (sh_app s)],
      ctrl_heap := (ctrl_heap (sh_app s))(next_ctrl (sh_app s) \<mapsto> c),
      next_ctrl := Suc (next_ctrl (sh_app s))\<rparr>\<rparr>)" "ctrl_name c = name" "ctrl_ip_addr c = 0x7F000001"
      "ctrl_port_no c = 40000" "state_flags c = TCP_SERVER_INITIALIZED" "ctrl_alive c"
    using app_handler_runs [OF t(2) w(4) nn assms(5), of mc CONFIG_ENABLE] t(4) assms(9,10) by auto
  let ?t = "t\<lparr>sh_app := (sh_app s)\<lparr>
      tcp_server_lst := tcp_server_lst (sh_app s) @ [next_ctrl (sh_app s)],
      ctrl_heap := (ctrl_heap (sh_app s))(next_ctrl (sh_app s) \<mapsto> c),
      next_ctrl := Suc (next_ctrl (sh_app s))\<rparr>\<rparr>"
  have "shell_ok app_rank ?t" using t(7) by (simp add: shell_ok_def)
  then obtain s' where s': "after_command ?t = Inr s'" "app_at_root s'" "sh_app s' = sh_app ?t" "sh_input s' = sh_input s" "sh_stdin s' = sh_stdin s"
      "sh_free_fds s' = sh_free_fds s"
    using after_app_command [of ?t] t(3,6,8,9,10,11) root(2) same_tree_trans [OF root(1) t(5)] by auto
  have "invoke (Suc n) (app_env mc junk u) app_tcp_server_name (app_callback APP_CONFIG) CONFIG_ENABLE t = Some (Inr ?t)"
    using c(1) by (simp add: invoke.simps run_callback_def app_env_def)
  then have "parse_input_body (app_env mc junk u) parse (invoke (Suc n) (app_env mc junk u)) input s = Some (Inr (COMPLETE, False, s'))"
    unfolding t(1) using s'(1) by simp
  with s'(2-6) c(2-6) show ?thesis by (intro exI [of _ s'] exI [of _ c]) simp
qed

text \<open>The same line at the keyboard, in a turn of the shell.\<close>

lemma create_server_turn:
  assumes "app_at_root s" "sh_stdin s = l @ newline # rest" "sh_input s = replicate CONS_INPUT_BUFFER_SIZE nul"
    and "nul \<notin> set l" "newline \<notin> set l" "l \<noteq> []" "length l < 2046"
    and "strtok_all CHR '' '' (trim l) = [''config'', ''tcp-server'', name]" "length name < 64"
    and "\<not> prefix name ''/''" "\<not> prefix name ''?''" "\<not> prefix name ''.''"
    and "TcpServer_lookup (ctrl_heap (sh_app s)) (tcp_server_lst (sh_app s)) name = Inr None"
    and "0 \<le> mc_socket mc (sh_app s)" "0 < sh_free_fds s"
  shows "\<exists>s' c. shell_turn (n + 2) (app_env mc junk u) s = Some (Inr s') \<and>
    app_at_root s' \<and> tcp_server_lst (sh_app s') = tcp_server_lst (sh_app s) @ [next_ctrl (sh_app s)] \<and>
    ctrl_heap (sh_app s') = (ctrl_heap (sh_app s))(next_ctrl (sh_app s) \<mapsto> c) \<and>
    ctrl_name c = name \<and> ctrl_ip_addr c = 0x7F000001 \<and> ctrl_port_no c = 40000 \<and>
    state_flags c = TCP_SERVER_INITIALIZED \<and> ctrl_alive c \<and>
    sh_stdin s' = rest \<and> sh_input s' = sh_input s \<and> holds (sh_last s') l"
proof -
  let ?ev = "app_env mc junk u"
  obtain b where b: "holds b l" and turn: "shell_turn (n + 2) ?ev s =
    obind (parse_input_cmd (n + 2) ?ev b (s\<lparr>sh_stdin := rest, sh_input := b\<rparr>)) (\<lambda>(status, rep, s).
      let empty = replicate CONS_INPUT_BUFFER_SIZE nul in
      if rep then Some (Inr (s\<lparr>sh_input := empty\<rparr>))
      else
        obind (Some (if status = COMPLETE \<and> sh_recording s then record_command (cstr (sh_input s)) s else Inr s)) (\<lambda>s.
        obind (Some (c_strlen (sh_input s))) (\<lambda>len.
        obind (Some (memcpy empty 0 (sh_input s) 0 len)) (\<lambda>last.
          Some (Inr (s\<lparr>sh_recording := True, sh_last := last, sh_input := empty\<rparr>))))))"
    using line_read [OF assms(2-7)] by blast
  let ?s = "s\<lparr>sh_stdin := rest, sh_input := b\<rparr>"
  have root: "app_at_root ?s" using assms(1) by (simp add: app_at_root_def get_cmd_tree_cursor_def)
  obtain s1 c where s1: "parse_input_cmd (n + 2) ?ev b ?s = Some (Inr (COMPLETE, False, s1))"
    "app_at_root s1" "tcp_server_lst (sh_app s1) = tcp_server_lst (sh_app s) @ [next_ctrl (sh_app s)]"
    "ctrl_heap (sh_app s1) = (ctrl_heap (sh_app s))(next_ctrl (sh_app s) \<mapsto> c)"
    "ctrl_name c = name" "ctrl_ip_addr c = 0x7F000001" "ctrl_port_no c = 40000"
    "state_flags c = TCP_SERVER_INITIALIZED" "ctrl_alive c" "sh_input s1 = b" "sh_stdin s1 = rest"
    "sh_free_fds s1 = sh_free_fds s"
    using create_server_body [OF root b _ assms(8-12), where mc = mc and parse = "parse_input_cmd (Suc n) ?ev" and n = n
        and junk = junk and u = u] assms(7,13,14) by (auto simp: parse_input_cmd.simps)
  obtain s2 where rec: "(if sh_recording s1 then record_command (cstr (sh_input s1)) s1 else Inr s1) = Inr s2"
    and s2: "sh_input s2 = b" "sh_stdin s2 = rest" "sh_app s2 = sh_app s1" "sh_cli s2 = sh_cli s1" "sh_code s2 = sh_code s1"
    using s1(10-12) assms(15)
    by (cases "sh_recording s1"; cases "sh_cmd_counter s1 = MAX_SAVED_CMDS") (auto simp: record_command_def)
  obtain r where r: "b = l @ nul # r" using b by (auto simp: holds_iff)
  have len: "c_strlen b = Inr (length l)" using b by (simp add: c_strlen_def holds_def)
  let ?last = "l @ replicate (2048 - length l) nul"
  have mem: "memcpy (replicate CONS_INPUT_BUFFER_SIZE nul) 0 b 0 (length l) = Inr ?last"
    using assms(7) by (simp add: memcpy_def blit_def CONS_INPUT_BUFFER_SIZE_def r)
  have "shell_turn (n + 2) ?ev s =
      Some (Inr (s2\<lparr>sh_recording := True, sh_last := ?last, sh_input := replicate CONS_INPUT_BUFFER_SIZE nul\<rparr>))"
    unfolding turn s1(1) by (simp add: rec s2(1) len mem Let_def)
  moreover have "holds ?last l" using assms(4,7) by (simp add: holds_iff Suc_le_eq Suc_diff_Suc [symmetric])
  moreover have "app_at_root (s2\<lparr>sh_recording := True, sh_last := ?last, sh_input := replicate CONS_INPUT_BUFFER_SIZE nul\<rparr>)"
    using s1(2) s2(4,5) by (simp add: app_at_root_def get_cmd_tree_cursor_def)
  ultimately show ?thesis using s1(3-9) s2(2,3) assms(3)
    by (intro exI [of _ "s2\<lparr>sh_recording := True, sh_last := ?last, sh_input := replicate CONS_INPUT_BUFFER_SIZE nul\<rparr>"]
        exI [of _ c]) simp
qed

section \<open>Stopping a server\<close>

lemma lookup_found: "TcpServer_lookup h as name = Inr (Some p) \<Longrightarrow> p \<in> set as \<and> (\<exists>c. h p = Some c \<and> ctrl_name c = name)"
  by (induction as) (auto split: option.splits if_splits)

lemma lookup_freed:
  "p \<in> set as \<Longrightarrow> h p = None \<Longrightarrow> \<forall>b \<in> set (takeWhile (\<lambda>b. b \<noteq> p) as). \<forall>c. h b = Some c \<longrightarrow> ctrl_name c \<noteq> m \<Longrightarrow>
   TcpServer_lookup h as m = Inl UseAfterFree"
proof (induction as)
  case (Cons a as)
  then show ?case by (cases "a = p") (simp_all split: option.splits)
qed simp

theorem stop_keeps_pointer:
  assumes "handler_sees t ts TCP_SERVER_STOP" "read_leaves ts default_args = Inr a" "la_server_name a = Some name"
    and "TcpServer_lookup (ctrl_heap (sh_app t)) (tcp_server_lst (sh_app t)) name = Inr (Some p)"
    and "ctrl_heap (sh_app t) p = Some c" "Stop c = Inr c'"
    and "\<forall>b \<in> set (takeWhile (\<lambda>b. b \<noteq> p) (tcp_server_lst (sh_app t))).
      \<forall>d. ctrl_heap (sh_app t) b = Some d \<longrightarrow> ctrl_name d \<noteq> m"
  shows "\<exists>t'. config_tcp_server_handler mc CONFIG_ENABLE t = Inr t' \<and> p \<in> set (tcp_server_lst (sh_app t')) \<and>
    app_lookup (Some m) t' = Inl UseAfterFree"
proof -
  have p: "p \<in> set (tcp_server_lst (sh_app t))" using lookup_found [OF assms(4)] by blast
  have "TcpServer_lookup ((ctrl_heap (sh_app t))(p := None)) (tcp_server_lst (sh_app t)) m = Inl UseAfterFree"
    using assms(7) by (intro lookup_freed [OF p]) auto
  with p assms(1-6) show ?thesis
    by (simp add: config_tcp_server_handler_def handler_sees_def config_switch_def app_code_defs on_server_def app_lookup_def)
qed

section \<open>A file of commands that repeats its own loading\<close>

text \<open>
  The last command of the session loads a file whose only line is \<^verbatim>\<open>repeat\<close>: every
  repetition loads the file again from within the loading of the file, which is still open. The
  recursion ends when the process has no descriptor left for another one.
\<close>

definition repeat_file :: string where "repeat_file = ''repeat'' @ [newline]"

definition repeats_itself :: "string \<Rightarrow> string \<Rightarrow> app shell \<Rightarrow> bool" where
  "repeats_itself l file_name s \<longleftrightarrow>
     same_tree (cl_params app_cli) (params s) \<and> values_ok (params s) \<and> cursor s = Some libcli_get_root \<and>
     sb_ok (tlv_buff s) \<and> 0 < sb_size (tlv_buff s) \<and> tokens_ok (cl_tokens (sh_cli s)) \<and>
     holds (sh_last s) l \<and> sh_files s file_name = Some repeat_file"

text \<open>What is printed and read between two states, and what is left as it was.\<close>

definition advances :: "string list \<Rightarrow> nat \<Rightarrow> app shell \<Rightarrow> app shell \<Rightarrow> bool" where
  "advances ls k s s' \<longleftrightarrow> sh_out s' = sh_out s @ ls \<and> sh_stdin s' = drop k (sh_stdin s) \<and> sh_app s' = sh_app s \<and>
     sh_free_fds s' = sh_free_fds s"

lemma advances_trans: "advances ls k s t \<Longrightarrow> advances ls' k' t u \<Longrightarrow> advances (ls @ ls') (k + k') s u"
  by (simp add: advances_def add.commute)

lemma repeat_path: "word_path ev (cl_params app_cli) libcli_get_root [''repeat''] [libcli_get_repeat_hook]"
proof -
  note f = app_tree(3) [unfolded app_facts_def]
  obtain r c where "cl_params app_cli libcli_get_root = Some r" "cl_params app_cli libcli_get_repeat_hook = Some c"
    using f by (auto simp: is_cmd_def)
  with f show ?thesis by (auto simp: is_cmd_def accepts_def nul_def)
qed

lemma repeat_line: "file_lines 255 repeat_file = [repeat_file]"
  by code_simp

lemma repeat_words: "strtok_all CHR '' '' (trim repeat_file) = [''repeat'']"
  by code_simp

lemma obind_return: "obind m (\<lambda>s. Some (Inr s)) = m"
  by (cases m; cases "the m") auto

lemma reset_buffer_ok [simp]:
  "sb_ok b \<Longrightarrow> sb_ok (reset_serialize_buffer b)" "sb_size (reset_serialize_buffer b) = sb_size b"
  by (auto simp: reset_serialize_buffer_def sb_ok_def)

text \<open>Between two commands, at the root.\<close>

lemma repeats_after_command:
  assumes "repeats_itself l f s"
  shows "\<exists>s'. after_command s = Inr s' \<and> repeats_itself l f s' \<and> advances [] 0 s s' \<and> sh_recording s' = sh_recording s"
proof -
  note st = assms [unfolded repeats_itself_def]
  obtain ts' where "re_init_tokens MAX_CMD_TREE_DEPTH (cl_tokens (sh_cli s)) = Inr ts'" "tokens_ok ts'"
    using re_init_ok [of "cl_tokens (sh_cli s)" 0 16] st by (auto simp: re_init_tokens_def MAX_CMD_TREE_DEPTH_def)
  with st show ?thesis
    by (simp add: after_command_def is_user_in_cmd_mode_def get_cmd_tree_cursor_def shell_ops repeats_itself_def
        advances_def)
qed

text \<open>The line that loads the file, up to the loading.\<close>

lemma load_line:
  assumes "repeats_itself l file_name s" "holds input l" "length l < 2048"
    and "strtok_all CHR '' '' (trim l) = [''config'', ''load'', file_name]" "length file_name < 64"
  shows "\<exists>s0. parse_input_cmd (Suc m) ev input s =
      obind (parse_file ev (invoke m ev) file_name s0) (\<lambda>s.
        obind (Some (after_command s)) (\<lambda>s. Some (Inr (COMPLETE, False, s)))) \<and>
    repeats_itself l file_name s0 \<and> advances [] 0 s s0 \<and> sh_recording s0 = sh_recording s"
proof -
  note st = assms(1) [unfolded repeats_itself_def]
  obtain ts where tk: "tokenizer input CHR '' '' (cl_tokens (sh_cli s)) = Inr (ts, True, 3)" "tokens_ok ts"
      "\<forall>k < 3. holds (ts ! k) ([''config'', ''load'', file_name] ! k)"
    using tokenizer_words [OF assms(2,3), of "cl_tokens (sh_cli s)" "CHR '' ''", unfolded assms(4)] st assms(5)
    by auto
  then have ts: "holds (ts ! 0) ''config''" "holds (ts ! 1) ''load''" "holds (ts ! 2) file_name"
    using tk(3) [THEN spec, of 0] tk(3) [THEN spec, of 1] tk(3) [THEN spec, of 2] by simp_all
  define s0 where "s0 = s\<lparr>sh_cli := (sh_cli s)\<lparr>cl_tokens := ts\<rparr>\<rparr>"
  have tok: "token_str (sh_cli s0) True 0 = Inr ''config''" "token_str (sh_cli s0) True 1 = Inr ''load''"
      "token_str (sh_cli s0) True 2 = Inr file_name"
    using ts tk(2) strlen_holds by (auto simp: s0_def token_str_def get_token_def tokens_ok_def holds_def)
  have "dispatch_line ev (parse_input_cmd m ev) (invoke m ev) 3 s0 =
      obind (parse_file ev (invoke m ev) file_name s0) (\<lambda>s. Some (Inr (COMPLETE, False, s)))"
    unfolding dispatch_line_def Let_def tok obind.simps by (simp add: strn_prefix_def tok)
  then have "parse_input_cmd (Suc m) ev input s = obind (parse_file ev (invoke m ev) file_name s0) (\<lambda>s.
      obind (Some (after_command s)) (\<lambda>s. Some (Inr (COMPLETE, False, s))))"
    using tk(1) by (simp add: parse_input_cmd.simps parse_input_body_def s0_def [symmetric] obind_assoc)
  moreover have "repeats_itself l file_name s0" using st tk(2)
    by (simp add: s0_def repeats_itself_def get_cmd_tree_cursor_def)
  moreover have "advances [] 0 s s0" "sh_recording s0 = sh_recording s" by (simp_all add: s0_def advances_def)
  ultimately show ?thesis by blast
qed

text \<open>The line of the file, up to the handler of \<^verbatim>\<open>repeat\<close>.\<close>

lemma repeat_token:
  assumes "repeats_itself l f s"
  shows "\<exists>ts. tokenizer (repeat_file @ [nul]) CHR '' '' (cl_tokens (sh_cli s)) = Inr (ts, True, 1) \<and>
    tokens_ok ts \<and> holds (ts ! 0) ''repeat''"
proof -
  have "holds (repeat_file @ [nul]) repeat_file" "length repeat_file < 2048" by code_simp+
  moreover have "tokens_ok (cl_tokens (sh_cli s))" using assms by (simp add: repeats_itself_def)
  ultimately show ?thesis
    using tokenizer_words [of "repeat_file @ [nul]" repeat_file "cl_tokens (sh_cli s)" "CHR '' ''"]
    unfolding repeat_words by auto
qed

lemma repeat_hook_same:
  assumes "same_tree (cl_params app_cli) h"
  shows "\<exists>c. h libcli_get_repeat_hook = Some c \<and> p_callback c = Some repeat_last_command \<and>
    p_parent c = Some libcli_get_root"
proof -
  obtain c0 where c0: "cl_params app_cli libcli_get_repeat_hook = Some c0" "p_callback c0 = Some repeat_last_command"
      "p_parent c0 = Some libcli_get_root" using app_tree(3) [unfolded app_facts_def] by auto
  show ?thesis using same_tree_Some [OF assms c0(1)] cleared_eqD(3,5) c0(2,3) by metis
qed

lemma repeat_line_runs:
  assumes "repeats_itself l f s"
  shows "\<exists>s3 eod. parse_lines ev I [repeat_file] s =
      obind (I libcli_get_repeat_hook repeat_last_command eod s3) (\<lambda>s. Some (after_command s)) \<and>
    repeats_itself l f s3 \<and> advances [''Executing : '' @ repeat_file, ''Parse Success.''] 0 s s3 \<and>
    sh_recording s3 = sh_recording s"
proof -
  note st = assms [unfolded repeats_itself_def]
  obtain ts where ts: "tokenizer (repeat_file @ [nul]) CHR '' '' (cl_tokens (sh_cli s)) = Inr (ts, True, 1)"
      "tokens_ok ts" "holds (ts ! 0) ''repeat''"
    using repeat_token [OF assms] by blast
  define s2 where "s2 = (say (''Executing : '' @ repeat_file) s)\<lparr>sh_cli := (sh_cli s)\<lparr>cl_tokens := ts,
      cl_tlv_buff := reset_serialize_buffer (tlv_buff s)\<rparr>\<rparr>"
  have s2: "same_tree (cl_params app_cli) (params s2)" "values_ok (params s2)" "cursor s2 = Some libcli_get_root"
      "sb_tlvs (tlv_buff s2) []" "\<forall>j < length [''repeat'']. token_str (sh_cli s2) True (0 + 0 + j) = Inr ([''repeat''] ! j)"
    using st ts(2,3) strlen_holds [OF ts(3)]
    by (auto simp: s2_def say_def get_cmd_tree_cursor_def reset_serialize_buffer_def sb_tlvs_def
        sb_ok_def sb_bytes_def token_str_def get_token_def tokens_ok_def holds_def)
  obtain w h' b where walk: "token_loop ev 0 0 None libcli_get_root MODE_UNKNOWN s2 1 =
      Some (Inr (w, s2\<lparr>sh_cli := (sh_cli s2)\<lparr>cl_params := h', cl_tlv_buff := b\<rparr>\<rparr>))"
      "wk_status w = COMPLETE" "wk_param w = Some libcli_get_repeat_hook"
      "same_tree (cl_params app_cli) h'" "values_ok h'" "sb_tlvs b []"
    using token_loop_path [OF repeat_path s2(1) app_tree(1) s2(2,5,4), of ev None MODE_UNKNOWN] app_tree(3)
    by (auto simp: app_facts_def is_cmd_def)
  define s3 where "s3 = say ''Parse Success.'' (s2\<lparr>sh_cli := (sh_cli s2)\<lparr>cl_params := h', cl_tlv_buff := b\<rparr>\<rparr>)"
  obtain c where c: "h' libcli_get_repeat_hook = Some c" "p_callback c = Some repeat_last_command"
      "p_parent c = Some libcli_get_root" using repeat_hook_same [OF walk(4)] by blast
  have hook: "get_current_branch_hook (params s3) (Some libcli_get_repeat_hook) = Some (Inr libcli_get_repeat_hook)"
    using current_branch_hook_top [of "params s3" libcli_get_repeat_hook "[libcli_get_repeat_hook]"] c(1,3)
    by (simp add: s3_def hook_defs)
  let ?I = "I libcli_get_repeat_hook repeat_last_command (branch_mode libcli_get_repeat_hook (wk_mode w)) s3"
  have "plain_command ev I libcli_get_repeat_hook (wk_mode w) s3 = obind ?I (\<lambda>s. Some (Inr (COMPLETE, s)))"
    using hook c(1,2) by (simp add: plain_command_def invoke_handler_def pget_def s3_def [symmetric]) (simp add: s3_def)
  then have "build_tlv_buffer ev I 0 1 s2 = obind ?I (\<lambda>s. Some (Inr (COMPLETE, s)))"
    using s2(3) walk(1-3) c(1,2)
    by (simp add: build_tlv_buffer_def complete_command_def pget_def hook_defs s3_def [symmetric]
        del: token_loop.simps One_nat_def)
  note build = this
  have reset: "on_buff (\<lambda>b. Inr (reset_serialize_buffer b))
      ((say (''Executing : '' @ repeat_file) s)\<lparr>sh_cli := (sh_cli s)\<lparr>cl_tokens := ts\<rparr>\<rparr>) = Inr s2"
    by (simp add: on_buff_def on_cli_def s2_def say_def)
  have "parse_lines ev I [] = (\<lambda>s. Some (Inr s))" by (rule ext) simp
  then have "parse_lines ev I [repeat_file] s = obind ?I (\<lambda>s. Some (after_command s))"
    unfolding parse_lines.simps(2) ts(1) obind.simps prod.case reset build by (simp add: obind_assoc obind_return)
  moreover have "repeats_itself l f s3"
    using st walk(4-6) ts(2) by (simp add: repeats_itself_def s3_def s2_def say_def get_cmd_tree_cursor_def sb_tlvs_def)
  moreover have "advances [''Executing : '' @ repeat_file, ''Parse Success.''] 0 s s3" "sh_recording s3 = sh_recording s"
    by (simp_all add: s3_def s2_def say_def advances_def)
  ultimately show ?thesis by blast
qed

text \<open>What is printed until the last file could not be opened.\<close>

definition nested_loads :: "string \<Rightarrow> string \<Rightarrow> nat \<Rightarrow> string list" where
  "nested_loads l file_name k =
     concat (replicate k [''Executing : '' @ repeat_file, ''Parse Success.'', ''prev : '' @ l]) @
     [''Error : Could not open log file '' @ file_name]"

lemma load_fails:
  assumes "repeats_itself l f s" "sh_free_fds s = 0"
  shows "\<exists>s'. parse_file ev I f s = Some (Inr s') \<and> repeats_itself l f s' \<and> advances (nested_loads l f 0) 0 s s' \<and>
    sh_recording s' = sh_recording s"
  using assms
  by (simp add: parse_file_def fopen_read_def nested_loads_def advances_def say_def repeats_itself_def get_cmd_tree_cursor_def)

lemma load_opens:
  assumes "repeats_itself l f s" "sh_free_fds s = Suc j"
  shows "\<exists>s1. parse_file ev I f s = obind (parse_lines ev I [repeat_file] s1) (\<lambda>s. Some (Inr (fclose s))) \<and>
    repeats_itself l f s1 \<and> sh_out s1 = sh_out s \<and> sh_stdin s1 = sh_stdin s \<and> sh_app s1 = sh_app s \<and>
    sh_free_fds s1 = j \<and> \<not> sh_recording s1"
proof -
  note st = assms(1) [unfolded repeats_itself_def]
  let ?s1 = "s\<lparr>sh_free_fds := j, sh_recording := False, sh_cli := (sh_cli s)\<lparr>cl_tlv_buff := reset_serialize_buffer (tlv_buff s)\<rparr>\<rparr>"
  have "parse_file ev I f s = obind (parse_lines ev I [repeat_file] ?s1) (\<lambda>s. Some (Inr (fclose s)))"
    using st assms(2) by (simp add: parse_file_def fopen_read_def on_buff_def on_cli_def repeat_line)
  moreover have "repeats_itself l f ?s1"
    using st by (simp add: repeats_itself_def get_cmd_tree_cursor_def)
  ultimately show ?thesis by (intro exI [of _ ?s1]) simp
qed

lemma repeat_handler:
  assumes "repeats_itself l f s"
  shows "\<exists>s4. invoke (Suc n) ev p repeat_last_command eod s =
      obind (parse_input_cmd n ev (sh_last s) s4) (\<lambda>(_, _, s). Some (Inr s)) \<and>
    holds (sh_last s) l \<and> repeats_itself l f s4 \<and> advances [''prev : '' @ l] 1 s s4 \<and> sh_recording s4 = sh_recording s"
proof -
  note st = assms [unfolded repeats_itself_def]
  let ?s4 = "(say (''prev : '' @ cstr (sh_last s)) s)\<lparr>sh_stdin := scanf_c (sh_stdin s)\<rparr>"
  have "invoke (Suc n) ev p repeat_last_command eod s =
      obind (parse_input_cmd n ev (sh_last s) ?s4) (\<lambda>(_, _, s). Some (Inr s))"
    by (simp add: invoke.simps run_callback_def repeat_last_command_fn_def)
  with st show ?thesis
    by (intro exI [of _ ?s4])
      (simp add: repeats_itself_def get_cmd_tree_cursor_def say_def advances_def scanf_c_def holds_def)
qed

lemma nested_loads_Suc:
  "nested_loads l f (Suc j) = [''Executing : '' @ repeat_file, ''Parse Success.''] @ [''prev : '' @ l] @ nested_loads l f j"
  by (simp add: nested_loads_def)

theorem repeated_load:
  assumes "repeats_itself l f s" "holds input l" "length l < 2048"
    and "strtok_all CHR '' '' (trim l) = [''config'', ''load'', f]" "length f < 64" "2 * sh_free_fds s < n"
  shows "\<exists>s'. parse_input_cmd n ev input s = Some (Inr (COMPLETE, False, s')) \<and> repeats_itself l f s' \<and>
    advances (nested_loads l f (sh_free_fds s)) (sh_free_fds s) s s' \<and>
    sh_recording s' = (sh_recording s \<and> sh_free_fds s = 0)"
  using assms(1,2,6)
proof (induction "sh_free_fds s" arbitrary: n s input)
  case 0
  then obtain m where n: "n = Suc m" by (cases n) auto
  obtain s0 where s0: "parse_input_cmd (Suc m) ev input s = obind (parse_file ev (invoke m ev) f s0) (\<lambda>s.
      obind (Some (after_command s)) (\<lambda>s. Some (Inr (COMPLETE, False, s))))" "repeats_itself l f s0"
      "advances [] 0 s s0" "sh_recording s0 = sh_recording s"
    using load_line [OF 0(2,3) assms(3-5), of m ev] by blast
  have "sh_free_fds s0 = 0" using s0(3) 0(1) by (simp add: advances_def)
  then obtain s1 where s1: "parse_file ev (invoke m ev) f s0 = Some (Inr s1)" "repeats_itself l f s1"
      "advances (nested_loads l f 0) 0 s0 s1" "sh_recording s1 = sh_recording s0"
    using load_fails [OF s0(2)] by blast
  obtain s2 where s2: "after_command s1 = Inr s2" "repeats_itself l f s2" "advances [] 0 s1 s2"
      "sh_recording s2 = sh_recording s1"
    using repeats_after_command [OF s1(2)] by blast
  have "advances (nested_loads l f 0) 0 s s2"
    using advances_trans [OF advances_trans [OF s0(3) s1(3)] s2(3)] by simp
  then show ?case using 0(1) n s0(1,4) s1(1,4) s2(1,2,4) by simp
next
  case (Suc j)
  then obtain k where n: "n = Suc (Suc k)" "2 * j < k" by (cases n; cases "n - 1") auto
  obtain s0 where s0: "parse_input_cmd n ev input s = obind (parse_file ev (invoke (Suc k) ev) f s0) (\<lambda>s.
      obind (Some (after_command s)) (\<lambda>s. Some (Inr (COMPLETE, False, s))))" "repeats_itself l f s0"
      "advances [] 0 s s0"
    using load_line [OF Suc(3,4) assms(3-5), of "Suc k" ev] n(1) by blast
  have "sh_free_fds s0 = Suc j" using s0(3) Suc(2) by (simp add: advances_def)
  then obtain s1 where s1: "parse_file ev (invoke (Suc k) ev) f s0 =
        obind (parse_lines ev (invoke (Suc k) ev) [repeat_file] s1) (\<lambda>s. Some (Inr (fclose s)))"
      "repeats_itself l f s1" "sh_out s1 = sh_out s0" "sh_stdin s1 = sh_stdin s0" "sh_app s1 = sh_app s0"
      "sh_free_fds s1 = j" "\<not> sh_recording s1"
    using load_opens [OF s0(2)] by blast
  obtain s3 eod where s3: "parse_lines ev (invoke (Suc k) ev) [repeat_file] s1 =
        obind (invoke (Suc k) ev libcli_get_repeat_hook repeat_last_command eod s3) (\<lambda>s. Some (after_command s))"
      "repeats_itself l f s3" "advances [''Executing : '' @ repeat_file, ''Parse Success.''] 0 s1 s3" "\<not> sh_recording s3"
    using repeat_line_runs [OF s1(2), of ev "invoke (Suc k) ev"] s1(7) by blast
  obtain s4 where s4: "invoke (Suc k) ev libcli_get_repeat_hook repeat_last_command eod s3 =
        obind (parse_input_cmd k ev (sh_last s3) s4) (\<lambda>(_, _, s). Some (Inr s))"
      "holds (sh_last s3) l" "repeats_itself l f s4" "advances [''prev : '' @ l] 1 s3 s4" "\<not> sh_recording s4"
    using repeat_handler [OF s3(2), of k ev libcli_get_repeat_hook eod] s3(4) by blast
  have fds: "j = sh_free_fds s4" using s1(6) s3(3) s4(4) by (simp add: advances_def)
  then obtain s5 where s5: "parse_input_cmd k ev (sh_last s3) s4 = Some (Inr (COMPLETE, False, s5))" "repeats_itself l f s5"
      "advances (nested_loads l f j) j s4 s5" "\<not> sh_recording s5"
    using Suc(1) [OF fds s4(3,2)] n(2) s4(5) by auto
  obtain s6 where s6: "after_command s5 = Inr s6" "repeats_itself l f s6" "advances [] 0 s5 s6" "\<not> sh_recording s6"
    using repeats_after_command [OF s5(2)] s5(4) by auto
  have s7: "repeats_itself l f (fclose s6)" using s6(2) by (simp add: repeats_itself_def fclose_def get_cmd_tree_cursor_def)
  obtain s8 where s8: "after_command (fclose s6) = Inr s8" "repeats_itself l f s8" "advances [] 0 (fclose s6) s8"
      "\<not> sh_recording s8"
    using repeats_after_command [OF s7] s6(4) by (auto simp: fclose_def)
  have "advances (nested_loads l f (Suc j)) (Suc j) s1 s6"
    using advances_trans [OF advances_trans [OF advances_trans [OF s3(3) s4(4)] s5(3)] s6(3)]
    by (simp add: nested_loads_Suc)
  then have "advances (nested_loads l f (Suc j)) (Suc j) s s8"
    using s0(3) s1(3-6) s8(3) Suc(2) by (simp add: advances_def fclose_def)
  moreover have "parse_input_cmd n ev input s = Some (Inr (COMPLETE, False, s8))"
    using s0(1) s1(1) s3(1) s4(1) s5(1) s6(1) s8(1) by (simp del: parse_lines.simps)
  ultimately show ?case using Suc(2) s8(2,4) by (metis Zero_not_Suc)
qed

section \<open>A session\<close>

text \<open>
  The shell as it starts: the record of the command code has its name, nothing was typed yet.
  \<open>last_cmd\<close> is the block of the last command. Of the usual limit of 1024 descriptors the
  standard streams have three.
\<close>

definition session :: "cli \<Rightarrow> (string \<Rightarrow> string option) \<Rightarrow> string \<Rightarrow> app \<Rightarrow> app shell" where
  "session c files last_cmd p =
     \<lparr>sh_cli = c, sh_stdin = [], sh_input = replicate CONS_INPUT_BUFFER_SIZE nul, sh_last = last_cmd,
      sh_code = tlv_zero\<lparr>tlv_leaf_type := LT_INT, tlv_leaf_id := ''CMDCODE'' @ replicate 25 nul\<rparr>,
      sh_recording = True, sh_cmd_counter = 0, sh_files = files, sh_free_fds = 1021, sh_out = [],
      sh_ut = \<lparr>TC_RUNNING = False, ut_parser_recv_buff = [], ut_parser_recv_buff_data_size = 0,
               ut_parser_debug = False, int_store1 = 0, int_store2 = 0, int_store3 = 0, ut_msg_q = []\<rparr>,
      sh_app = p\<rparr>"

definition no_servers :: app where
  "no_servers = \<lparr>tcp_server_lst = [], ctrl_heap = Map.empty, next_ctrl = 0\<rparr>"

lemma app_buffer: "sb_tlvs (cl_tlv_buff app_cli) [] \<and> sb_checkpoint (cl_tlv_buff app_cli) = 0"
proof -
  have "main_shell = Some (Inr app_cli)" using app_cli by blast
  then obtain c h where h: "init_libcli = Inr c" "c\<lparr>cl_params := h\<rparr> = app_cli"
    by (auto simp: main_shell_def)
  have b: "cl_tlv_buff app_cli = cl_tlv_buff c" by (subst h(2) [symmetric]) simp
  have "cl_tlv_buff c = reset_serialize_buffer (init_serialized_buffer_of_defined_size 1024)"
    using h(1) by (auto simp: init_libcli_def reset_cmd_tree_cursor_def cli_calm_def dest!: set_device_name_calm)
  moreover have "sb_tlvs (init_serialized_buffer_of_defined_size 1024) []"
    by (rule init_sb_tlvs) (simp_all add: i32_ok_def)
  ultimately show ?thesis using b
    by (auto simp: reset_serialize_buffer_def sb_tlvs_def sb_ok_def sb_bytes_def)
qed

lemma session_code_ok: "tlv_ok (sh_code (session c files l p))"
  by (simp add: session_def tlv_ok_def tlv_zero_ok [unfolded tlv_ok_def] tlv_zero_def LEAF_VALUE_HOLDER_SIZE_def)

lemma session_at_root: "app_at_root (session app_cli files l p)"
proof -
  have "params (session app_cli files l p) = cl_params app_cli" "cursor (session app_cli files l p) = Some libcli_get_root"
      "tlv_buff (session app_cli files l p) = cl_tlv_buff app_cli" "cl_tokens (sh_cli (session app_cli files l p)) = init_token_array"
    using app_tree(4,5) by (simp_all add: session_def get_cmd_tree_cursor_def)
  then show ?thesis using app_tree(2) app_buffer session_code_ok [of app_cli files l p] by (simp add: app_at_root_def)
qed

lemma session_mode_inv: "mode_inv app_rank (session app_cli files l p)"
proof -
  let ?s = "session app_cli files l p"
  have "params ?s = cl_params app_cli" "cursor ?s = Some libcli_get_root" "tlv_buff ?s = cl_tlv_buff app_cli"
    using app_tree(4) by (simp_all add: session_def get_cmd_tree_cursor_def)
  then show ?thesis using app_tree(1,2) app_buffer session_code_ok [of app_cli files l p]
    by (auto simp: mode_inv_def settled_def shell_ok_def at_def special_def hook_defs intro!: exI [of _ "[]"])
qed

section \<open>Handlers leave the library alone\<close>

definition keeps_library :: "app shell \<Rightarrow> app shell res \<Rightarrow> bool" where
  "keeps_library s r \<longleftrightarrow> (\<forall>s'. r = Inr s' \<longrightarrow> sh_cli s' = sh_cli s \<and> sh_code s' = sh_code s)"

named_theorems keeps_intros \<open>results that leave the library's state alone\<close>

lemma library_rbind [keeps_intros]: "(\<And>v. keeps_library s (k v)) \<Longrightarrow> keeps_library s (rbind m k)"
  by (auto simp: keeps_library_def)

lemma library_if [keeps_intros]: "keeps_library s x \<Longrightarrow> keeps_library s y \<Longrightarrow> keeps_library s (if c then x else y)"
  by simp

lemma library_mode [keeps_intros]:
  "keeps_library s x \<Longrightarrow> keeps_library s y \<Longrightarrow> keeps_library s z \<Longrightarrow>
   keeps_library s (case eod of CONFIG_ENABLE \<Rightarrow> x | CONFIG_DISABLE \<Rightarrow> y | _ \<Rightarrow> z)"
  by (cases eod) simp_all

lemma library_option [keeps_intros]:
  "keeps_library s x \<Longrightarrow> (\<And>v. keeps_library s (f v)) \<Longrightarrow> keeps_library s (case v of None \<Rightarrow> x | Some v \<Rightarrow> f v)"
  by (cases v) simp_all

lemma library_prod [keeps_intros]:
  "(\<And>a b. keeps_library s (f a b)) \<Longrightarrow> keeps_library s (case v of (a, b) \<Rightarrow> f a b)"
  by (cases v) simp

lemma library_Inl [keeps_intros]: "keeps_library s (Inl e)"
  by (simp add: keeps_library_def)

lemma library_Inr [keeps_intros]:
  "sh_cli s' = sh_cli s \<and> sh_code s' = sh_code s \<Longrightarrow> keeps_library s (Inr s')"
  by (simp add: keeps_library_def)

lemma library_on_server [keeps_intros]:
  "(\<And>c p. keeps_library s (f c s p)) \<Longrightarrow> keeps_library s (on_server msg name f s)"
  unfolding on_server_def by (intro keeps_intros) (simp_all add: say_def)

lemma config_keeps: "keeps_library s (config_tcp_server_handler mc eod s)"
  unfolding config_tcp_server_handler_def config_switch_def create_server_def Let_def
  by (intro keeps_intros) (simp_all add: say_def set_ctrl_def)

lemma show_keeps: "keeps_library s (show_tcp_server_handler s)"
  unfolding show_tcp_server_handler_def by (intro keeps_intros) simp_all

lemma app_env_quiet: "app_quiet (app_env mc junk u)"
  using config_keeps show_keeps by (simp add: app_quiet_def app_env_def keeps_library_def)

end
