(* ===== verification/ShellInvariant.thy ===== *)
theory ShellInvariant
  imports CmdMode ParserDepth
begin

text \<open>
  Properties of the shell that every line keeps, whatever it starts: other lines, files of commands,
  scripts, handlers of modes, at any depth. The locale lists what a property has to survive, its
  lemmas follow the calls through the parser and the handlers once and for all.
\<close>

section \<open>Results whose state has a property\<close>

text \<open>\<open>g\<close> takes the state out of the value.\<close>

definition keeps :: "('a shell \<Rightarrow> bool) \<Rightarrow> ('v \<Rightarrow> 'a shell) \<Rightarrow> 'v res option \<Rightarrow> bool" where
  "keeps Q g m \<longleftrightarrow> (\<forall>v. m = Some (Inr v) \<longrightarrow> Q (g v))"

abbreviation kept :: "('a shell \<Rightarrow> bool) \<Rightarrow> 'a shell res option \<Rightarrow> bool" where
  "kept Q \<equiv> keeps Q id"

abbreviation kept_snd :: "('a shell \<Rightarrow> bool) \<Rightarrow> ('b \<times> 'a shell) res option \<Rightarrow> bool" where
  "kept_snd Q \<equiv> keeps Q snd"

abbreviation kept_last :: "('a shell \<Rightarrow> bool) \<Rightarrow> ('b \<times> 'c \<times> 'a shell) res option \<Rightarrow> bool" where
  "kept_last Q \<equiv> keeps Q (snd \<circ> snd)"

lemma keepsD: "keeps Q g (Some (Inr v)) \<Longrightarrow> Q (g v)"
  by (simp add: keeps_def)

lemma keeps_None: "keeps Q g None"
  by (simp add: keeps_def)

lemma keeps_Inl: "keeps Q g (Some (Inl e))"
  by (simp add: keeps_def)

lemma keeps_Inr: "Q (g v) \<Longrightarrow> keeps Q g (Some (Inr v))"
  by (simp add: keeps_def)

lemma keeps_shell: "kept Q m \<Longrightarrow> (\<And>s. Q s \<Longrightarrow> keeps Q g (k s)) \<Longrightarrow> keeps Q g (obind m k)"
  by (auto simp: keeps_def)

lemma keeps_snd: "kept_snd Q m \<Longrightarrow> (\<And>v s. Q s \<Longrightarrow> keeps Q g (k (v, s))) \<Longrightarrow> keeps Q g (obind m k)"
  by (auto simp: keeps_def)

lemma keeps_last: "kept_last Q m \<Longrightarrow> (\<And>v w s. Q s \<Longrightarrow> keeps Q g (k (v, w, s))) \<Longrightarrow> keeps Q g (obind m k)"
  by (auto simp: keeps_def)

lemma keeps_value: "(\<And>v. m = Some (Inr v) \<Longrightarrow> keeps Q g (k v)) \<Longrightarrow> keeps Q g (obind m k)"
  by (auto simp: keeps_def)

lemma keeps_res_shell: "kept Q (Some m) \<Longrightarrow> (\<And>s. Q s \<Longrightarrow> keeps Q g (Some (k s))) \<Longrightarrow> keeps Q g (Some (rbind m k))"
  by (auto simp: keeps_def)

lemma keeps_res_snd: "kept_snd Q (Some m) \<Longrightarrow> (\<And>v s. Q s \<Longrightarrow> keeps Q g (Some (k (v, s)))) \<Longrightarrow> keeps Q g (Some (rbind m k))"
  by (auto simp: keeps_def)

lemma keeps_res_value: "(\<And>v. m = Inr v \<Longrightarrow> keeps Q g (Some (k v))) \<Longrightarrow> keeps Q g (Some (rbind m k))"
  by (auto simp: keeps_def)

lemma keeps_if: "(c \<Longrightarrow> keeps Q g x) \<Longrightarrow> (\<not> c \<Longrightarrow> keeps Q g y) \<Longrightarrow> keeps Q g (if c then x else y)"
  by simp

lemma keeps_res_if: "(c \<Longrightarrow> keeps Q g (Some x)) \<Longrightarrow> (\<not> c \<Longrightarrow> keeps Q g (Some y)) \<Longrightarrow> keeps Q g (Some (if c then x else y))"
  by simp

lemma keeps_option:
  "(v = None \<Longrightarrow> keeps Q g x) \<Longrightarrow> (\<And>u. v = Some u \<Longrightarrow> keeps Q g (f u)) \<Longrightarrow>
   keeps Q g (case v of None \<Rightarrow> x | Some u \<Rightarrow> f u)"
  by (cases v) simp_all

lemma keeps_res_option:
  "(v = None \<Longrightarrow> keeps Q g (Some x)) \<Longrightarrow> (\<And>u. v = Some u \<Longrightarrow> keeps Q g (Some (f u))) \<Longrightarrow>
   keeps Q g (Some (case v of None \<Rightarrow> x | Some u \<Rightarrow> f u))"
  by (cases v) simp_all

lemma keeps_prod: "(\<And>a b. v = (a, b) \<Longrightarrow> keeps Q g (f a b)) \<Longrightarrow> keeps Q g (case v of (a, b) \<Rightarrow> f a b)"
  by (cases v) simp

lemma keeps_res_prod:
  "(\<And>a b. v = (a, b) \<Longrightarrow> keeps Q g (Some (f a b))) \<Longrightarrow> keeps Q g (Some (case v of (a, b) \<Rightarrow> f a b))"
  by (cases v) simp

lemma keeps_let: "(\<And>v. v = x \<Longrightarrow> keeps Q g (f v)) \<Longrightarrow> keeps Q g (Let x f)"
  by simp

lemma keeps_res_let: "(\<And>v. v = x \<Longrightarrow> keeps Q g (Some (f v))) \<Longrightarrow> keeps Q g (Some (Let x f))"
  by simp

lemma keeps_status: "keeps Q g a \<Longrightarrow> keeps Q g b \<Longrightarrow> keeps Q g (case st of COMPLETE \<Rightarrow> a | _ \<Rightarrow> b)"
  by (cases st) simp_all

lemma keeps_kind:
  "(\<And>n. c = CmdP n \<Longrightarrow> keeps Q g (f n)) \<Longrightarrow> (\<And>n. c = NoCmdP n \<Longrightarrow> keeps Q g (f' n)) \<Longrightarrow>
   (\<And>l. c = LeafP l \<Longrightarrow> keeps Q g (f'' l)) \<Longrightarrow>
   keeps Q g (case c of CmdP n \<Rightarrow> f n | NoCmdP n \<Rightarrow> f' n | LeafP l \<Rightarrow> f'' l)"
  by (cases c) simp_all

lemma keeps_res_mode:
  "keeps Q g (Some x) \<Longrightarrow> keeps Q g (Some y) \<Longrightarrow> keeps Q g (Some z) \<Longrightarrow>
   keeps Q g (Some (case eod of CONFIG_ENABLE \<Rightarrow> x | CONFIG_DISABLE \<Rightarrow> y | _ \<Rightarrow> z))"
  by (cases eod) simp_all

lemmas keeps_rules =
  keeps_None keeps_Inl keeps_if keeps_res_if keeps_option keeps_res_option keeps_prod keeps_res_prod
  keeps_let keeps_res_let keeps_status keeps_kind keeps_res_mode
  keeps_shell keeps_snd keeps_last keeps_res_shell keeps_res_snd

section \<open>Operations on the command line that do not touch the tree\<close>

lemma params_frame:
  "set_cmd_tree_cursor p c = Inr c' \<Longrightarrow> cl_params c' = cl_params c"
  "set_device_name n c = Inr c' \<Longrightarrow> cl_params c' = cl_params c"
  "build_mode_console_name po c = Some (Inr c') \<Longrightarrow> cl_params c' = cl_params c"
  "reset_prompt c = Inr c' \<Longrightarrow> cl_params c' = cl_params c"
  using set_device_name_calm [of n c c'] build_mode_console_name_calm [of po c c'] reset_prompt_calm [of c c']
  by (auto simp: set_cmd_tree_cursor_def cli_calm_def split: option.splits)

section \<open>The interface\<close>

locale shell_invariant =
  fixes Q :: "'a shell \<Rightarrow> bool" and ev :: "'a env"
  assumes quiet: "Q s \<Longrightarrow> params s' = params s \<Longrightarrow> sh_code s' = sh_code s \<Longrightarrow> sh_app s' = sh_app s \<Longrightarrow> Q s'"
    and leaf: "Q s \<Longrightarrow> params s q = Some c \<Longrightarrow> p_kind c = LeafP l \<Longrightarrow> set_leaf_value tok l = Inr l' \<Longrightarrow>
      Q (s\<lparr>sh_cli := (sh_cli s)\<lparr>cl_params := (params s)(q \<mapsto> c\<lparr>p_kind := LeafP l'\<rparr>)\<rparr>\<rparr>)"
    and clear: "Q s \<Longrightarrow> params s q = Some c \<Longrightarrow> clear_leaf_value c = Inr c' \<Longrightarrow>
      Q (s\<lparr>sh_cli := (sh_cli s)\<lparr>cl_params := (params s)(q \<mapsto> c')\<rparr>\<rparr>)"
    and code: "Q s \<Longrightarrow> set_command_code k s = Inr s' \<Longrightarrow> Q s'"
    and callback: "Q s \<Longrightarrow> ev_callback ev n p m s = Inr s' \<Longrightarrow> Q s'"
    and disp: "Q s \<Longrightarrow> ev_disp ev n p s = Inr s' \<Longrightarrow> Q s'"
begin

lemma frame [simp]:
  "Q (s\<lparr>sh_out := x\<rparr>) = Q s" "Q (s\<lparr>sh_stdin := i\<rparr>) = Q s" "Q (s\<lparr>sh_input := i\<rparr>) = Q s" "Q (s\<lparr>sh_last := i\<rparr>) = Q s"
  "Q (s\<lparr>sh_recording := b\<rparr>) = Q s" "Q (s\<lparr>sh_cmd_counter := n\<rparr>) = Q s" "Q (s\<lparr>sh_files := f\<rparr>) = Q s"
  "Q (s\<lparr>sh_free_fds := k\<rparr>) = Q s" "Q (fclose s) = Q s"
  "Q (s\<lparr>sh_ut := u\<rparr>) = Q s" "Q (say l s) = Q s" "Q (on_ut h s) = Q s"
  "Q (s\<lparr>sh_cli := (sh_cli s)\<lparr>cl_tokens := ts\<rparr>\<rparr>) = Q s" "Q (s\<lparr>sh_cli := (sh_cli s)\<lparr>cl_tlv_buff := t\<rparr>\<rparr>) = Q s"
  by (auto simp: say_def on_ut_def fclose_def intro: quiet elim!: quiet)

lemma fopen_frame: "fopen_read f s = Some (x, s') \<Longrightarrow> Q s' = Q s"
  by (auto simp: fopen_read_def split: if_splits option.splits)

lemma fopen_kept:
  assumes "Q s" "keeps Q g n" "\<And>f s. Q s \<Longrightarrow> keeps Q g (k f s)"
  shows "keeps Q g (case fopen_read name s of None \<Rightarrow> n | Some (f, s) \<Rightarrow> k f s)"
  using assms fopen_frame [of name s] by (cases "fopen_read name s") auto

lemma cli_frame: "Q s \<Longrightarrow> cl_params c = params s \<Longrightarrow> Q (s\<lparr>sh_cli := c\<rparr>)"
  by (rule quiet) simp_all

lemma on_cli_kept: "Q s \<Longrightarrow> (\<And>c c'. f c = Inr c' \<Longrightarrow> cl_params c' = cl_params c) \<Longrightarrow> kept Q (Some (on_cli f s))"
  by (auto simp: keeps_def on_cli_def intro: cli_frame)

lemma on_cli_opt_kept:
  "Q s \<Longrightarrow> (\<And>c c'. f c = Some (Inr c') \<Longrightarrow> cl_params c' = cl_params c) \<Longrightarrow> kept Q (on_cli_opt f s)"
  by (auto simp: keeps_def on_cli_opt_def intro: cli_frame)

lemma on_buff_kept: "Q s \<Longrightarrow> kept Q (Some (on_buff f s))"
  unfolding on_buff_def by (rule on_cli_kept) auto

lemma on_buff_opt_kept: "Q s \<Longrightarrow> kept Q (on_buff_opt f s)"
  unfolding on_buff_opt_def by (rule on_cli_opt_kept) auto

lemma set_command_code_kept: "Q s \<Longrightarrow> kept Q (Some (set_command_code n s))"
  using code by (auto simp: keeps_def)

lemmas op_kept = on_cli_kept on_cli_opt_kept on_buff_kept on_buff_opt_kept set_command_code_kept

section \<open>Handlers\<close>

lemma console_name_loop_kept: "Q s \<Longrightarrow> kept Q (Some (console_name_loop eod ts s))"
proof (induction ts arbitrary: s)
  case (Cons t ts)
  then show ?case unfolding console_name_loop.simps
    by (intro keeps_res_shell keeps_res_if on_cli_kept) (auto simp: keeps_def dest: params_frame)
qed (simp add: keeps_def)

lemma simple_kept:
  assumes "Q s"
  shows "kept Q (Some (config_console_name_handler_fn eod s))" "kept Q (Some (display_cmd_expansion_callback_fn po s))"
    "kept Q (Some (show_resgistered_cmd_handler_fn s))" "kept Q (show_cmd_tree_fn s)" "kept Q (Some (load_file_handler_fn s))"
    "kept Q (Some (negate_callback_fn s))" "kept Q (Some (show_help_handler_fn s))" "kept Q (Some (clear_screen_handler_fn s))"
    "kept Q (Some (supportsave_handler_fn eod s))" "kept Q (Some (cli_terminate_handler_fn s))"
proof -
  show "kept Q (Some (config_console_name_handler_fn eod s))"
    unfolding config_console_name_handler_fn_def by (rule keeps_res_value) (rule console_name_loop_kept [OF assms])
  show "kept Q (Some (display_cmd_expansion_callback_fn po s))" "kept Q (Some (show_resgistered_cmd_handler_fn s))"
    using assms by (auto simp: keeps_def display_cmd_expansion_callback_fn_def show_resgistered_cmd_handler_fn_def)
  show "kept Q (show_cmd_tree_fn s)" "kept Q (Some (load_file_handler_fn s))"
    "kept Q (Some (negate_callback_fn s))" "kept Q (Some (show_help_handler_fn s))" "kept Q (Some (clear_screen_handler_fn s))"
    "kept Q (Some (supportsave_handler_fn eod s))" "kept Q (Some (cli_terminate_handler_fn s))"
    using assms by (auto simp: keeps_def show_cmd_tree_fn_def load_file_handler_fn_def negate_callback_fn_def
        show_help_handler_fn_def clear_screen_handler_fn_def supportsave_handler_fn_def cli_terminate_handler_fn_def
        split: op_mode.splits)
qed

lemma sub_options_kept: "Q s \<Longrightarrow> kept Q (display_sub_options_callback_fn ev p s)"
  unfolding display_sub_options_callback_fn_def
  by (rule keeps_snd, (auto simp: keeps_def Let_def)[1], simp only: prod.case, intro keeps_option keeps_shell on_buff_opt_kept)
    (auto simp: keeps_def intro: disp [of "say l s" for l s])

lemma exit_kept: "Q s \<Longrightarrow> kept Q (exit_cmd_handler_fn ev s)"
proof -
  assume q: "Q s"
  have "Q (s\<lparr>sh_cli := c\<rparr>)" if up: "go_one_level_up_cmd_tree (ev_junk ev) (cursor s) (sh_cli s) = Some (Inr c)" for c
  proof -
    obtain p where p: "cursor s = Some p" using up by (auto simp: go_one_level_up_cmd_tree_def split: option.splits)
    show ?thesis
    proof (cases "p = libcli_get_root")
      case True
      with up p have "c = sh_cli s" by (simp add: go_one_level_up_cmd_tree_def)
      with q show ?thesis by simp
    next
      case False
      with up p have "cl_params c = params s \<or>
          (\<exists>x y. params s p = Some x \<and> clear_leaf_value x = Inr y \<and> cl_params c = (params s)(p \<mapsto> y))"
        by (auto simp: go_one_level_up_cmd_tree_def pget_Inr get_cmd_tree_cursor_def
            split: sum.splits if_splits option.splits dest!: params_frame)
      then have "Q (s\<lparr>sh_cli := (sh_cli s)\<lparr>cl_params := cl_params c\<rparr>\<rparr>)"
        using clear [OF q] q by (auto intro: cli_frame)
      then show ?thesis by (rule quiet) simp_all
    qed
  qed
  then show ?thesis by (auto simp: keeps_def exit_cmd_handler_fn_def on_cli_opt_def)
qed

lemma top_loop_kept:
  assumes "top_loop p h = Some r" "Q (s\<lparr>sh_cli := (sh_cli s)\<lparr>cl_params := h\<rparr>\<rparr>)"
  shows "case r of Inl e \<Rightarrow> True | Inr h' \<Rightarrow> Q (s\<lparr>sh_cli := (sh_cli s)\<lparr>cl_params := h'\<rparr>\<rparr>)"
proof (rule top_loop.raw_induct [where ?P = "\<lambda>p h r. Q (s\<lparr>sh_cli := (sh_cli s)\<lparr>cl_params := h\<rparr>\<rparr>) \<longrightarrow>
    (case r of Inl e \<Rightarrow> True | Inr h' \<Rightarrow> Q (s\<lparr>sh_cli := (sh_cli s)\<lparr>cl_params := h'\<rparr>\<rparr>))", rule_format, OF _ assms], goal_cases)
  case (1 rec p h r)
  show ?case
  proof (cases "pget h p")
    case (Inl e)
    with 1(2) show ?thesis by auto
  next
    case (Inr c)
    then have c: "h p = Some c" by (simp add: pget_Inr)
    show ?thesis
    proof (cases "if IS_PARAM_CMD c then Inr h else rbind (clear_leaf_value c) (\<lambda>c. Inr (h(p \<mapsto> c)))")
      case (Inl e)
      have "r = Inl e" using 1(2) unfolding \<open>pget h p = Inr c\<close> sum.case Inl by simp
      then show ?thesis by simp
    next
      case (Inr h1)
      have q1: "Q (s\<lparr>sh_cli := (sh_cli s)\<lparr>cl_params := h1\<rparr>\<rparr>)"
        using Inr 1(3) clear [OF 1(3), of p c] c by (auto split: if_splits)
      show ?thesis
      proof (cases "p_parent c")
        case None
        with 1(2) \<open>pget h p = Inr c\<close> Inr show ?thesis by auto
      next
        case (Some q)
        with 1(2) \<open>pget h p = Inr c\<close> Inr have "(if q = libcli_get_root then Some (Inr h1) else rec q h1) = Some r" by simp
        with 1(1) q1 show ?thesis by (auto split: if_splits)
      qed
    qed
  qed
qed

lemma end_kept: "Q s \<Longrightarrow> kept Q (end_cmd_handler_fn s)"
proof -
  assume q: "Q s"
  have "Q (s\<lparr>sh_cli := c\<rparr>)" if top: "goto_top_of_cmd_tree (cursor s) (sh_cli s) = Some (Inr c)" for c
  proof (cases "c = sh_cli s")
    case False
    with top obtain p h where h: "top_loop p (params s) = Some (Inr h)" "cl_params c = h"
      by (auto simp: goto_top_of_cmd_tree_def reset_cmd_tree_cursor_def split: option.splits if_splits sum.splits
          dest!: params_frame)
    have "Q (s\<lparr>sh_cli := (sh_cli s)\<lparr>cl_params := h\<rparr>\<rparr>)" using top_loop_kept [OF h(1)] q by simp
    then show ?thesis by (rule quiet) (simp_all add: h(2))
  qed (use q in simp)
  then show ?thesis by (auto simp: keeps_def end_cmd_handler_fn_def on_cli_opt_def)
qed

end

section \<open>Handlers that start the parser\<close>

definition parse_kept :: "('a shell \<Rightarrow> bool) \<Rightarrow> 'a parse_fn \<Rightarrow> bool" where
  "parse_kept Q P \<longleftrightarrow> (\<forall>i s. Q s \<longrightarrow> kept_last Q (P i s))"

definition invoke_kept :: "('a shell \<Rightarrow> bool) \<Rightarrow> 'a invoke_fn \<Rightarrow> bool" where
  "invoke_kept Q I \<longleftrightarrow> (\<forall>p cb eod s. Q s \<longrightarrow> kept Q (I p cb eod s))"

lemma parse_keptD: "parse_kept Q P \<Longrightarrow> Q s \<Longrightarrow> kept_last Q (P i s)"
  by (simp add: parse_kept_def)

lemma invoke_keptD: "invoke_kept Q I \<Longrightarrow> Q s \<Longrightarrow> kept Q (I p cb eod s)"
  by (simp add: invoke_kept_def)

context shell_invariant
begin

lemma sprintf_say_kept: "Q s \<Longrightarrow> kept Q (Some (sprintf_say n t s))"
  by (simp add: sprintf_say_def keeps_def)

lemma keep_kept: "kept Q (Some m) \<Longrightarrow> kept_snd Q (keep r m)"
  by (auto simp: keep_def keeps_def)

lemma script_line_kept:
  assumes "Q s"
  shows "kept_snd Q (Some (begin_test_case f n line r s))" "kept_snd Q (Some (end_test_case f n r s))"
    "kept_snd Q (Some (check_pattern m line r s))" "kept Q (Some (grep_line line s))"
    "kept Q (Some (store_line nm upd line s))" "kept Q (Some (receive_output s))"
proof -
  have say: "Q s'" if "sprintf_say k t s = Inr s'" for k t s' using sprintf_say_kept [OF assms, of k t] that by (simp add: keeps_def)
  have upd: "Q s'" if "sprintf_say k t (on_ut h s) = Inr s'" for k t h s'
    using sprintf_say_kept [of "on_ut h s" k t] assms that by (simp add: keeps_def)
  show "kept_snd Q (Some (begin_test_case f n line r s))"
    using assms by (auto simp: keeps_def begin_test_case_def split: option.splits dest!: say)
  show "kept_snd Q (Some (end_test_case f n r s))"
    by (auto simp: keeps_def end_test_case_def tc_print_result_def dest!: say)
  show "kept_snd Q (Some (check_pattern m line r s))" using assms by (auto simp: keeps_def check_pattern_def Let_def)
  show "kept Q (Some (grep_line line s))" by (auto simp: keeps_def grep_line_def dest!: say)
  show "kept Q (Some (store_line nm upd line s))" by (auto simp: keeps_def store_line_def dest!: upd)
  show "kept Q (Some (receive_output s))"
    using assms by (auto simp: keeps_def receive_output_def Let_def split: list.splits)
qed

lemma run_cmd_line_kept: "parse_kept Q P \<Longrightarrow> Q s \<Longrightarrow> kept Q (run_cmd_line P line s)"
  unfolding run_cmd_line_def
  by (rule keeps_shell [OF sprintf_say_kept], assumption, rule keeps_value, rule keeps_last [OF parse_keptD], assumption+,
      simp only: prod.case, intro keeps_if script_line_kept keeps_Inl keeps_Inr) auto

lemma run_line_kept: "parse_kept Q P \<Longrightarrow> Q s \<Longrightarrow> kept_snd Q (run_line P f n line r s)"
  unfolding run_line_def Let_def
  by (intro keeps_if script_line_kept keep_kept sprintf_say_kept keeps_Inr keeps_shell [OF run_cmd_line_kept]
      keeps_res_shell [OF sprintf_say_kept] keeps_res_value) (simp_all add: keeps_def)

lemma run_loop_kept:
  assumes "run_loop P f n r s = Some res" "parse_kept Q P" "Q s"
  shows "case res of Inl _ \<Rightarrow> True | Inr (r', s') \<Rightarrow> Q s'"
proof (rule run_loop.raw_induct [where ?P = "\<lambda>P f n r s res. parse_kept Q P \<longrightarrow> Q s \<longrightarrow>
    (case res of Inl _ \<Rightarrow> True | Inr (r', s') \<Rightarrow> Q s')", rule_format, OF _ assms], goal_cases)
  case (1 rec P f n r s res)
  show ?case
  proof (cases "fgets 512 (ur_file r)")
    case None
    with 1 show ?thesis by auto
  next
    case (Some lf)
    obtain line rest where lf: "lf = (line, rest)" by (cases lf)
    let ?turn = "if hd line \<noteq> CHR '':''
                 then Some (Inr (r\<lparr>ur_file := rest\<rparr>, if line = [newline] then say [] s else s))
                 else obind (Some (substitute_stores (sh_ut s) (takeWhile (\<lambda>c. c \<noteq> newline) (cstr line)))) (\<lambda>line.
                        run_line P f n line (r\<lparr>ur_file := rest\<rparr>) s)"
    have turn: "kept_snd Q ?turn"
      by (intro keeps_if keeps_value run_line_kept 1) (simp add: keeps_def 1(4))
    have "?turn \<noteq> None"
      using 1(2) unfolding Some lf option.case prod.case by (intro notI) simp
    then obtain t where t: "?turn = Some t" by blast
    show ?thesis
    proof (cases t)
      case (Inl e)
      have "res = Inl e" using 1(2) unfolding Some lf option.case prod.case t Inl sum.case by simp
      then show ?thesis by simp
    next
      case (Inr rs)
      obtain r1 s1 where rs: "rs = (r1, s1)" by (cases rs)
      have q: "Q s1" using turn unfolding t Inr rs by (simp add: keeps_def)
      have "(if ur_done r1 then Some (Inr (r1, s1)) else rec P f n r1 s1) = Some res"
        using 1(2) unfolding Some lf option.case prod.case t Inr rs sum.case .
      with 1(1) [OF _ 1(3) q] q show ?thesis by (auto split: if_splits)
    qed
  qed
qed

lemma run_test_case_kept: "parse_kept Q P \<Longrightarrow> Q s \<Longrightarrow> kept_snd Q (run_test_case ev P f n s)"
proof -
  assume p: "parse_kept Q P" and q: "Q s"
  have "kept_snd Q (run_loop P f n r t)" if t: "Q t" for r t
    unfolding keeps_def using run_loop_kept [OF _ p t, of f n r] by (auto split: sum.splits)
  then show ?thesis unfolding run_test_case_def
    by (intro fopen_kept q keeps_Inl, intro keeps_snd) (simp_all add: keeps_def)
qed

lemma ut_test_handler_kept: "parse_kept Q P \<Longrightarrow> Q s \<Longrightarrow> kept Q (ut_test_handler_fn ev P s)"
  unfolding ut_test_handler_fn_def
  by (rule keeps_value, simp only: prod.case split_beta, intro keeps_if keeps_value keeps_snd [OF run_test_case_kept])
    (simp_all add: keeps_def)

lemma history_choice_kept: "Q s \<Longrightarrow> kept_snd Q (Some (history_choice ev s))"
  by (auto simp: keeps_def history_choice_def)

lemma history_kept: "parse_kept Q P \<Longrightarrow> Q s \<Longrightarrow> kept Q (show_history_callback_fn ev P s)"
  unfolding show_history_callback_fn_def Let_def
  by (intro fopen_kept keeps_if keeps_Inl keeps_Inr keeps_snd [OF history_choice_kept], simp_all only: prod.case)
    (auto intro!: keeps_if keeps_Inr keeps_last [OF parse_keptD])

lemma repeat_kept: "parse_kept Q P \<Longrightarrow> Q s \<Longrightarrow> kept Q (repeat_last_command_fn P s)"
  unfolding repeat_last_command_fn_def by (rule keeps_last [OF parse_keptD]) (simp_all add: keeps_def)

lemma mode_enter_kept: "invoke_kept Q I \<Longrightarrow> Q s \<Longrightarrow> kept Q (mode_enter_callback_fn I p eod s)"
  unfolding mode_enter_callback_fn_def
  by (intro keeps_if keeps_shell [OF on_cli_kept] keeps_shell [OF on_cli_opt_kept] keeps_value keeps_option keeps_Inr invoke_keptD)
    (auto dest: params_frame)

lemma config_mode_enter_kept: "Q s \<Longrightarrow> kept Q (config_mode_enter_handler_fn p s)"
  unfolding config_mode_enter_handler_fn_def
  by (intro keeps_shell [OF on_cli_kept] keeps_shell [OF on_cli_opt_kept] on_buff_kept) (auto dest: params_frame)

lemma show_extension_kept: "Q s \<Longrightarrow> kept Q (show_extension_param_handler_fn ev p s)"
  unfolding show_extension_param_handler_fn_def by (intro keeps_if keeps_value on_buff_opt_kept keeps_Inr) simp_all

lemma run_callback_kept:
  "parse_kept Q P \<Longrightarrow> invoke_kept Q I \<Longrightarrow> Q s \<Longrightarrow> kept Q (run_callback ev P I p cb eod s)"
  unfolding run_callback_def
  by (cases cb) (simp_all add: simple_kept sub_options_kept exit_kept end_kept ut_test_handler_kept history_kept
      repeat_kept mode_enter_kept config_mode_enter_kept show_extension_kept, simp add: keeps_def callback)

section \<open>The parser\<close>

lemma invoke_handler_kept: "invoke_kept Q I \<Longrightarrow> Q s \<Longrightarrow> kept Q (invoke_handler I p eod s)"
  unfolding invoke_handler_def by (intro keeps_value keeps_option keeps_Inl invoke_keptD)

lemma match_token_kept: "Q s \<Longrightarrow> kept_snd Q (Some (match_token os tok s))"
  by (auto simp: keeps_def match_token_def read_rest_of_line_def Let_def split: if_splits option.splits)

lemma take_leaf_kept:
  assumes "Q s" "params s q = Some c" "p_kind c = LeafP l"
  shows "kept Q (take_leaf ev q c l tok s)"
  unfolding take_leaf_def by (intro keeps_value on_buff_opt_kept) (use leaf [OF assms] in simp)

lemma token_loop_kept: "Q s \<Longrightarrow> kept_snd Q (token_loop ev off i parent param eod s n)"
proof (induction n arbitrary: i parent param eod s)
  case (Suc n)
  have "kept_snd Q (case m of None \<Rightarrow> Some (Inr (\<lparr>wk_status = CMD_NOT_FOUND, wk_i = i, wk_parent = Some param, wk_param = None,
                       wk_mode = eod\<rparr>, s1))
       | Some q \<Rightarrow>
           obind (Some (pget (params s1) q)) (\<lambda>qc.
             case p_kind qc of
               CmdP _ \<Rightarrow> token_loop ev off (Suc i) (Some param) q eod s1 n
             | NoCmdP _ \<Rightarrow> token_loop ev off (Suc i) (Some param) q CONFIG_DISABLE s1 n
             | LeafP l \<Rightarrow>
                 obind (Some (leaf_handler (lf_type l) tok)) (\<lambda>ok.
                   if \<not> ok
                   then Some (Inr (\<lparr>wk_status = INVALID_LEAF, wk_i = i, wk_parent = Some param,
                                    wk_param = Some q, wk_mode = eod\<rparr>, s1))
                   else if \<not> INVOKE_LEAF_USER_VALIDATION_CALLBACK ev l tok
                   then Some (Inr (\<lparr>wk_status = USER_INVALID_LEAF, wk_i = i, wk_parent = Some param,
                                    wk_param = Some q, wk_mode = eod\<rparr>, s1))
                   else obind (take_leaf ev q qc l tok s1) (\<lambda>s.
                          token_loop ev off (Suc i) (Some param) q eod s n))))" if "Q s1" for m tok s1
    by (intro keeps_option keeps_value keeps_kind keeps_if keeps_Inr Suc.IH keeps_shell [OF take_leaf_kept])
      (simp_all add: that pget_Inr)
  then show ?case unfolding token_loop.simps
    by (intro keeps_value keeps_snd [OF match_token_kept [OF Suc.prems]]) simp
qed (simp add: keeps_def)

section \<open>Commands\<close>

lemma collect_kept: "Q s \<Longrightarrow> kept Q (collect_command_code ev s)"
  unfolding collect_command_code_def by (rule on_buff_opt_kept)

lemma mark_kept: "Q s \<Longrightarrow> kept Q (Some (mark_checkpoint s))"
  unfolding mark_checkpoint_def by (rule on_buff_kept)

lemmas steps_kept = keeps_shell [OF set_command_code_kept] keeps_shell [OF collect_kept] keeps_shell [OF mark_kept]
  keeps_shell [OF sub_options_kept] keeps_shell [OF on_cli_kept] keeps_shell [OF on_cli_opt_kept]
  keeps_shell [OF invoke_handler_kept] keeps_shell [OF mode_enter_kept] keeps_shell [OF on_buff_opt_kept]
  keeps_shell [OF on_buff_kept]

lemma show_brief_kept: "invoke_kept Q I \<Longrightarrow> Q s \<Longrightarrow> kept_snd Q (show_brief_command ev I parent p s)"
  unfolding show_brief_command_def
  by (intro keeps_option keeps_Inl keeps_value [of "Some (pget h q)" for h q] keeps_if steps_kept keeps_Inr) simp_all

lemma sub_options_command_kept: "Q s \<Longrightarrow> kept_snd Q (sub_options_command ev parent s)"
  unfolding sub_options_command_def
  by (intro keeps_option keeps_Inl keeps_value [of "Some (pget h q)" for h q] steps_kept keeps_if keeps_Inr)
    (auto dest: params_frame)

lemma mode_command_kept: "invoke_kept Q I \<Longrightarrow> Q s \<Longrightarrow> kept_snd Q (mode_command ev I parent eod s)"
  unfolding mode_command_def
  by (rule keeps_value, intro keeps_option keeps_Inl keeps_value [of "Some (pget h q)" for h q] steps_kept keeps_Inr) auto

lemma plain_command_kept: "invoke_kept Q I \<Longrightarrow> Q s \<Longrightarrow> kept_snd Q (plain_command ev I p eod s)"
proof -
  assume a: "invoke_kept Q I" "Q s"
  have "kept Q (if b then obind (Some (pget (params s) p)) (\<lambda>c.
      obind (Some (set_command_code (p_CMDCODE c) s)) (\<lambda>s. collect_command_code ev s)) else Some (Inr s))" for b
    by (intro keeps_if keeps_value [of "Some (pget h q)" for h q] steps_kept collect_kept keeps_Inr) (simp_all add: a)
  then show ?thesis unfolding plain_command_def
    by (intro keeps_value [of "get_current_branch_hook h q" for h q] keeps_shell steps_kept keeps_Inr) (simp_all add: a invoke_handler_kept)
qed

lemma complete_command_kept: "invoke_kept Q I \<Longrightarrow> Q s \<Longrightarrow> kept_snd Q (complete_command ev I parent p eod s)"
  unfolding complete_command_def Let_def
  by (intro keeps_if show_brief_kept sub_options_command_kept mode_command_kept plain_command_kept
      keeps_shell [OF simple_kept(2)] keeps_Inr) simp_all

lemma build_tlv_buffer_kept:
  assumes "invoke_kept Q I" "Q s"
  shows "kept_snd Q (build_tlv_buffer ev I off n s)"
proof -
  have "kept_snd Q (case (wk_status w, wk_param w) of
              (COMPLETE, Some p) \<Rightarrow>
                obind (Some (pget (params s) p)) (\<lambda>c.
                  if p_callback c = None
                  then Some (Inr (INCOMPLETE_COMMAND, say ''Error : Incomplete Command'' s))
                  else complete_command ev I (wk_parent w) p (wk_mode w) s)
            | _ \<Rightarrow>
                obind (Some (error_message w off s)) (\<lambda>m. Some (Inr (wk_status w, say m s))))" if "Q s" for w s
    unfolding prod.case
    by (intro keeps_status keeps_option keeps_value keeps_if keeps_Inr complete_command_kept assms(1)) (simp_all add: that)
  then show ?thesis unfolding build_tlv_buffer_def
    by (intro keeps_option keeps_Inl keeps_snd [OF token_loop_kept [OF assms(2)]]) (simp only: prod.case)
qed

lemma after_command_kept: "Q s \<Longrightarrow> kept Q (Some (after_command s))"
  unfolding after_command_def Let_def by (intro keeps_res_value keeps_res_if on_buff_kept) simp_all

lemma do_command_kept: "invoke_kept Q I \<Longrightarrow> Q s \<Longrightarrow> kept_snd Q (do_command ev I n s)"
  unfolding do_command_def Let_def
  by (intro steps_kept keeps_snd [OF build_tlv_buffer_kept], auto dest: params_frame)
    (auto intro!: keeps_if keeps_value [of "get_current_branch_hook h q" for h q] keeps_Inl keeps_Inr steps_kept dest: params_frame)

lemma parse_lines_kept: "invoke_kept Q I \<Longrightarrow> Q s \<Longrightarrow> kept Q (parse_lines ev I ls s)"
proof (induction ls arbitrary: s)
  case (Cons l ls)
  have q: "Q ((say t s)\<lparr>sh_cli := (sh_cli s)\<lparr>cl_tokens := ts\<rparr>\<rparr>)" for t ts
    by (rule quiet [OF Cons.prems(2)]) (simp_all add: say_def)
  have t: "kept Q (obind (build_tlv_buffer ev I 0 m s1) (\<lambda>(_, s). obind (Some (after_command s)) (parse_lines ev I ls)))"
    if "Q s1" for m s1
    by (rule keeps_snd [OF build_tlv_buffer_kept [OF Cons.prems(1) that]])
      (simp only: prod.case, intro keeps_shell [OF after_command_kept] Cons.IH Cons.prems(1))
  show ?case unfolding parse_lines.simps
    by (intro keeps_value [of "Some (tokenizer b d ts)" for b d ts] keeps_prod keeps_shell [OF on_buff_kept] q t)
qed (simp add: keeps_def)

lemma parse_file_kept: "invoke_kept Q I \<Longrightarrow> Q s \<Longrightarrow> kept Q (parse_file ev I f s)"
  unfolding parse_file_def
  by (intro fopen_kept keeps_Inr keeps_shell [OF on_buff_kept] keeps_shell [OF parse_lines_kept]) simp_all

lemma dispatch_line_kept:
  assumes "parse_kept Q P" "invoke_kept Q I" "Q s"
  shows "kept_last Q (dispatch_line ev P I n s)"
proof -
  have d: "kept_last Q (obind m (\<lambda>s. Some (Inr (x, y, s))))" if "kept Q m" for m x y
    by (rule keeps_shell [OF that]) (simp add: keeps_def)
  have b: "kept_last Q (obind m (\<lambda>(x, s). Some (Inr (x, y, s))))" if "kept_snd Q m" for m y
    by (rule keeps_snd [OF that]) (simp add: keeps_def)
  have t: "kept Q (obind (run_test_case ev P f k s) (\<lambda>(_, s). Some (Inr s)))" for f k
    by (rule keeps_snd [OF run_test_case_kept [OF assms(1,3)]]) (simp add: keeps_def)
  show ?thesis
    unfolding dispatch_line_def Let_def
    by (rule keeps_value, intro keeps_if keeps_value [of "get_current_branch_hook h q" for h q]
        keeps_value [of "Some (r :: bool res)" for r] keeps_value [of "Some (r :: string res)" for r] d b t
        do_command_kept invoke_handler_kept exit_kept end_kept simple_kept parse_file_kept build_tlv_buffer_kept keeps_Inr assms)
      (simp_all add: assms)
qed

lemma parse_input_body_kept:
  assumes "parse_kept Q P" "invoke_kept Q I"
  shows "parse_kept Q (parse_input_body ev P I)"
  unfolding parse_kept_def parse_input_body_def
  by (intro allI impI, rule keeps_value, simp only: prod.case split_beta Let_def,
      intro keeps_if keeps_Inr keeps_last [OF dispatch_line_kept [OF assms]], simp_all)
    (intro keeps_shell [OF after_command_kept]; simp add: keeps_def)

theorem parser_keeps: "invoke_kept Q (invoke n ev) \<and> parse_kept Q (parse_input_cmd n ev)"
proof (induction n)
  case 0
  then show ?case by (simp add: invoke_kept_def parse_kept_def keeps_def invoke.simps parse_input_cmd.simps)
next
  case (Suc n)
  then have "parse_kept Q (parse_input_cmd (Suc n) ev)"
    using parse_input_body_kept [of "parse_input_cmd n ev" "invoke n ev"]
    by (simp add: parse_kept_def parse_input_cmd.simps)
  moreover have "invoke_kept Q (invoke (Suc n) ev)"
    using Suc by (simp add: invoke_kept_def invoke.simps run_callback_kept)
  ultimately show ?case by simp
qed

lemma recorded_kept: "Q s \<Longrightarrow> kept Q (Some (record_command c s))"
  by (auto simp: keeps_def record_command_def split: if_splits)

theorem shell_turn_keeps: "shell_turn n ev s = Some (Inr s') \<Longrightarrow> Q s \<Longrightarrow> Q s'"
proof -
  assume t: "shell_turn n ev s = Some (Inr s')" "Q s"
  have "kept Q (shell_turn n ev s)"
    unfolding shell_turn_def Let_def
    by (intro keeps_option keeps_Inl, simp only: split_beta, intro keeps_value [of "Some (r :: nat res)" for r] keeps_if
        keeps_value [of "Some (r :: string res)" for r] keeps_Inr keeps_Inl
        keeps_last [OF parse_keptD [OF conjunct2 [OF parser_keeps]]])
      (auto simp: t(2) intro!: keeps_if keeps_value [of "Some (r :: nat res)" for r]
        keeps_value [of "Some (r :: string res)" for r] keeps_Inr keeps_shell [OF recorded_kept])
  with t(1) show ?thesis by (simp add: keeps_def)
qed

end

end
