(* ===== verification/SessionProps.thy ===== *)
theory SessionProps
  imports ServerProps TestAppProps ShellInvariant
begin

text \<open>
  Sessions of the server application: the turns of the shell and the steps of the servers' threads
  in any order. What holds in all of them: the command line stays well-typed, and every controller
  that a command can find is one that its own operations have led to.
\<close>

section \<open>The command line stays well-typed\<close>

lemma memcpy_same_length: "memcpy dst off src so n = Inr v \<Longrightarrow> length v = length dst"
  by (auto simp: memcpy_def length_blit split: if_splits)

lemma set_leaf_value_ok:
  assumes "set_leaf_value tok l = Inr l'" "length (lf_value l) = 64"
  shows "length (lf_value l') = 64 \<and> nul \<in> set (lf_value l') \<and>
    l'\<lparr>lf_value := v\<rparr> = l\<lparr>lf_value := v\<rparr>"
proof -
  obtain b where b: "c_strncpy (lf_value l) tok (min (length tok) LEAF_VALUE_HOLDER_SIZE) = Inr b"
      "length tok < length b" "l' = l\<lparr>lf_value := b[length tok := nul]\<rparr>"
    using assms(1) by (auto simp: set_leaf_value_def store_def split: if_splits)
  have "length b = 64" using b(1) assms(2) by (auto simp: c_strncpy_def Let_def dest: memcpy_same_length)
  with b show ?thesis by (auto intro: set_update_memI)
qed

text \<open>The tree is the one the shell began with, up to the values of leaves, and well-typed.\<close>

definition typed_shell :: "param_heap \<Rightarrow> (pptr \<Rightarrow> nat) \<Rightarrow> 'a shell \<Rightarrow> bool" where
  "typed_shell h rk s \<longleftrightarrow> same_tree h (params s) \<and> shell_ok rk s"

lemma typed_shell_update:
  assumes "typed_shell h rk s" "params s p = Some c" "cleared c' = cleared c" "value_ok c'"
  shows "typed_shell h rk (s\<lparr>sh_cli := (sh_cli s)\<lparr>cl_params := (params s)(p \<mapsto> c')\<rparr>\<rparr>)"
proof -
  have same: "same_tree (params s) ((params s)(p \<mapsto> c'))"
    using same_tree_update [where h = "params s" and p = p, OF assms(2,3)] .
  show ?thesis using assms(1,4) same_tree_trans [OF _ same] tree_ok_same [OF same]
    by (auto simp: typed_shell_def shell_ok_def values_ok_def)
qed

lemma typed_shell_invariant:
  assumes "app_quiet ev"
  shows "shell_invariant (typed_shell h rk) ev"
proof
  fix s s' :: "'a shell"
  assume "typed_shell h rk s" "params s' = params s" "sh_code s' = sh_code s" "sh_app s' = sh_app s"
  then show "typed_shell h rk s'" by (simp add: typed_shell_def shell_ok_def)
next
  fix s :: "'a shell" and q c l tok l'
  assume s: "typed_shell h rk s" "params s q = Some c" "p_kind c = LeafP l" "set_leaf_value tok l = Inr l'"
  then have "length (lf_value l) = 64" by (fastforce simp: typed_shell_def shell_ok_def values_ok_def value_ok_def)
  note l' = set_leaf_value_ok [OF s(4) this]
  show "typed_shell h rk (s\<lparr>sh_cli := (sh_cli s)\<lparr>cl_params := (params s)(q \<mapsto> c\<lparr>p_kind := LeafP l'\<rparr>)\<rparr>\<rparr>)"
    using l' s(3) by (intro typed_shell_update [OF s(1,2)]) (simp_all add: cleared_def value_ok_def)
next
  fix s :: "'a shell" and q c c'
  assume s: "typed_shell h rk s" "params s q = Some c" "clear_leaf_value c = Inr c'"
  show "typed_shell h rk (s\<lparr>sh_cli := (sh_cli s)\<lparr>cl_params := (params s)(q \<mapsto> c')\<rparr>\<rparr>)"
    using clear_leaf_value_cleared [OF s(3)] by (intro typed_shell_update [OF s(1,2)]) auto
next
  fix s s' :: "'a shell" and k
  assume "typed_shell h rk s" "set_command_code k s = Inr s'"
  then show "typed_shell h rk s'" using set_command_code_calm [of k s s']
    by (simp add: typed_shell_def shell_ok_def calm_def)
next
  fix s s' :: "'a shell" and n p m
  assume "typed_shell h rk s" "ev_callback ev n p m s = Inr s'"
  then show "typed_shell h rk s'" using assms by (simp add: typed_shell_def shell_ok_def app_quiet_def)
next
  fix s s' :: "'a shell" and n p
  assume "typed_shell h rk s" "ev_disp ev n p s = Inr s'"
  then show "typed_shell h rk s'" using assms by (simp add: typed_shell_def shell_ok_def app_quiet_def)
qed

interpretation typed: shell_invariant "typed_shell (cl_params app_cli) app_rank" "app_env mc junk u" for mc junk u
  by (rule typed_shell_invariant [OF app_env_quiet])

section \<open>Controllers stay in states that their operations reach\<close>

text \<open>The memory that controllers are built on has no clients and no threads yet.\<close>

definition fresh_machine :: "machine \<Rightarrow> bool" where
  "fresh_machine mc \<longleftrightarrow> (\<forall>p. heap (mc_server mc p) = Map.empty \<and> acc_threads (mc_server mc p) = [])"

definition servers_ok :: "app \<Rightarrow> bool" where
  "servers_ok p \<longleftrightarrow>
     (\<forall>a c. ctrl_heap p a = Some c \<longrightarrow> a \<in> set (tcp_server_lst p) \<and> reachable c \<and> ctrl_alive c) \<and>
     distinct (tcp_server_lst p) \<and> (\<forall>a \<in> set (tcp_server_lst p). a < next_ctrl p)"

lemma servers_ok_none: "servers_ok no_servers"
  by (simp add: servers_ok_def no_servers_def)

text \<open>Results of handlers that have the invariant.\<close>

abbreviation serves :: "app shell res \<Rightarrow> bool" where
  "serves r \<equiv> (\<forall>s'. r = Inr s' \<longrightarrow> servers_ok (sh_app s'))"

lemma serves_rbind: "(\<And>v. m = Inr v \<Longrightarrow> serves (k v)) \<Longrightarrow> serves (rbind m k)"
  by auto

lemma serves_say: "servers_ok (sh_app s) \<Longrightarrow> serves (Inr (say l s))"
  by (simp add: say_def)

lemma serves_mode:
  "serves x \<Longrightarrow> serves y \<Longrightarrow> serves z \<Longrightarrow> serves (case eod of CONFIG_ENABLE \<Rightarrow> x | CONFIG_DISABLE \<Rightarrow> y | _ \<Rightarrow> z)"
  by (cases eod) simp_all

lemma serves_if: "(c \<Longrightarrow> serves x) \<Longrightarrow> (\<not> c \<Longrightarrow> serves y) \<Longrightarrow> serves (if c then x else y)"
  by simp

lemma serves_option: "serves x \<Longrightarrow> (\<And>v. serves (f v)) \<Longrightarrow> serves (case v of None \<Rightarrow> x | Some v \<Rightarrow> f v)"
  by (cases v) simp_all

lemma serves_Inl: "serves (Inl e)"
  by simp

lemma servers_ok_set:
  assumes "servers_ok (sh_app s)" "ctrl_heap (sh_app s) a = Some c" "c' = c \<or> server_step c c'" "ctrl_alive c'"
  shows "servers_ok (sh_app (set_ctrl a c' s))"
  using assms by (auto simp: servers_ok_def set_ctrl_def intro: reachable.step)

lemma servers_ok_free:
  "servers_ok p \<Longrightarrow> servers_ok (p\<lparr>ctrl_heap := (ctrl_heap p)(a := None)\<rparr>)"
  by (simp add: servers_ok_def)

lemma app_lookup_found: "app_lookup nm s = Inr (Some a) \<Longrightarrow> ctrl_heap (sh_app s) a \<noteq> None"
proof -
  have "TcpServer_lookup h as n = Inr (Some a) \<Longrightarrow> h a \<noteq> None" for h as n
    by (induction as) (auto split: option.splits if_splits)
  then show "app_lookup nm s = Inr (Some a) \<Longrightarrow> ctrl_heap (sh_app s) a \<noteq> None"
    by (auto simp: app_lookup_def split: option.splits)
qed

text \<open>The command runs on a live controller in a reachable state, or prints a message.\<close>

lemma serves_on_server:
  assumes "servers_ok (sh_app s)"
    and "\<And>c a. ctrl_heap (sh_app s) a = Some c \<Longrightarrow> ctrl_alive c \<Longrightarrow> serves (f c s a)"
  shows "serves (on_server msg nm f s)"
  unfolding on_server_def
proof (rule serves_rbind)
  fix v
  assume v: "app_lookup nm s = Inr v"
  show "serves (case v of None \<Rightarrow> Inr (say msg s)
      | Some a \<Rightarrow> (case ctrl_heap (sh_app s) a of None \<Rightarrow> Inl UseAfterFree | Some c \<Rightarrow> f c s a))"
    using assms by (auto simp: servers_ok_def say_def split: option.splits)
qed

text \<open>The operations of the commands keep the controller alive, except stopping it.\<close>

lemma operations_alive:
  "Start cr c = Inr c' \<Longrightarrow> ctrl_alive c' = ctrl_alive c"
  "ctrl_alive (StopConnectionAcceptingSvc c) = ctrl_alive c"
  "StartConectionAcceptionSvc fd cr c = Inr c' \<Longrightarrow> ctrl_alive c' = ctrl_alive c"
  "StopClientSvcMgr c = Inr c' \<Longrightarrow> ctrl_alive c' = ctrl_alive c"
  "CreateActiveAClient ip port found junk c = Inr c' \<Longrightarrow> ctrl_alive c' = ctrl_alive c"
  by (auto simp: Start_def StartTcpConnectionAcceptorThread_def StopConnectionAcceptingSvc_def
      StartConectionAcceptionSvc_def StopClientSvcMgr_def CreateActiveAClient_def AddClienttoDb_def Let_def
      split: option.splits if_splits sum.splits)

lemma create_server_serves:
  assumes "fresh_machine mc" "servers_ok (sh_app s)"
  shows "serves (create_server mc a s)"
  unfolding create_server_def Let_def
proof (intro serves_rbind)
  fix found
  assume "app_lookup (la_server_name a) s = Inr found"
  let ?p = "sh_app s"
  let ?new = "TcpServerController_new (mc_server mc ?p) (network_convert_ip_p_to_n (la_ip_addr a)) (la_port_no a)
    (the (la_server_name a)) (mc_socket mc ?p)"
  have "serves (rbind ?new (\<lambda>c. Inr (s\<lparr>sh_app := ?p\<lparr>tcp_server_lst := tcp_server_lst ?p @ [next_ctrl ?p],
      ctrl_heap := (ctrl_heap ?p)(next_ctrl ?p \<mapsto> SetServerNotifCallbacks AppFn AppFn AppFn c),
      next_ctrl := Suc (next_ctrl ?p)\<rparr>\<rparr>)))"
  proof (rule serves_rbind)
    fix c
    assume c: "?new = Inr c"
    then have "ctrl_alive c" by (auto simp: TcpServerController_new_def)
    moreover have "reachable c" using reachable.init [OF c] assms(1) by (simp add: fresh_machine_def)
    ultimately have "reachable (SetServerNotifCallbacks AppFn AppFn AppFn c)"
        "ctrl_alive (SetServerNotifCallbacks AppFn AppFn AppFn c)"
      by (auto intro: reachable.step server_step.set_callbacks) (simp add: SetServerNotifCallbacks_def)
    then show "serves (Inr (s\<lparr>sh_app := ?p\<lparr>tcp_server_lst := tcp_server_lst ?p @ [next_ctrl ?p],
        ctrl_heap := (ctrl_heap ?p)(next_ctrl ?p \<mapsto> SetServerNotifCallbacks AppFn AppFn AppFn c),
        next_ctrl := Suc (next_ctrl ?p)\<rparr>\<rparr>))"
      using assms(2) by (auto simp: servers_ok_def less_Suc_eq)
  qed
  then show "serves (if found \<noteq> None then Inr (say ''Error: Tcp Server Already Exits'' s) else
      rbind ?new (\<lambda>c. Inr (s\<lparr>sh_app := ?p\<lparr>tcp_server_lst := tcp_server_lst ?p @ [next_ctrl ?p],
      ctrl_heap := (ctrl_heap ?p)(next_ctrl ?p \<mapsto> SetServerNotifCallbacks AppFn AppFn AppFn c),
      next_ctrl := Suc (next_ctrl ?p)\<rparr>\<rparr>)))"
    using serves_say [OF assms(2)] by simp
qed

lemma config_switch_serves:
  assumes "fresh_machine mc" "servers_ok (sh_app s)"
  shows "serves (config_switch mc code a eod s)"
proof -
  have set: "serves (Inr (set_ctrl p c' (say l s)))" "serves (Inr (set_ctrl p c' s))" "serves (Inr (say l (set_ctrl p c' s)))"
    if "ctrl_heap (sh_app s) p = Some c" "c' = c \<or> server_step c c'" "ctrl_alive c'" for p c c' l
    using servers_ok_set [OF assms(2) that] by (simp_all add: say_def set_ctrl_def)
  have free: "serves (rbind (Stop c) (\<lambda>_. Inr (s\<lparr>sh_app := (sh_app s)\<lparr>ctrl_heap := (ctrl_heap (sh_app s))(p := None)\<rparr>\<rparr>)))" for c p
    using servers_ok_free [OF assms(2)] by (auto intro!: serves_rbind)
  have same: "serves (Inr s)" using assms(2) by simp
  show ?thesis
    unfolding config_switch_def StartClientSvcMgr_def
    by (intro serves_if create_server_serves [OF assms] serves_on_server [OF assms(2)] serves_mode serves_rbind serves_option free same
        serves_say [OF assms(2)] set serves_Inl)
      (auto simp: operations_alive intro: server_step.intros servers_ok_free [OF assms(2)])
qed

lemma handlers_serve:
  assumes "fresh_machine mc" "servers_ok (sh_app s)"
  shows "serves (config_tcp_server_handler mc eod s)" "serves (show_tcp_server_handler s)"
proof -
  show "serves (config_tcp_server_handler mc eod s)"
    unfolding config_tcp_server_handler_def by (intro serves_rbind config_switch_serves assms)
  show "serves (show_tcp_server_handler s)"
    unfolding show_tcp_server_handler_def
    using assms(2) by (intro serves_rbind serves_if serves_on_server) (auto split: prod.splits)
qed

lemma servers_invariant:
  assumes "fresh_machine mc"
  shows "shell_invariant (\<lambda>s. servers_ok (sh_app s)) (app_env mc junk u)"
proof
  fix s s' :: "app shell" and k
  assume "servers_ok (sh_app s)" "set_command_code k s = Inr s'"
  then show "servers_ok (sh_app s')" unfolding set_command_code_def by auto
next
  fix s s' :: "app shell" and n p m
  assume s: "servers_ok (sh_app s)" "ev_callback (app_env mc junk u) n p m s = Inr s'"
  consider "config_tcp_server_handler mc m s = Inr s'" | "show_tcp_server_handler s = Inr s'"
    using s(2) unfolding app_env_def by (auto split: if_splits)
  then show "servers_ok (sh_app s')" using handlers_serve [OF assms s(1)] by cases blast+
next
  fix s s' :: "app shell" and n p
  assume "ev_disp (app_env mc junk u) n p s = Inr s'"
  then show "servers_ok (sh_app s')" by (simp add: app_env_def)
qed simp_all

section \<open>Sessions\<close>

text \<open>
  From the start of the shell on, the user's lines and the steps of the threads of the servers come
  in any order. What the machine answers, and how long a line may run, can differ from turn to turn;
  stopping a server is a command, no step of a thread.
\<close>

inductive app_session :: "app shell \<Rightarrow> bool" where
  begins: "main_shell = Some (Inr c) \<Longrightarrow> app_session (session c files l no_servers)"
| typed: "app_session s \<Longrightarrow> app_session (s\<lparr>sh_stdin := input\<rparr>)"
| descriptors: "app_session s \<Longrightarrow> app_session (s\<lparr>sh_free_fds := k\<rparr>)"
| turn: "app_session s \<Longrightarrow> fresh_machine mc \<Longrightarrow> shell_turn n (app_env mc junk u) s = Some (Inr s') \<Longrightarrow> app_session s'"
| thread: "app_session s \<Longrightarrow> ctrl_heap (sh_app s) a = Some c \<Longrightarrow> server_step c c' \<Longrightarrow> ctrl_alive c' \<Longrightarrow>
    app_session (set_ctrl a c' s)"

lemma session_typed: "app_session s \<Longrightarrow> typed_shell (cl_params app_cli) app_rank s"
proof (induction rule: app_session.induct)
  case (begins c files l)
  have "c = app_cli" using trans [OF begins [symmetric] conjunct1 [OF app_cli]] by (simp only: option.inject sum.inject)
  with session_at_root [of files l no_servers] show ?case
    using app_shell_ok by (simp add: typed_shell_def app_at_root_def)
next
  case (turn s mc n junk u s')
  from typed.shell_turn_keeps [OF turn(3,4)] show ?case .
qed (simp_all add: typed_shell_def shell_ok_def set_ctrl_def)

lemma session_servers_ok: "app_session s \<Longrightarrow> servers_ok (sh_app s)"
proof (induction rule: app_session.induct)
  case (begins c files l)
  then show ?case by (simp add: session_def servers_ok_none)
next
  case (turn s mc n junk u s')
  from shell_invariant.shell_turn_keeps [OF servers_invariant [OF turn(2)] turn(3,4)] show ?case .
next
  case (thread s a c c')
  then show ?case by (intro servers_ok_set) auto
qed simp_all

end
