(* ===== verification/Samples.thy ===== *)
theory Samples
  imports GlThread UtParser CmdParser
begin

text \<open>
  The sample programs of the command-line library (\<^verbatim>\<open>main1.c\<close> to \<^verbatim>\<open>main4.c\<close>
  and its \<^verbatim>\<open>testapp.c\<close>): the handlers they register and the trees they build before they
  start the shell; what \<^verbatim>\<open>cmdtlv.h\<close> has for handlers; and the sample of the linked list
  (\<^verbatim>\<open>gluethread/test.c\<close>). A program's handlers are numbered, its static parameters are
  addresses behind those of the library. What a validation callback prints is left out.
\<close>

section \<open>Leaves for handlers\<close>

text \<open>The macros that copy an identifier or a value into a block of the handler.\<close>

definition tlv_copy_leaf_id :: "tlv_struct \<Rightarrow> string \<Rightarrow> string res" where
  "tlv_copy_leaf_id t dst =
     rbind (c_strlen (tlv_leaf_id t)) (\<lambda>n.
     rbind (c_strncpy dst (tlv_leaf_id t) n) (\<lambda>dst. store dst n nul))"

definition tlv_copy_leaf_value :: "tlv_struct \<Rightarrow> string \<Rightarrow> string res" where
  "tlv_copy_leaf_value t dst =
     rbind (c_strlen (tlv_value t)) (\<lambda>n.
     rbind (c_strncpy dst (tlv_value t) n) (\<lambda>dst. store dst n nul))"

definition print_tlv_content :: "tlv_struct \<Rightarrow> string list" where
  "print_tlv_content t =
     [''tlv->leaf_type = '' @ get_str_leaf_type (tlv_leaf_type t),
      ''tlv->leaf_id   = '' @ cstr (tlv_leaf_id t), ''tlv->value     = '' @ cstr (tlv_value t)]"

definition dump_tlv_serialized_buffer :: "ser_buff \<Rightarrow> string list res" where
  "dump_tlv_serialized_buffer b =
     rbind (EXTRACT_CMD_CODE b) (\<lambda>code.
     rbind (TLV_LOOP (Some b)) (\<lambda>ts.
       Inr ((''cmd code = '' @ print_d code) # concat (map (\<lambda>t. print_tlv_content t @ [[]]) ts))))"

section \<open>The handlers of the samples\<close>

definition CMDODE_SHOW_NODE :: int where "CMDODE_SHOW_NODE = 1"
definition CMDODE_SHOW_NODE_LOOPBACK :: int where "CMDODE_SHOW_NODE_LOOPBACK = 2"
definition CMDODE_CONFIG_NODE_LOOPBACK :: int where "CMDODE_CONFIG_NODE_LOOPBACK = 3"

definition node_callback_handler :: "'a shell \<Rightarrow> 'a shell" where
  "node_callback_handler = say ''node_callback_handler() is called ...''"

text \<open>The validations accept every value.\<close>

definition validate_node_name :: "string \<Rightarrow> bool" where "validate_node_name value = True"

definition validate_loopback_address :: "string \<Rightarrow> bool" where "validate_loopback_address value = True"

definition node_validations :: "nat \<Rightarrow> string \<Rightarrow> bool" where
  "node_validations n v = (if n = 0 then validate_node_name v else validate_loopback_address v)"

lemma node_validations: "node_validations n v"
  by (simp add: node_validations_def validate_node_name_def validate_loopback_address_def)

text \<open>\<^verbatim>\<open>main2.c\<close> only announces the call.\<close>

definition main2_loopback_callback_handler :: "'a shell \<Rightarrow> 'a shell" where
  "main2_loopback_callback_handler = say ''node_loopback_callback_handler() is called ...''"

text \<open>The name of the node and the address, where the command has them.\<close>

fun node_leaves :: "tlv_struct list \<Rightarrow> string option \<Rightarrow> string option \<Rightarrow> string option \<times> string option" where
  "node_leaves [] node_name lo_address = (node_name, lo_address)"
| "node_leaves (t # ts) node_name lo_address =
     (let i = cstr (tlv_leaf_id t); v = cstr (tlv_value t) in
      if strn_prefix i ''node_name'' then node_leaves ts (Some v) lo_address
      else if strn_prefix i ''lo_address'' then node_leaves ts node_name (Some v)
      else node_leaves ts node_name lo_address)"

definition main3_loopback_callback_handler :: "'a shell \<Rightarrow> 'a shell res" where
  "main3_loopback_callback_handler s =
     rbind (EXTRACT_CMD_CODE (tlv_buff s)) (\<lambda>code.
     rbind (TLV_LOOP (Some (tlv_buff s))) (\<lambda>ts.
       let (node, lo) = node_leaves ts None None;
           s = say (''cmd_code = '' @ print_d code) (say ''node_loopback_callback_handler() is called ...'' s)
       in Inr (if code = CMDODE_SHOW_NODE_LOOPBACK
               then say (''node_name = '' @ percent_s node @ ''. lo-address = '' @ percent_s lo) s
               else s)))"

definition main4_loopback_callback_handler :: "op_mode \<Rightarrow> 'a shell \<Rightarrow> 'a shell res" where
  "main4_loopback_callback_handler eod s =
     rbind (EXTRACT_CMD_CODE (tlv_buff s)) (\<lambda>code.
     rbind (TLV_LOOP (Some (tlv_buff s))) (\<lambda>ts.
       let (node, lo) = node_leaves ts None None;
           s = say (''cmd_code = '' @ print_d code) (say ''node_loopback_callback_handler() is called ...'' s);
           found = ''node_name = '' @ percent_s node @ ''. lo-address = '' @ percent_s lo
       in Inr (if code = CMDODE_SHOW_NODE_LOOPBACK then say found s
               else if code = CMDODE_CONFIG_NODE_LOOPBACK
               then say (found @ '', op_code = '' @
                      (if eod = CONFIG_ENABLE then ''CONFIG_ENABLE'' else ''CONFIG_DISABLE'')) s
               else s)))"

text \<open>\<^verbatim>\<open>testapp.c\<close>: two handlers dump the buffer, one names the device.\<close>

definition list_vlans :: "'a shell \<Rightarrow> 'a shell" where
  "list_vlans s = s\<lparr>sh_out := sh_out s @ map dec_digits [1..<11]\<rparr>"

definition show_ip_igmp_groups_handler :: "'a shell \<Rightarrow> 'a shell res" where
  "show_ip_igmp_groups_handler s =
     rbind (dump_tlv_serialized_buffer (tlv_buff s)) (\<lambda>ls. Inr (s\<lparr>sh_out := sh_out s @ ls\<rparr>))"

definition mtrace_handler :: "'a shell \<Rightarrow> 'a shell res" where
  "mtrace_handler s =
     rbind (dump_tlv_serialized_buffer (tlv_buff s)) (\<lambda>ls. Inr (s\<lparr>sh_out := sh_out s @ ls\<rparr>))"

definition config_router_name_handler :: "'a shell \<Rightarrow> 'a shell res" where
  "config_router_name_handler = on_cli (set_device_name (Some ''router2''))"

text \<open>The C library does not say what a number too long for an \<^verbatim>\<open>int\<close> gives; it is refused.\<close>

definition user_vlan_validation_callback :: "string \<Rightarrow> bool" where
  "user_vlan_validation_callback vlan_id =
     (case atoi vlan_id of Inr vlan_no \<Rightarrow> vlan_no > 0 \<and> vlan_no < 4096 | Inl _ \<Rightarrow> False)"

section \<open>Their trees\<close>

text \<open>The static parameters of the programs; no two programs run together.\<close>

definition smp_node :: pptr where "smp_node = 56"
definition smp_node_name :: pptr where "smp_node_name = 57"
definition smp_loopback :: pptr where "smp_loopback = 58"
definition smp_loopback_address :: pptr where "smp_loopback_address = 59"
definition smp_config_node :: pptr where "smp_config_node = 60"
definition smp_config_node_name :: pptr where "smp_config_node_name = 61"
definition smp_config_loopback :: pptr where "smp_config_loopback = 62"
definition smp_config_loopback_address :: pptr where "smp_config_loopback_address = 63"
definition smp_no :: pptr where "smp_no = 52"

definition smp_cmsh :: pptr where "smp_cmsh = 56"
definition smp_ip :: pptr where "smp_ip = 57"
definition smp_ipv6 :: pptr where "smp_ipv6 = 58"
definition smp_config_router :: pptr where "smp_config_router = 59"
definition smp_config_router_name :: pptr where "smp_config_router_name = 60"
definition smp_igmp :: pptr where "smp_igmp = 61"
definition smp_igmp_config :: pptr where "smp_igmp_config = 62"
definition smp_config_router_name_name :: pptr where "smp_config_router_name_name = 63"
definition smp_groups :: pptr where "smp_groups = 64"
definition smp_groups_vlan :: pptr where "smp_groups_vlan = 65"
definition smp_groups_vlan_vlan :: pptr where "smp_groups_vlan_vlan = 66"
definition smp_group_ip :: pptr where "smp_group_ip = 67"
definition smp_group_ip_vlan :: pptr where "smp_group_ip_vlan = 68"
definition smp_group_ip_vlan_id :: pptr where "smp_group_ip_vlan_id = 69"
definition smp_mtrace :: pptr where "smp_mtrace = 70"
definition smp_source :: pptr where "smp_source = 71"
definition smp_source_ip :: pptr where "smp_source_ip = 72"
definition smp_destination :: pptr where "smp_destination = 73"
definition smp_dest_ip :: pptr where "smp_dest_ip = 74"
definition smp_group :: pptr where "smp_group = 75"
definition smp_mtrace_group_ip :: pptr where "smp_mtrace_group_ip = 76"
definition smp_group2 :: pptr where "smp_group2 = 77"
definition smp_group_ip2 :: pptr where "smp_group_ip2 = 78"

lemmas smp_defs = smp_node_def
  smp_node_name_def
  smp_loopback_def
  smp_loopback_address_def
  smp_config_node_def
  smp_config_node_name_def
  smp_config_loopback_def
  smp_config_loopback_address_def
  smp_no_def
  smp_cmsh_def
  smp_ip_def
  smp_ipv6_def
  smp_config_router_def
  smp_config_router_name_def
  smp_igmp_def
  smp_igmp_config_def
  smp_config_router_name_name_def
  smp_groups_def
  smp_groups_vlan_def
  smp_groups_vlan_vlan_def
  smp_group_ip_def
  smp_group_ip_vlan_def
  smp_group_ip_vlan_id_def
  smp_mtrace_def
  smp_source_def
  smp_source_ip_def
  smp_destination_def
  smp_dest_ip_def
  smp_group_def
  smp_mtrace_group_ip_def
  smp_group2_def
  smp_group_ip2_def

text \<open>A command, or a leaf with the numbers of its handler and its validation, registered at once.\<close>

definition smp_cmd :: "pptr \<Rightarrow> pptr \<Rightarrow> string \<Rightarrow> cmd_callback option \<Rightarrow> string \<Rightarrow> (param_heap \<Rightarrow> param_heap res) list" where
  "smp_cmd parent p name cb help = [init_cmd p name cb help, libcli_register_param (Some parent) p]"

definition smp_leaf ::
  "pptr \<Rightarrow> pptr \<Rightarrow> nat option \<Rightarrow> nat option \<Rightarrow> leaf_type_t \<Rightarrow> string \<Rightarrow> string \<Rightarrow> (param_heap \<Rightarrow> param_heap res) list" where
  "smp_leaf parent p cb uv ty lid help =
     [init_param p LEAF None (map_option app_callback cb) (map_option app_validation uv) ty (Some lid) help,
      libcli_register_param (Some parent) p]"

definition main2_steps :: "(param_heap \<Rightarrow> param_heap res) list" where
  "main2_steps =
     smp_cmd libcli_get_show_hook smp_node ''node'' None ''Help : node'' @
     smp_leaf smp_node smp_node_name (Some 0) (Some 0) LT_STRING ''node-name'' ''Help : Node name'' @
     [set_param_cmd_code smp_node_name CMDODE_SHOW_NODE] @
     smp_cmd smp_node_name smp_loopback ''loopback'' None ''Help : loopback'' @
     smp_leaf smp_loopback smp_loopback_address (Some 1) (Some 1) LT_IPV4 ''lo-address''
       ''Help : Node's loopback address'' @
     [set_param_cmd_code smp_node_name CMDODE_SHOW_NODE_LOOPBACK]"

definition main3_steps :: "(param_heap \<Rightarrow> param_heap res) list" where
  "main3_steps =
     smp_cmd libcli_get_show_hook smp_node ''node'' None ''Help : node'' @
     smp_leaf smp_node smp_node_name (Some 1) (Some 0) LT_STRING ''node_name'' ''Help : Node name'' @
     [set_param_cmd_code smp_node_name CMDODE_SHOW_NODE] @
     smp_cmd smp_node_name smp_loopback ''loopback'' None ''Help : node'' @
     smp_leaf smp_loopback smp_loopback_address (Some 1) (Some 1) LT_IPV4 ''lo_address''
       ''Help : Node's loopback address'' @
     [set_param_cmd_code smp_loopback_address CMDODE_SHOW_NODE_LOOPBACK]"

definition main4_steps :: "(param_heap \<Rightarrow> param_heap res) list" where
  "main4_steps =
     smp_cmd libcli_get_show_hook smp_node ''node'' None ''Help : node'' @
     smp_leaf smp_node smp_node_name (Some 0) (Some 0) LT_STRING ''node_name'' ''Help : Node name'' @
     [set_param_cmd_code smp_node_name CMDODE_SHOW_NODE] @
     smp_cmd smp_node_name smp_loopback ''loopback'' None ''Help : node'' @
     smp_leaf smp_loopback smp_loopback_address (Some 1) (Some 1) LT_IPV4 ''lo_address''
       ''Help : Node's loopback address'' @
     [set_param_cmd_code smp_loopback_address CMDODE_SHOW_NODE_LOOPBACK] @
     smp_cmd libcli_get_config_hook smp_config_node ''node'' None ''Help : node'' @
     smp_leaf smp_config_node smp_config_node_name None (Some 0) LT_STRING ''node_name'' ''Help : Node name'' @
     smp_cmd smp_config_node_name smp_config_loopback ''loopback'' None ''Help : node'' @
     smp_leaf smp_config_loopback smp_config_loopback_address (Some 1) (Some 1) LT_IPV4 ''lo_address''
       ''Help : Node's loopback address'' @
     [set_param_cmd_code smp_config_loopback_address CMDODE_CONFIG_NODE_LOOPBACK]"

definition MTRACE_SOURCE :: int where "MTRACE_SOURCE = 1"
definition MTRACE_SOURCE_DEST :: int where "MTRACE_SOURCE_DEST = 2"
definition MTRACE_SOURCE_DEST_GROUP :: int where "MTRACE_SOURCE_DEST_GROUP = 3"
definition MTRACE_SOURCE_GROUP :: int where "MTRACE_SOURCE_GROUP = 4"

definition testapp_show_steps :: "(param_heap \<Rightarrow> param_heap res) list" where
  "testapp_show_steps =
     smp_cmd libcli_get_root smp_cmsh ''cmsh'' None ''cmsh hidden commands'' @
     smp_cmd libcli_get_show_hook smp_ip ''ip'' None ''Internet Protocol(IP)'' @
     smp_cmd libcli_get_show_hook smp_ipv6 ''ipv6'' None ''Internet Protocol(IPV6)'' @
     smp_cmd libcli_get_config_hook smp_config_router ''router'' None ''Configuration Router'' @
     smp_cmd smp_config_router smp_config_router_name ''name'' None ''configure router name'' @
     smp_cmd smp_ip smp_igmp ''igmp'' None ''IGMP Protocol'' @
     smp_cmd smp_igmp smp_igmp_config ''configuration'' (Some (app_callback 0)) ''IGMP Protocol Configuration'' @
     smp_leaf smp_config_router_name smp_config_router_name_name (Some 2) None LT_STRING ''cons-name''
       ''Name of Console'' @
     smp_cmd smp_igmp smp_groups ''groups'' (Some (app_callback 0)) ''Ipv4 Group Address'' @
     smp_cmd smp_groups smp_groups_vlan ''vlan'' None ''vlan'' @
     [libcli_register_display_callback smp_groups_vlan 0] @
     smp_leaf smp_groups_vlan smp_groups_vlan_vlan (Some 0) (Some 0) LT_INT ''vlan-id'' ''Vlan id(1-4095)'' @
     smp_leaf smp_groups smp_group_ip (Some 0) None LT_IPV4 ''group-ip'' ''Multicast Group Address'' @
     smp_cmd smp_group_ip smp_group_ip_vlan ''vlan'' None ''Vlan'' @
     smp_leaf smp_group_ip_vlan smp_group_ip_vlan_id (Some 0) (Some 0) LT_INT ''vlan-id'' ''Vlan id(1-4095)''"

definition testapp_mtrace_steps :: "(param_heap \<Rightarrow> param_heap res) list" where
  "testapp_mtrace_steps =
     smp_cmd libcli_get_config_hook smp_mtrace ''mtrace'' None ''mtrace command'' @
     smp_cmd smp_mtrace smp_source ''source'' None ''source command'' @
     smp_leaf smp_source smp_source_ip (Some 1) None LT_IPV4 ''source-ip'' ''Source Ipv4 address'' @
     [set_param_cmd_code smp_source_ip MTRACE_SOURCE] @
     smp_cmd smp_source_ip smp_destination ''destination'' None ''destination command'' @
     smp_leaf smp_destination smp_dest_ip (Some 1) None LT_IPV4 ''destination-ip'' ''Destination Ipv4 address'' @
     [set_param_cmd_code smp_dest_ip MTRACE_SOURCE_DEST] @
     smp_cmd smp_source_ip smp_group ''group'' None ''group command'' @
     smp_leaf smp_group smp_mtrace_group_ip (Some 1) None LT_IPV4 ''group-ip'' ''Multicast Group Ipv4 address'' @
     [set_param_cmd_code smp_mtrace_group_ip MTRACE_SOURCE_GROUP] @
     smp_cmd smp_dest_ip smp_group2 ''group'' None ''group command'' @
     smp_leaf smp_group2 smp_group_ip2 (Some 1) None LT_IPV4 ''group-ip'' ''Multicast Group Ipv4 address'' @
     [set_param_cmd_code smp_group_ip2 MTRACE_SOURCE_DEST_GROUP]"

text \<open>Every program ends with the negation of the configuration and starts the shell.\<close>

definition sample_main :: "(param_heap \<Rightarrow> param_heap res) list \<Rightarrow> cli res option" where
  "sample_main steps =
     obind (Some init_libcli) (\<lambda>c.
     obind (Some (run_steps steps (cl_params c))) (\<lambda>h.
     obind (support_cmd_negation smp_no (-1) libcli_get_config_hook h) (\<lambda>h.
       Some (Inr (c\<lparr>cl_params := h\<rparr>)))))"

definition main1 :: "cli res option" where "main1 = sample_main []"
definition main2 :: "cli res option" where "main2 = sample_main main2_steps"
definition main3 :: "cli res option" where "main3 = sample_main main3_steps"
definition main4 :: "cli res option" where "main4 = sample_main main4_steps"
definition testapp_main :: "cli res option" where
  "testapp_main = sample_main (testapp_show_steps @ testapp_mtrace_steps)"

text \<open>The handlers and validations by their numbers.\<close>

definition main2_env :: "(nat \<Rightarrow> byte) \<Rightarrow> int \<Rightarrow> 'a env" where
  "main2_env junk uninit =
     \<lparr>ev_callback = (\<lambda>n p eod s.
        if n = 0 then Inr (node_callback_handler s)
        else if n = 1 then Inr (main2_loopback_callback_handler s)
        else Inl NullDeref),
      ev_user_validation = node_validations, ev_disp = (\<lambda>n p s. Inl NullDeref),
      ev_junk = junk, ev_uninit = uninit\<rparr>"

definition main3_env :: "(nat \<Rightarrow> byte) \<Rightarrow> int \<Rightarrow> 'a env" where
  "main3_env junk uninit =
     \<lparr>ev_callback = (\<lambda>n p eod s.
        if n = 0 then Inr (node_callback_handler s)
        else if n = 1 then main3_loopback_callback_handler s
        else Inl NullDeref),
      ev_user_validation = node_validations, ev_disp = (\<lambda>n p s. Inl NullDeref),
      ev_junk = junk, ev_uninit = uninit\<rparr>"

definition main4_env :: "(nat \<Rightarrow> byte) \<Rightarrow> int \<Rightarrow> 'a env" where
  "main4_env junk uninit =
     \<lparr>ev_callback = (\<lambda>n p eod s.
        if n = 0 then Inr (node_callback_handler s)
        else if n = 1 then main4_loopback_callback_handler eod s
        else Inl NullDeref),
      ev_user_validation = node_validations, ev_disp = (\<lambda>n p s. Inl NullDeref),
      ev_junk = junk, ev_uninit = uninit\<rparr>"

definition testapp_env :: "(nat \<Rightarrow> byte) \<Rightarrow> int \<Rightarrow> 'a env" where
  "testapp_env junk uninit =
     \<lparr>ev_callback = (\<lambda>n p eod s.
        if n = 0 then show_ip_igmp_groups_handler s
        else if n = 1 then mtrace_handler s
        else if n = 2 then config_router_name_handler s
        else Inl NullDeref),
      ev_user_validation = (\<lambda>n v. user_vlan_validation_callback v), ev_disp = (\<lambda>n p s. Inr (list_vlans s)),
      ev_junk = junk, ev_uninit = uninit\<rparr>"

section \<open>The sample of the linked list\<close>

text \<open>
  Five persons of 24 bytes in an array at address 100, each with its node after age and weight; the
  head of the list is at address 1.
\<close>

definition persons :: "int \<Rightarrow> person_t" where
  "persons a =
     (if a = 100 then \<lparr>age = 1, weight = 2\<rparr> else if a = 124 then \<lparr>age = 3, weight = 4\<rparr>
      else if a = 148 then \<lparr>age = 5, weight = 6\<rparr> else if a = 172 then \<lparr>age = 7, weight = 8\<rparr>
      else if a = 196 then \<lparr>age = 9, weight = 10\<rparr> else \<lparr>age = 0, weight = 0\<rparr>)"

definition person_node :: "nat \<Rightarrow> glptr" where
  "person_node i = 108 + 24 * i"

fun insert_persons :: "nat list \<Rightarrow> gl_heap \<Rightarrow> gl_heap res option" where
  "insert_persons [] h = Some (Inr h)"
| "insert_persons (i # is) h =
     obind (glthread_priority_insert (senior_citizen persons) 8 1 (person_node i) h) (insert_persons is)"

definition gluethread_test_main :: "gl_heap \<Rightarrow> string list res option" where
  "gluethread_test_main h =
     obind (Some (init_glthread 1 h)) (\<lambda>h.
     obind (insert_persons [4, 3, 2, 1, 0] h) (\<lambda>h.
     obind (Some (gl_get h 1)) (\<lambda>n.
     obind (iterate_glthread fst (\<lambda>p (h, ls).
              Inr (False, (h, ls @ [''Age = '' @ print_d (age (persons (GLTHREAD_GET_USER_DATA_FROM_OFFSET p 8)))])))
              (right_ptr n) (h, [])) (\<lambda>(h, ls). Some (Inr ls)))))"

text \<open>What the program prints, from memory where the five nodes and the head are.\<close>

definition sample_memory :: gl_heap where
  "sample_memory =
     (\<lambda>p. if p = 1 \<or> p \<in> set (map person_node [0..<5]) then Some \<lparr>left_ptr = None, right_ptr = None\<rparr> else None)"

theorem sample_prints_by_age:
  "gluethread_test_main sample_memory =
     Some (Inr [''Age = 9'', ''Age = 7'', ''Age = 5'', ''Age = 3'', ''Age = 1''])"
  by code_simp

end
