(* ===== verification/TreeBuild.thy ===== *)
theory TreeBuild
  imports CmdWalk
begin

text \<open>
  Building a tree keeps it well-typed: what declaring a parameter (\<^verbatim>\<open>init_param\<close>,
  \<^verbatim>\<open>libcli_register_param\<close>, \<^verbatim>\<open>set_param_cmd_code\<close>) and
  \<^verbatim>\<open>support_cmd_negation\<close> keep of the invariant that the parser relies on, and the steps
  of an application put together.
\<close>

section \<open>Trees under construction\<close>

text \<open>Also options behind a gap are options, and what is an option of a parameter has a parent.\<close>

definition offer_ok :: "(pptr \<Rightarrow> nat) \<Rightarrow> param_heap \<Rightarrow> pptr \<Rightarrow> param_t \<Rightarrow> pptr \<Rightarrow> bool" where
  "offer_ok rk h p c r \<longleftrightarrow> option_ok rk h p c r \<and>
     (special r \<or> (case h r of None \<Rightarrow> False | Some rc \<Rightarrow> p_parent rc \<noteq> None)) \<and>
     (r = libcli_get_show_brief_extension_param \<longrightarrow> p_callback c \<noteq> Some exit_cmd_handler \<and>
        p_callback c \<noteq> Some end_cmd_handler \<and> p_callback c \<noteq> Some config_mode_enter_handler)"

definition entry_ok :: "(pptr \<Rightarrow> nat) \<Rightarrow> param_heap \<Rightarrow> pptr \<Rightarrow> param_t \<Rightarrow> bool" where
  "entry_ok rk h p c \<longleftrightarrow> param_ok rk h p c \<and> value_ok c \<and> length (p_options c) = 16 \<and>
     list_all (\<lambda>o1. case o1 of None \<Rightarrow> True | Some r \<Rightarrow> \<not> special p \<and> offer_ok rk h p c r) (p_options c)"

definition plain_handler :: "param_t option \<Rightarrow> bool" where
  "plain_handler x \<longleftrightarrow> (case x of None \<Rightarrow> False
     | Some c \<Rightarrow> p_callback c \<noteq> Some exit_cmd_handler \<and> p_callback c \<noteq> Some end_cmd_handler)"

definition well_built :: "(pptr \<Rightarrow> nat) \<Rightarrow> param_heap \<Rightarrow> bool" where
  "well_built rk h \<longleftrightarrow> (\<forall>p c. h p = Some c \<longrightarrow> entry_ok rk h p c) \<and>
     plain_handler (h libcli_get_mode_param) \<and> plain_handler (h libcli_get_suboptions_param) \<and>
     plain_handler (h libcli_get_cmd_expansion_param)"

lemma well_built_tree: "well_built rk h \<Longrightarrow> tree_ok rk h \<and> values_ok h"
  by (simp add: well_built_def entry_ok_def tree_ok_def values_ok_def)

lemma live_offered: "r \<in> set (live_options os) \<Longrightarrow> Some r \<in> set os"
  by (auto simp: live_options_def dest!: set_takeWhileD)

lemma entry_offer: "entry_ok rk h p c \<Longrightarrow> Some r \<in> set (p_options c) \<Longrightarrow> \<not> special p \<and> offer_ok rk h p c r"
  by (fastforce simp: entry_ok_def list_all_iff)

text \<open>Entries depend on the others only in what their options are.\<close>

definition same_offer :: "param_heap \<Rightarrow> param_heap \<Rightarrow> pptr \<Rightarrow> bool" where
  "same_offer h h' r \<longleftrightarrow> (\<forall>c. h r = Some c \<longrightarrow>
     (\<exists>c'. h' r = Some c' \<and> p_parent c' = p_parent c \<and> p_callback c' = p_callback c))"

lemma same_offer_refl [simp]: "same_offer h h r"
  by (simp add: same_offer_def)

lemma offer_ok_cong:
  "offer_ok rk h p c r \<Longrightarrow> same_offer h h' r \<Longrightarrow> p_parent c' = p_parent c \<Longrightarrow> p_callback c' = p_callback c \<Longrightarrow>
   IS_PARAM_NO_CMD c' = IS_PARAM_NO_CMD c \<Longrightarrow> offer_ok rk h' p c' r"
  unfolding offer_ok_def option_ok_def same_offer_def
  by (cases "h r") (auto simp del: IS_PARAM_NO_CMD.simps)

lemma offer_option: "offer_ok rk h p c r \<Longrightarrow> option_ok rk h p c r"
  by (simp add: offer_ok_def)

text \<open>Changing the options of an entry, in a heap that shows the same of the old ones.\<close>

lemma entry_options:
  assumes "entry_ok rk h p c" "\<not> special p" "length os = 16"
    and "\<And>r. Some r \<in> set (p_options c) \<Longrightarrow> same_offer h h' r"
    and "\<And>r. Some r \<in> set os \<Longrightarrow> Some r \<in> set (p_options c) \<or> offer_ok rk h' p c r"
  shows "entry_ok rk h' p (c\<lparr>p_options := os\<rparr>)"
proof -
  let ?c = "c\<lparr>p_options := os\<rparr>"
  note old = assms(1) [unfolded entry_ok_def param_ok_def]
  have offer: "offer_ok rk h' p ?c r" if "Some r \<in> set os" for r
  proof -
    have "offer_ok rk h' p c r"
      using assms(5) [OF that] entry_offer [OF assms(1)] offer_ok_cong [OF _ assms(4)] by blast
    then show ?thesis by (rule offer_ok_cong) (simp_all add: IS_PARAM_NO_CMD.simps)
  qed
  have live: "offer_ok rk h' p ?c r" if "r \<in> set (live_options os)" for r
    using offer live_offered that by blast
  have "list_all (option_ok rk h' p ?c) (live_options (p_options ?c))"
    using live by (simp add: list_all_iff offer_option)
  moreover have "p_callback c \<noteq> Some exit_cmd_handler \<and> p_callback c \<noteq> Some end_cmd_handler \<and>
      p_callback c \<noteq> Some config_mode_enter_handler" if "libcli_get_show_brief_extension_param \<in> set (live_options os)"
    using live [OF that] by (simp add: offer_ok_def)
  moreover have "list_all (\<lambda>o1. case o1 of None \<Rightarrow> True | Some r \<Rightarrow> \<not> special p \<and> offer_ok rk h' p ?c r) (p_options ?c)"
    using offer assms(2) by (auto simp: list_all_iff split: option.split)
  moreover have fields: "IS_PARAM_CMD ?c = IS_PARAM_CMD c" "id_length ?c = id_length c" "value_ok ?c = value_ok c"
      "p_callback ?c = p_callback c" "p_parent ?c = p_parent c" "p_kind ?c = p_kind c" "p_options ?c = os"
    by (simp_all add: id_length_def value_ok_def IS_PARAM_CMD.simps)
  ultimately show ?thesis
    using old assms(2,3) unfolding entry_ok_def param_ok_def fields
    by (elim conjE) (intro conjI, (assumption | blast)+)
qed

lemma entry_same:
  assumes "entry_ok rk h p c" "\<And>r. Some r \<in> set (p_options c) \<Longrightarrow> same_offer h h' r"
  shows "entry_ok rk h' p c"
proof (cases "special p")
  case True
  have none: "Some r \<notin> set (p_options c)" for r using entry_offer [OF assms(1)] True by blast
  have live: "live_options (p_options c) = []"
  proof (rule ccontr)
    assume "live_options (p_options c) \<noteq> []"
    then have "hd (live_options (p_options c)) \<in> set (live_options (p_options c))" by simp
    with live_offered none show False by blast
  qed
  have "list_all (\<lambda>o1. case o1 of None \<Rightarrow> True | Some r \<Rightarrow> \<not> special p \<and> offer_ok rk h' p c r) (p_options c)"
    using none by (auto simp: list_all_iff split: option.split)
  then show ?thesis
    using assms(1) unfolding entry_ok_def param_ok_def live
    by (elim conjE) (intro conjI, (assumption | simp (no_asm))+)
next
  case False
  have "length (p_options c) = 16" using assms(1) by (simp add: entry_ok_def)
  from entry_options [OF assms(1) False this assms(2)] show ?thesis by simp
qed

lemma same_offer_upd:
  "r \<noteq> p \<or> (\<exists>c. h p = Some c \<and> p_parent c = p_parent c' \<and> p_callback c = p_callback c') \<Longrightarrow> same_offer h (h(p \<mapsto> c')) r"
  by (auto simp: same_offer_def)

section \<open>Declaring a parameter\<close>

text \<open>\<open>app_param\<close>: an address and a rank behind the library's parameters.\<close>

definition app_param :: "(pptr \<Rightarrow> nat) \<Rightarrow> pptr \<Rightarrow> bool" where
  "app_param rk p \<longleftrightarrow> 13 \<le> p \<and> rk p \<le> 1000"

lemma app_paramD:
  "app_param rk p \<Longrightarrow> \<not> special p \<and> p \<noteq> libcli_get_root \<and> p \<noteq> libcli_get_do_hook \<and> p \<noteq> libcli_get_repeat_hook \<and>
    p \<noteq> libcli_get_mode_param \<and> p \<noteq> libcli_get_suboptions_param \<and> p \<noteq> libcli_get_cmd_expansion_param \<and>
    p \<noteq> libcli_get_config_hook"
  by (auto simp: app_param_def special_def hook_defs)

lemma id_length_init: "length (cstr (take 31 i)) \<le> 32"
  using length_takeWhile_le [of "\<lambda>c. c \<noteq> nul" "take 31 i"] by (simp add: cstr_def)

text \<open>Other entries do not offer a parameter that is not there.\<close>

lemma not_offered:
  assumes "well_built rk h" "h p = None" "h x = Some c"
  shows "Some p \<notin> set (p_options c)"
proof
  assume "Some p \<in> set (p_options c)"
  then have "offer_ok rk h x c p" using assms entry_offer unfolding well_built_def by blast
  with assms(2) show False by (simp add: offer_ok_def option_ok_def)
qed

lemma init_builds:
  assumes "well_built rk h" "h p = None" "app_param rk p"
    and "init_param p ty n cb uv lt lid help h = Inr h'" "cb = None \<or> (\<exists>k. cb = Some (app_callback k)) \<or> cb = Some negate_callback"
  shows "well_built rk h' \<and> (\<exists>c. h' = h(p \<mapsto> c) \<and> p_parent c = None \<and> p_options c = replicate 16 None \<and>
    (IS_PARAM_NO_CMD c \<longleftrightarrow> ty = NO_CMD) \<and> p_callback c = cb)"
proof -
  obtain c where c: "h' = h(p \<mapsto> c)" "p_parent c = None" "p_options c = replicate 16 None" "p_callback c = cb"
      "IS_PARAM_NO_CMD c \<longleftrightarrow> ty = NO_CMD" "id_length c \<le> 32" "value_ok c"
    using assms(4) id_length_init
    by (auto simp: init_param_def MAX_OPTION_SIZE_def id_length_def value_ok_def LEAF_VALUE_HOLDER_SIZE_def
        split: param_type.splits option.splits)
  have "live_options (replicate 16 None) = ([] :: pptr list)" by (simp add: live_options_def)
  with c assms(3,5) app_paramD [OF assms(3)] have "entry_ok rk h' p c"
    by (auto simp: entry_ok_def param_ok_def app_param_def list_all_iff)
  moreover have "entry_ok rk h' x y" if "h x = Some y" "x \<noteq> p" for x y
  proof (rule entry_same)
    show "entry_ok rk h x y" using assms(1) that(1) by (simp add: well_built_def)
    show "same_offer h h' r" if "Some r \<in> set (p_options y)" for r
      using not_offered [OF assms(1,2) \<open>h x = Some y\<close>] that c(1) by (intro same_offer_upd [of r p h c, folded c(1)]) auto
  qed
  ultimately have "well_built rk h'"
    using assms(1) c(1) app_paramD [OF assms(3)] by (simp add: well_built_def)
  with c show ?thesis by blast
qed

text \<open>A field that no invariant looks at.\<close>

lemma field_builds:
  assumes "well_built rk h" "h p = Some c" "h' = h(p \<mapsto> c')"
    and "p_kind c' = p_kind c" "p_callback c' = p_callback c" "p_options c' = p_options c" "p_parent c' = p_parent c"
  shows "well_built rk h'"
proof -
  have same: "same_offer h h' r" for r using assms(2-7) by (auto simp: same_offer_def)
  have "entry_ok rk h' x y" if "h x = Some y" for x y
    using assms(1) that same by (intro entry_same [of rk h x y h']) (auto simp: well_built_def)
  moreover have "entry_ok rk h' p c' = entry_ok rk h' p c"
  proof -
    have k: "IS_PARAM_NO_CMD c' = IS_PARAM_NO_CMD c" "IS_PARAM_CMD c' = IS_PARAM_CMD c" "id_length c' = id_length c"
        "value_ok c' = value_ok c"
      using assms(4) by (simp_all add: id_length_def value_ok_def)
    have "option_ok rk h' p c' = option_ok rk h' p c" "offer_ok rk h' p c' = offer_ok rk h' p c"
      using k assms(5,7) by (auto simp: option_ok_def offer_ok_def fun_eq_iff split: option.splits)
    then show ?thesis using k assms(4-7) by (simp add: entry_ok_def param_ok_def)
  qed
  ultimately show ?thesis using assms(1,2,3,5) by (auto simp: well_built_def plain_handler_def split: option.splits)
qed

lemma code_builds:
  assumes "well_built rk h" "set_param_cmd_code p n h = Inr h'"
  shows "well_built rk h'"
proof -
  obtain c where "h p = Some c" "h' = h(p \<mapsto> c\<lparr>p_CMDCODE := n\<rparr>)"
    using assms(2) by (auto simp: set_param_cmd_code_def pget_Inr split: if_splits)
  from field_builds [OF assms(1) this] show ?thesis by simp
qed

lemma display_builds:
  assumes "well_built rk h" "libcli_register_display_callback p n h = Inr h'"
  shows "well_built rk h'"
proof -
  obtain c where "h p = Some c" "h' = h(p \<mapsto> c\<lparr>p_disp_callback := Some n\<rparr>)"
    using assms(2) by (auto simp: libcli_register_display_callback_def pget_Inr split: if_splits)
  from field_builds [OF assms(1) this] show ?thesis by simp
qed

section \<open>Registering\<close>

lemma set_fill_option: "Some r \<in> set (fill_option i p os) \<Longrightarrow> Some r \<in> set os \<or> r = p"
  by (auto simp: fill_option_def split: if_splits dest!: set_update_subset_insert [THEN subsetD])

lemma entry_parent:
  assumes "entry_ok rk h p c" "set (p_options c) \<subseteq> {None}" "app_param rk p"
    and "rk q < rk p" "\<not> special q" "q \<noteq> libcli_get_do_hook"
  shows "entry_ok rk h p (c\<lparr>p_parent := Some q\<rparr>)"
proof -
  let ?c = "c\<lparr>p_parent := Some q\<rparr>"
  have none: "Some r \<notin> set (p_options c)" for r using assms(2) by auto
  have live: "live_options (p_options c) = []"
  proof (rule ccontr)
    assume "live_options (p_options c) \<noteq> []"
    then have "hd (live_options (p_options c)) \<in> set (live_options (p_options c))" by simp
    with live_offered none show False by blast
  qed
  have fields: "IS_PARAM_CMD ?c = IS_PARAM_CMD c" "id_length ?c = id_length c" "value_ok ?c = value_ok c"
      "p_callback ?c = p_callback c" "p_parent ?c = Some q" "p_kind ?c = p_kind c" "p_options ?c = p_options c"
    by (simp_all add: id_length_def value_ok_def IS_PARAM_CMD.simps)
  have "list_all (\<lambda>o1. case o1 of None \<Rightarrow> True | Some r \<Rightarrow> \<not> special p \<and> offer_ok rk h p ?c r) (p_options c)"
    using none by (auto simp: list_all_iff split: option.split)
  then show ?thesis
    using assms(1,4-6) app_paramD [OF assms(3)] unfolding entry_ok_def param_ok_def fields live option.case
    by (elim conjE) (intro conjI, (assumption | simp (no_asm) | blast)+)
qed

text \<open>The special characters can be options of any parameter that the rank puts before them.\<close>

definition can_offer :: "(pptr \<Rightarrow> nat) \<Rightarrow> pptr \<Rightarrow> bool" where
  "can_offer rk q \<longleftrightarrow> \<not> special q \<and> q \<noteq> libcli_get_do_hook \<and> rk q < rk libcli_get_mode_param \<and>
     rk q < rk libcli_get_suboptions_param \<and> rk q < rk libcli_get_cmd_expansion_param"

lemma special_offer:
  assumes "well_built rk h" "can_offer rk q"
    and "r \<in> {libcli_get_mode_param, libcli_get_suboptions_param, libcli_get_cmd_expansion_param}"
  shows "offer_ok rk h q c r"
  using assms by (auto simp: offer_ok_def option_ok_def can_offer_def well_built_def plain_handler_def special_def hook_defs
      split: option.splits)

theorem register_builds:
  assumes built: "well_built rk h" and reg: "libcli_register_param (Some q) p h = Inr h'"
    and child: "h p = Some cc" "p_parent cc = None" "set (p_options cc) \<subseteq> {None}" "\<not> IS_PARAM_NO_CMD cc"
      "p_callback cc \<noteq> Some exit_cmd_handler" "p_callback cc \<noteq> Some end_cmd_handler"
    and "app_param rk p" "can_offer rk q" "rk q < rk p"
  shows "well_built rk h'"
proof -
  have qp: "q \<noteq> p" using assms(11) by auto
  obtain pc os i where q: "h q = Some pc" and os: "os = fill_option CMD_EXPANSION_INDEX libcli_get_cmd_expansion_param
                   (fill_option SUBOPTIONS_INDEX libcli_get_suboptions_param
                     (fill_option MODE_PARAM_INDEX libcli_get_mode_param (p_options pc)))"
      and h': "h' = h(q \<mapsto> pc\<lparr>p_options := os[i := Some p]\<rparr>, p \<mapsto> cc\<lparr>p_parent := Some q\<rparr>)"
    using reg child(1) qp by (auto simp: libcli_register_param_def Let_def pget_Inr pget_def split: option.splits)
  have fresh: "Some p \<notin> set (p_options y)" if y: "h x = Some y" for x y
  proof
    assume "Some p \<in> set (p_options y)"
    then have "offer_ok rk h x y p" using built y entry_offer unfolding well_built_def by blast
    with child(1,2) app_paramD [OF assms(9)] show False by (simp add: offer_ok_def)
  qed
  have same: "same_offer h h' r" if "r \<noteq> p" for r using that q by (auto simp: h' same_offer_def)
  have len: "length (os[i := Some p]) = 16"
    using built q by (simp add: os fill_option_def well_built_def entry_ok_def)
  have "entry_ok rk h' x y" if x: "h x = Some y" for x y
  proof (rule entry_same)
    show "entry_ok rk h x y" using built x unfolding well_built_def by blast
    show "same_offer h h' r" if "Some r \<in> set (p_options y)" for r
      using fresh [OF x] that by (intro same) blast
  qed
  then have eq: "entry_ok rk h' q pc" "entry_ok rk h' p cc" and others: "\<And>x y. h x = Some y \<Longrightarrow> entry_ok rk h' x y"
    using q child(1) by blast+
  have plain': "plain_handler (h' r) = plain_handler (h r)" if "r \<noteq> p" for r
    using that q by (simp add: h' plain_handler_def)
  have sp: "libcli_get_mode_param \<noteq> p" "libcli_get_suboptions_param \<noteq> p" "libcli_get_cmd_expansion_param \<noteq> p"
    using app_paramD [OF assms(9)] by auto
  have h'p: "h' p = Some (cc\<lparr>p_parent := Some q\<rparr>)" by (simp add: h')
  have offer_p: "offer_ok rk h' q pc p"
    using assms(5-11) app_paramD [OF assms(9)] h'p by (auto simp: offer_ok_def option_ok_def can_offer_def special_def)
  have offer_s: "offer_ok rk h' q pc r"
    if "r \<in> {libcli_get_mode_param, libcli_get_suboptions_param, libcli_get_cmd_expansion_param}" for r
  proof -
    have "offer_ok rk h q pc r" using special_offer [OF built assms(10) that] .
    moreover have "r \<noteq> p" using that sp by auto
    ultimately show ?thesis using same by (intro offer_ok_cong [of rk h q pc r h' pc]) simp_all
  qed
  have "entry_ok rk h' q (pc\<lparr>p_options := os[i := Some p]\<rparr>)"
  proof (rule entry_options [OF eq(1) _ len same_offer_refl])
    show "\<not> special q" using assms(10) by (simp add: can_offer_def)
    show "Some r \<in> set (p_options pc) \<or> offer_ok rk h' q pc r" if "Some r \<in> set (os[i := Some p])" for r
    proof -
      have "Some r \<in> set os \<or> r = p" using that by (auto dest!: set_update_subset_insert [THEN subsetD])
      then consider "Some r \<in> set (p_options pc)" | "r = p"
        | "r \<in> {libcli_get_mode_param, libcli_get_suboptions_param, libcli_get_cmd_expansion_param}"
        unfolding os using set_fill_option by blast
      then show ?thesis using offer_p offer_s by cases auto
    qed
  qed
  moreover have "entry_ok rk h' p (cc\<lparr>p_parent := Some q\<rparr>)"
    using assms(9-11) child(3) by (intro entry_parent [OF eq(2)]) (auto simp: can_offer_def)
  ultimately have "entry_ok rk h' x y" if "h' x = Some y" for x y
    using others that unfolding h' by (simp only: fun_upd_apply option.inject split: if_splits)
  then show ?thesis using built plain' sp by (simp add: well_built_def)
qed

text \<open>The slots of the special characters are no slots of children.\<close>

lemma free_slot_cong: "(\<And>j. i \<le> j \<Longrightarrow> j < i + n \<Longrightarrow> os ! j = None \<longleftrightarrow> os' ! j = None) \<Longrightarrow> free_slot os i n = free_slot os' i n"
  by (induction n arbitrary: i) simp_all

lemma child_slot_fill: "i < CHILDREN_START_INDEX \<Longrightarrow> child_slot (fill_option i r os) = child_slot os"
  unfolding child_slot_def by (rule free_slot_cong) (auto simp: fill_option_def nth_list_update)

lemma free_slot_bound: "free_slot os i n = Some j \<Longrightarrow> i \<le> j \<and> j < i + n \<and> os ! j = None"
proof (induction n arbitrary: i)
  case (Suc n)
  show ?case
  proof (cases "os ! i = None")
    case False
    then obtain y where "os ! i = Some y" by auto
    with Suc.IH [of "Suc i"] Suc.prems show ?thesis by simp
  qed (use Suc.prems in simp)
qed simp

theorem declared_param_registered:
  assumes "well_built rk h" "h q = Some pc" "h p = None" "app_param rk p" "can_offer rk q" "rk q < rk p" "ty \<noteq> NO_CMD"
    and "cb = None \<or> (\<exists>k. cb = Some (app_callback k))" "init_param p ty n cb uv lt lid help h = Inr h1"
  shows "(case child_slot (p_options pc) of
       None \<Rightarrow> libcli_register_param (Some q) p h1 = Inl AssertFail
     | Some i \<Rightarrow> \<exists>h' c qc. libcli_register_param (Some q) p h1 = Inr h' \<and> well_built rk h' \<and>
         h' p = Some c \<and> p_parent c = Some q \<and> h' q = Some qc \<and> p_options qc ! i = Some p \<and>
         (\<forall>r. Some r \<in> set (p_options pc) \<longrightarrow> Some r \<in> set (p_options qc)) \<and>
         (\<forall>x. x \<noteq> p \<longrightarrow> x \<noteq> q \<longrightarrow> h' x = h x))"
proof -
  obtain c where c: "well_built rk h1" "h1 = h(p \<mapsto> c)" "p_parent c = None" "p_options c = replicate 16 None"
      "\<not> IS_PARAM_NO_CMD c" "p_callback c = cb"
    using init_builds [OF assms(1,3,4,9)] assms(7,8) by blast
  have qp: "q \<noteq> p" using assms(2,3) by auto
  let ?os = "fill_option CMD_EXPANSION_INDEX libcli_get_cmd_expansion_param
               (fill_option SUBOPTIONS_INDEX libcli_get_suboptions_param
                 (fill_option MODE_PARAM_INDEX libcli_get_mode_param (p_options pc)))"
  have slot: "child_slot ?os = child_slot (p_options pc)" by (simp add: child_slot_fill option_sizes)
  have len: "length (p_options pc) = 16" using assms(1,2) by (auto simp: well_built_def entry_ok_def)
  show ?thesis
  proof (cases "child_slot (p_options pc)")
    case None
    then show ?thesis using slot c(2) assms(2) qp by (simp add: libcli_register_param_def pget_def Let_def)
  next
    case (Some i)
    have i: "i < 16" "?os ! i = None" using free_slot_bound [of ?os 3 13 i] slot Some by (auto simp: child_slot_def option_sizes)
    let ?h = "h1(q \<mapsto> pc\<lparr>p_options := ?os[i := Some p]\<rparr>, p \<mapsto> c\<lparr>p_parent := Some q\<rparr>)"
    have r: "libcli_register_param (Some q) p h1 = Inr ?h"
      using slot Some c(2) assms(2) qp by (simp add: libcli_register_param_def pget_def Let_def)
    have "well_built rk ?h"
      using c assms(4-6,8) by (intro register_builds [OF c(1) r, of c]) auto
    moreover have "Some x \<in> set (?os[i := Some p])" if "Some x \<in> set (p_options pc)" for x
    proof -
      have keep: "Some x \<in> set (os[j := v])" if s: "Some x \<in> set os" "os ! j = None" for os :: "pptr option list" and j v
      proof -
        obtain k where "k < length os" "os ! k = Some x" using s(1) by (auto simp: in_set_conv_nth)
        moreover from this s(2) have "k \<noteq> j" by auto
        ultimately have "k < length (os[j := v])" "os[j := v] ! k = Some x" by simp_all
        then show ?thesis by (metis nth_mem)
      qed
      have "Some x \<in> set (fill_option j y os)" if "Some x \<in> set os" for os j y
        using keep that by (simp add: fill_option_def)
      then show ?thesis using that keep i(2) by blast
    qed
    ultimately show ?thesis using Some r c(2) qp i(1) len by (auto simp: fill_option_def)
  qed
qed

section \<open>Negation\<close>

lemma copy_children_set:
  "copy_children src dst i n = (os, j) \<Longrightarrow> i + n \<le> length src \<Longrightarrow>
   length os = length dst \<and> (\<forall>r. Some r \<in> set os \<longrightarrow> Some r \<in> set dst \<or> Some r \<in> set src)"
proof (induction n arbitrary: i dst)
  case (Suc n)
  show ?case
  proof (cases "src ! i = None")
    case False
    then have "copy_children src (dst[i := src ! i]) (Suc i) n = (os, j)" using Suc.prems(1) by simp
    from Suc.IH [OF this] Suc.prems(2)
    have "length os = length dst" "\<And>r. Some r \<in> set os \<Longrightarrow> Some r \<in> set (dst[i := src ! i]) \<or> Some r \<in> set src" by auto
    moreover have "src ! i \<in> set src" using Suc.prems(2) by simp
    then have "Some r \<in> set dst \<or> Some r \<in> set src" if "Some r \<in> set (dst[i := src ! i])" for r
      using that set_update_subset_insert [of dst i "src ! i"] by auto
    ultimately show ?thesis by auto
  qed (use Suc.prems in simp)
qed simp

lemma rbind_InrE: "rbind m k = Inr v \<Longrightarrow> (\<And>u. m = Inr u \<Longrightarrow> k u = Inr v \<Longrightarrow> P) \<Longrightarrow> P"
  by (cases m) simp_all

lemma negation_cases:
  assumes "support_cmd_negation new choice p h = Some (Inr h')" "h p = Some c"
  shows "h' = h \<or> (\<exists>h1 nc os i. init_param new NO_CMD (Some ''no'') (Some negate_callback) None LT_INVALID None
        ''Command Negation'' h = Inr h1 \<and> h1 new = Some nc \<and>
      copy_children (p_options c)
         ((p_options nc)[MODE_PARAM_INDEX := Some libcli_get_suboptions_param,
                         SUBOPTIONS_INDEX := Some libcli_get_suboptions_param,
                         CMD_EXPANSION_INDEX := Some libcli_get_cmd_expansion_param])
         CHILDREN_START_INDEX (Suc CHILDREN_END_INDEX - CHILDREN_START_INDEX) = (os, i) \<and>
      h' = h1(new \<mapsto> nc\<lparr>p_options := os, p_parent := Some p\<rparr>, p \<mapsto> c\<lparr>p_options := (p_options c)[i := Some new]\<rparr>))"
  using assms(1)
  by (auto simp only: support_cmd_negation_def pget_Inr assms(2) option.inject option.distinct sum.inject sum.distinct
      split: option.split_asm sum.split_asm if_split_asm prod.split_asm elim!: rbind_InrE) blast+

theorem negation_builds:
  assumes built: "well_built rk h" and neg: "support_cmd_negation new choice p h = Some (Inr h')"
    and new: "h new = None" "app_param rk new" "can_offer rk new"
    and p: "h p = Some c" "\<not> IS_PARAM_NO_CMD c" "p \<noteq> libcli_get_root" "can_offer rk p"
    and rank: "rk p < rk new" "\<And>r. rk p < rk r \<Longrightarrow> r = new \<or> rk new < rk r"
  shows "well_built rk h'"
proof (cases "h' = h")
  case False
  have np: "new \<noteq> p" using new(1) p(1) by auto
  obtain h1 nc os i where h1: "init_param new NO_CMD (Some ''no'') (Some negate_callback) None LT_INVALID None
        ''Command Negation'' h = Inr h1" "h1 new = Some nc"
      and os: "copy_children (p_options c)
         ((p_options nc)[MODE_PARAM_INDEX := Some libcli_get_suboptions_param,
                         SUBOPTIONS_INDEX := Some libcli_get_suboptions_param,
                         CMD_EXPANSION_INDEX := Some libcli_get_cmd_expansion_param])
         CHILDREN_START_INDEX (Suc CHILDREN_END_INDEX - CHILDREN_START_INDEX) = (os, i)"
      and h': "h' = h1(new \<mapsto> nc\<lparr>p_options := os, p_parent := Some p\<rparr>, p \<mapsto> c\<lparr>p_options := (p_options c)[i := Some new]\<rparr>)"
    using negation_cases [OF neg p(1)] False by blast
  have b1: "well_built rk h1" and nc: "h1 = h(new \<mapsto> nc)" "p_parent nc = None" "p_options nc = replicate 16 None"
      "IS_PARAM_NO_CMD nc" "p_callback nc = Some negate_callback"
    using init_builds [OF built new(1,2) h1(1)] h1(2) by auto
  note ap = app_paramD [OF new(2)]
  have e: "entry_ok rk h p c" "entry_ok rk h1 p c" "entry_ok rk h1 new nc" and others: "\<And>x y. h1 x = Some y \<Longrightarrow> entry_ok rk h1 x y"
    using built b1 p(1) h1(2) nc(1) np unfolding well_built_def by (auto simp only: fun_upd_apply split: if_splits)
  have same: "same_offer h1 h' r" if "r \<noteq> new" for r
    using that p(1) nc(1) np by (auto simp: h' same_offer_def)
  have fresh: "Some new \<notin> set (p_options y)" if "h1 x = Some y" for x y
  proof (cases "x = new")
    case True
    then show ?thesis using that h1(2) nc(3) by auto
  next
    case False
    then show ?thesis using that nc(1) not_offered [OF built new(1), of x y] by simp
  qed
  have kept: "entry_ok rk h' x y" if "h1 x = Some y" for x y
  proof (rule entry_same)
    show "entry_ok rk h1 x y" using others that .
    show "same_offer h1 h' r" if "Some r \<in> set (p_options y)" for r
      using fresh [OF \<open>h1 x = Some y\<close>] that by (intro same) blast
  qed
  have h'new: "h' new = Some (nc\<lparr>p_options := os, p_parent := Some p\<rparr>)" using np by (simp add: h')
  have lens: "length (p_options c) = 16" using e(1) unfolding entry_ok_def by blast
  note copied = copy_children_set [OF os]
  have os': "length os = 16" "\<And>r. Some r \<in> set os \<Longrightarrow> Some r \<in> set (p_options c) \<or>
      r \<in> {libcli_get_mode_param, libcli_get_suboptions_param, libcli_get_cmd_expansion_param}"
    using copied lens nc(3) by (auto simp: option_sizes dest!: set_update_subset_insert [THEN subsetD])
  have offer_new: "offer_ok rk h' p c new"
    using rank(1) p(2,4) ap h'new nc(5) np by (auto simp: offer_ok_def option_ok_def special_def can_offer_def)
  have "entry_ok rk h' p (c\<lparr>p_options := (p_options c)[i := Some new]\<rparr>)"
  proof (rule entry_options [OF kept _ _ same_offer_refl])
    show "h1 p = Some c" using nc(1) p(1) np by simp
    show "\<not> special p" using p(4) by (simp add: can_offer_def)
    show "length ((p_options c)[i := Some new]) = 16" using lens by simp
    show "Some r \<in> set (p_options c) \<or> offer_ok rk h' p c r" if "Some r \<in> set ((p_options c)[i := Some new])" for r
      using that offer_new by (auto dest!: set_update_subset_insert [THEN subsetD])
  qed
  moreover have "entry_ok rk h' new (nc\<lparr>p_options := os, p_parent := Some p\<rparr>)"
  proof -
    let ?nc = "nc\<lparr>p_parent := Some p\<rparr>"
    have "entry_ok rk h' new ?nc"
      using kept [OF h1(2)] nc(3) new(2) rank(1) p(4) by (intro entry_parent) (auto simp: can_offer_def)
    then have "entry_ok rk h' new (?nc\<lparr>p_options := os\<rparr>)"
    proof (rule entry_options [OF _ _ os'(1) same_offer_refl])
      show "\<not> special new" using ap by blast
      show "Some r \<in> set (p_options ?nc) \<or> offer_ok rk h' new ?nc r" if r: "Some r \<in> set os" for r
      proof (cases "Some r \<in> set (p_options c)")
        case True
        then have o: "offer_ok rk h p c r" using entry_offer [OF e(1)] by blast
        then obtain rc where rc: "h r = Some rc" "rk p < rk r" unfolding offer_ok_def option_ok_def by (cases "h r") simp_all
        with new(1) have rn: "r \<noteq> new" by auto
        have "same_offer h h' r" using rn p(1) nc(1) np by (auto simp: h' same_offer_def)
        with offer_ok_cong [OF o this, of c] have o': "offer_ok rk h' p c r" by simp
        have "rk new < rk r" using rank(2) [OF rc(2)] rn by blast
        moreover have "p \<noteq> libcli_get_do_hook" using p(4) by (simp add: can_offer_def)
        moreover have "IS_PARAM_NO_CMD ?nc" using nc(4) by (simp add: IS_PARAM_NO_CMD.simps)
        ultimately have "offer_ok rk h' new ?nc r"
          using o' p(2,3) nc(5) ap unfolding offer_ok_def option_ok_def
          by (cases "h' r") (simp_all del: IS_PARAM_NO_CMD.simps, blast)
        then show ?thesis ..
      next
        case False
        then have r': "r \<in> {libcli_get_mode_param, libcli_get_suboptions_param, libcli_get_cmd_expansion_param}"
          using os'(2) [OF r] by blast
        have "offer_ok rk h1 new nc r" using special_offer [OF b1 new(3) r'] .
        moreover have "r \<noteq> new" using r' ap by auto
        ultimately have "offer_ok rk h' new nc r" using same by (intro offer_ok_cong [of rk h1 new nc r h' nc]) simp_all
        moreover have "special r" using r' by (auto simp: special_def)
        ultimately have "offer_ok rk h' new ?nc r" unfolding offer_ok_def option_ok_def
          by (cases "h' r") (simp_all del: IS_PARAM_NO_CMD.simps)
        then show ?thesis ..
      qed
    qed
    moreover have eq: "nc\<lparr>p_options := os, p_parent := Some p\<rparr> = ?nc\<lparr>p_options := os\<rparr>" by (cases nc) simp
    ultimately show ?thesis unfolding eq by blast
  qed
  ultimately have "entry_ok rk h' x y" if "h' x = Some y" for x y
    using kept that unfolding h' by (simp only: fun_upd_apply option.inject split: if_splits)
  moreover have "plain_handler (h' r) = plain_handler (h1 r)" if "r \<noteq> new" for r
    using that p(1) nc(1) np by (simp add: h' plain_handler_def)
  moreover have "libcli_get_mode_param \<noteq> new" "libcli_get_suboptions_param \<noteq> new" "libcli_get_cmd_expansion_param \<noteq> new"
    using ap by auto
  ultimately show ?thesis using b1 by (simp add: well_built_def)
qed (use built in simp)

section \<open>The steps of an application\<close>

text \<open>
  \<open>builds rk S f T\<close>: from a well-built tree without the parameters of \<open>S\<close>, \<open>f\<close>
  leads to a well-built one that still is without those of \<open>T\<close>.
\<close>

definition builds :: "(pptr \<Rightarrow> nat) \<Rightarrow> pptr set \<Rightarrow> (param_heap \<Rightarrow> param_heap res) \<Rightarrow> pptr set \<Rightarrow> bool" where
  "builds rk S f T \<longleftrightarrow> (\<forall>h h'. well_built rk h \<longrightarrow> dom h \<inter> S = {} \<longrightarrow> f h = Inr h' \<longrightarrow>
     well_built rk h' \<and> dom h' \<inter> T = {})"

lemma builds_done: "T \<subseteq> S \<Longrightarrow> builds rk S (run_steps []) T"
  by (auto simp: builds_def)

lemma builds_step:
  assumes "\<And>h h'. well_built rk h \<Longrightarrow> dom h \<inter> S = {} \<Longrightarrow> f h = Inr h' \<Longrightarrow> well_built rk h' \<and> dom h' \<inter> S' = {}"
    and "builds rk S' (run_steps fs) T"
  shows "builds rk S (run_steps (f # fs)) T"
  unfolding builds_def
proof (intro allI impI)
  fix h h'
  assume h: "well_built rk h" "dom h \<inter> S = {}" "run_steps (f # fs) h = Inr h'"
  then obtain h1 where h1: "f h = Inr h1" "run_steps fs h1 = Inr h'" by auto
  from assms(1) [OF h(1,2) h1(1)] assms(2) h1(2) show "well_built rk h' \<and> dom h' \<inter> T = {}"
    unfolding builds_def by blast
qed

text \<open>A parameter of the application, initialised and registered at once.\<close>

lemma builds_declare:
  assumes "p \<in> S" "app_param rk p" "can_offer rk q" "rk q < rk p" "ty \<noteq> NO_CMD"
    and "cb = None \<or> (\<exists>k. cb = Some (app_callback k))" "builds rk (S - {p}) (run_steps fs) T"
  shows "builds rk S (run_steps (init_param p ty n cb uv lt lid help # libcli_register_param (Some q) p # fs)) T"
  unfolding builds_def
proof (intro allI impI)
  fix h h'
  assume h: "well_built rk h" "dom h \<inter> S = {}"
    "run_steps (init_param p ty n cb uv lt lid help # libcli_register_param (Some q) p # fs) h = Inr h'"
  then obtain h1 h2 where r: "init_param p ty n cb uv lt lid help h = Inr h1"
      "libcli_register_param (Some q) p h1 = Inr h2" "run_steps fs h2 = Inr h'" by auto
  have "h p = None" using h(2) assms(1) by auto
  from init_builds [OF h(1) this assms(2) r(1)] assms(5,6) obtain c where c: "well_built rk h1" "h1 = h(p \<mapsto> c)"
      "p_parent c = None" "p_options c = replicate 16 None" "\<not> IS_PARAM_NO_CMD c" "p_callback c = cb" by blast
  have "well_built rk h2"
    using c assms(2-6) by (intro register_builds [OF c(1) r(2), of c]) auto
  moreover have "dom h2 \<subseteq> insert p (dom h)"
    using r(2) c(2) by (auto simp: libcli_register_param_def Let_def pget_Inr pget_def split: option.splits if_splits)
  then have "dom h2 \<inter> (S - {p}) = {}" using h(2) by auto
  ultimately show "well_built rk h' \<and> dom h' \<inter> T = {}" using assms(7) r(3) unfolding builds_def by blast
qed

lemma fields_dom:
  "set_param_cmd_code p n h = Inr h' \<Longrightarrow> dom h' = dom h"
  "libcli_register_display_callback p d h = Inr h' \<Longrightarrow> dom h' = dom h"
  by (auto simp: set_param_cmd_code_def libcli_register_display_callback_def pget_Inr split: if_splits)

lemma builds_code: "builds rk S (run_steps fs) T \<Longrightarrow> builds rk S (run_steps (set_param_cmd_code p n # fs)) T"
  by (rule builds_step [where S' = S])
    (simp_all add: code_builds fields_dom)

lemma builds_display: "builds rk S (run_steps fs) T \<Longrightarrow> builds rk S (run_steps (libcli_register_display_callback p n # fs)) T"
  by (rule builds_step [where S' = S])
    (simp_all add: display_builds fields_dom)

lemmas builds_rules = builds_declare builds_code builds_display builds_done

end
