(* ===== verification/SampleTrees.thy ===== *)
theory SampleTrees
  imports Samples TestAppProps TreeBuild
begin

text \<open>
  The sample programs build well-typed trees. The tree that the library starts with is checked by
  evaluation; that the steps of every program keep it well-built follows from the rules of
  \<open>TreeBuild\<close>; evaluation shows that no step hits an assertion.
\<close>

section \<open>The library's own tree\<close>

definition table_built :: "(pptr \<Rightarrow> nat) \<Rightarrow> param_t option list \<Rightarrow> bool" where
  "table_built rk tab \<longleftrightarrow>
     list_all (\<lambda>p. case table tab p of None \<Rightarrow> True | Some x \<Rightarrow> entry_ok rk (table tab) p x) [0..<length tab] \<and>
     plain_handler (table tab libcli_get_mode_param) \<and> plain_handler (table tab libcli_get_suboptions_param) \<and>
     plain_handler (table tab libcli_get_cmd_expansion_param)"

lemma table_built: "table_built rk tab \<Longrightarrow> well_built rk (table tab)"
  unfolding table_built_def well_built_def list_all_iff table_def
  by (fastforce split: if_splits option.splits)

lemma table_of:
  assumes "dom h \<subseteq> {..<n}"
  shows "table (map h [0..<n]) = h"
proof
  fix p
  from assms have "\<not> p < n \<Longrightarrow> h p = None" by auto
  then show "table (map h [0..<n]) p = h p" by (simp add: table_def)
qed

definition cli_starts :: "cli \<Rightarrow> bool" where
  "cli_starts c \<longleftrightarrow> cl_cursor c = Some libcli_get_root \<and> cl_tokens c = init_token_array \<and>
     cl_tlv_buff c = init_serialized_buffer_of_defined_size 1024"

lemma library_params:
  assumes "init_libcli = Inr c"
  shows "init_params = Inr (cl_params c)"
  using assms by (auto simp: init_libcli_def reset_cmd_tree_cursor_def dest!: device_name_params)

lemma library_starts: "case init_libcli of Inr c \<Rightarrow> cli_starts c | Inl e \<Rightarrow> False"
  by code_simp

lemma library_evaluates:
  "case init_params of Inr h \<Rightarrow> (let tab = map h [0..<55] in table_built app_rank tab \<and> table tab smp_no = None) | Inl e \<Rightarrow> False"
  by code_simp

lemma library_built:
  obtains c where "init_libcli = Inr c" "well_built app_rank (cl_params c)" "dom (cl_params c) \<subseteq> {..<55}"
    "cl_params c smp_no = None" "cli_starts c"
proof -
  obtain c where c: "init_libcli = Inr c" "cli_starts c"
    using library_starts by (auto split: sum.splits)
  have tab: "table_built app_rank (map (cl_params c) [0..<55])" "table (map (cl_params c) [0..<55]) smp_no = None"
    using library_evaluates unfolding library_params [OF c(1)] by (simp_all add: Let_def)
  have d: "dom (cl_params c) \<subseteq> {..<55}" using library_params_within [OF c(1)] .
  have "well_built app_rank (cl_params c)" using table_built [OF tab(1)] unfolding table_of [OF d] .
  moreover have "cl_params c smp_no = None" using tab(2) unfolding table_of [OF d] .
  ultimately show thesis using that c d by blast
qed

section \<open>The steps of the programs\<close>

text \<open>Their parameters are declared in the order of their addresses.\<close>

definition still_free :: "pptr \<Rightarrow> pptr set" where
  "still_free p = insert smp_no {Suc p..<79}"

abbreviation sample_fresh :: "pptr set" where "sample_fresh \<equiv> still_free 55"

lemma builds_next:
  assumes "r < p" "p < 79" "56 \<le> p" "app_param app_rank p" "can_offer app_rank q" "app_rank q < app_rank p" "ty \<noteq> NO_CMD"
    and "cb = None \<or> (\<exists>k. cb = Some (app_callback k))" "builds app_rank (still_free p) (run_steps fs) T"
  shows "builds app_rank (still_free r) (run_steps (init_param p ty n cb uv lt lid help # libcli_register_param (Some q) p # fs)) T"
proof -
  have "still_free p \<subseteq> still_free r - {p}" using assms(1,3) by (auto simp: still_free_def smp_defs)
  then have "builds app_rank (still_free r - {p}) (run_steps fs) T" using assms(9) unfolding builds_def by blast
  moreover have "p \<in> still_free r" using assms(1,2) by (auto simp: still_free_def)
  ultimately show ?thesis using assms by (intro builds_declare)
qed

lemma sample_params:
  "can_offer app_rank libcli_get_show_hook" "can_offer app_rank libcli_get_config_hook" "can_offer app_rank libcli_get_root"
  "app_rank libcli_get_show_hook = 1" "app_rank libcli_get_config_hook = 1" "app_rank libcli_get_root = 0"
  "56 \<le> p \<Longrightarrow> app_rank p = 20 + p" "56 \<le> p \<Longrightarrow> p < 79 \<Longrightarrow> can_offer app_rank p" "56 \<le> p \<Longrightarrow> p < 79 \<Longrightarrow> app_param app_rank p"
  by (auto simp: can_offer_def app_rank_def special_def hook_defs app_param_def)

lemma builds_end: "builds app_rank (still_free p) (run_steps []) {smp_no}"
  by (rule builds_done) (simp add: still_free_def)

lemmas sample_steps = main2_steps_def main3_steps_def main4_steps_def testapp_show_steps_def testapp_mtrace_steps_def
  smp_cmd_def smp_leaf_def init_cmd_def append_Cons append_Nil

lemma sample_steps_build:
  "builds app_rank sample_fresh (run_steps []) {smp_no}"
  "builds app_rank sample_fresh (run_steps main2_steps) {smp_no}"
  "builds app_rank sample_fresh (run_steps main3_steps) {smp_no}"
  "builds app_rank sample_fresh (run_steps main4_steps) {smp_no}"
  "builds app_rank sample_fresh (run_steps (testapp_show_steps @ testapp_mtrace_steps)) {smp_no}"
  unfolding sample_steps
  by (intro builds_next builds_code builds_display builds_end; simp add: sample_params smp_defs)+

lemma config_kind_kept:
  assumes "support_cmd_negation smp_no (-1) libcli_get_config_hook h = Some (Inr h')" "h libcli_get_config_hook = Some c"
  shows "map_option p_kind (h' libcli_get_config_hook) = Some (p_kind c)"
  using negation_cases [OF assms] assms(2) by auto

text \<open>A program of these steps, whatever they are, starts with a well-built tree, if it starts.\<close>

theorem sample_starts_well_built:
  assumes "sample_main steps = Some (Inr c)" "builds app_rank sample_fresh (run_steps steps) {smp_no}"
    and "map_option p_kind (cl_params c libcli_get_config_hook) = Some (CmdP n)"
  shows "well_built app_rank (cl_params c) \<and> cli_starts c"
proof -
  obtain c0 where c0: "init_libcli = Inr c0" "well_built app_rank (cl_params c0)" "dom (cl_params c0) \<subseteq> {..<55}"
      "cl_params c0 smp_no = None" "cli_starts c0" by (rule library_built)
  obtain h h' where h: "run_steps steps (cl_params c0) = Inr h"
      "support_cmd_negation smp_no (-1) libcli_get_config_hook h = Some (Inr h')" "c = c0\<lparr>cl_params := h'\<rparr>"
    using assms(1) unfolding sample_main_def c0(1) by auto
  have "dom (cl_params c0) \<inter> sample_fresh = {}" using c0(3,4) by (auto simp: still_free_def smp_defs)
  then have b: "well_built app_rank h" "h smp_no = None"
    using assms(2) c0(2) h(1) unfolding builds_def by blast+
  obtain x where x: "h libcli_get_config_hook = Some x"
    using h(2) by (auto simp: support_cmd_negation_def pget_Inr split: option.splits sum.splits if_splits elim!: rbind_InrE)
  have k: "p_kind x = CmdP n" using config_kind_kept [OF h(2) x] assms(3) h(3) by auto
  have "well_built app_rank h'"
  proof (rule negation_builds [OF b(1) h(2) b(2) _ _ x])
    show "app_rank libcli_get_config_hook < app_rank r \<Longrightarrow> r = smp_no \<or> app_rank smp_no < app_rank r" for r
      by (auto simp: app_rank_def hook_defs smp_defs split: if_splits)
  qed (auto simp: k sample_params app_param_def can_offer_def app_rank_def special_def hook_defs smp_defs)
  with c0(5) h(3) show ?thesis by (simp add: cli_starts_def)
qed

section \<open>They start\<close>

text \<open>The tree of a program, and what is checked of it by evaluation.\<close>

definition sample_tree :: "(param_heap \<Rightarrow> param_heap res) list \<Rightarrow> param_heap res option" where
  "sample_tree steps =
     obind (Some init_params) (\<lambda>h. obind (Some (run_steps steps h)) (\<lambda>h.
       support_cmd_negation smp_no (-1) libcli_get_config_hook h))"

definition sample_facts :: "(param_heap \<Rightarrow> bool) \<Rightarrow> (param_heap \<Rightarrow> param_heap res) list \<Rightarrow> bool" where
  "sample_facts facts steps \<longleftrightarrow>
     (case sample_tree steps of
        Some (Inr h) \<Rightarrow> is_cmd h libcli_get_config_hook ''config'' \<and> facts h
      | _ \<Rightarrow> False)"

definition main2_facts :: "param_heap \<Rightarrow> bool" where
  "main2_facts h \<longleftrightarrow>
     map_option p_CMDCODE (h smp_node_name) = Some CMDODE_SHOW_NODE_LOOPBACK \<and>
     map_option p_CMDCODE (h smp_loopback_address) = Some (-1)"

definition main4_facts :: "param_heap \<Rightarrow> bool" where
  "main4_facts h \<longleftrightarrow>
     is_cmd h smp_config_node ''node'' \<and> is_cmd h smp_config_loopback ''loopback'' \<and>
     map_option p_kind (h smp_no) = Some (NoCmdP ''no'') \<and>
     is_cmd h 10 ''/'' \<and> is_cmd h 11 ''?'' \<and> is_cmd h 12 ''.'' \<and>
     map_option (\<lambda>c. unambiguous h (p_options c) ''config'' libcli_get_config_hook) (h libcli_get_root) = Some True \<and>
     map_option (\<lambda>c. unambiguous h (p_options c) ''no'' smp_no) (h libcli_get_config_hook) = Some True \<and>
     map_option (\<lambda>c. unambiguous h (p_options c) ''node'' smp_config_node) (h libcli_get_config_hook) = Some True \<and>
     map_option (\<lambda>c. unambiguous h (p_options c) ''node'' smp_config_node) (h smp_no) = Some True \<and>
     map_option (\<lambda>c. unambiguous h (p_options c) ''loopback'' smp_config_loopback) (h smp_config_node_name) = Some True \<and>
     map_option (\<lambda>c. live_options (p_options c)) (h smp_config_node) = Some [10, 11, 12, smp_config_node_name] \<and>
     map_option (\<lambda>c. live_options (p_options c)) (h smp_config_loopback) = Some [10, 11, 12, smp_config_loopback_address] \<and>
     map_option p_kind (h smp_config_node_name) =
       Some (LeafP \<lparr>lf_type = LT_STRING, lf_value = replicate 64 nul, lf_user_validation = Some (app_validation 0),
                    lf_id = ''node_name''\<rparr>) \<and>
     map_option p_kind (h smp_config_loopback_address) =
       Some (LeafP \<lparr>lf_type = LT_IPV4, lf_value = replicate 64 nul, lf_user_validation = Some (app_validation 1),
                    lf_id = ''lo_address''\<rparr>) \<and>
     map_option p_callback (h smp_config_loopback_address) = Some (Some (app_callback 1)) \<and>
     map_option p_CMDCODE (h smp_config_loopback_address) = Some CMDODE_CONFIG_NODE_LOOPBACK \<and>
     map_option p_parent (h smp_config_loopback_address) = Some (Some smp_config_loopback) \<and>
     map_option p_parent (h smp_config_loopback) = Some (Some smp_config_node_name) \<and>
     map_option p_parent (h smp_config_node_name) = Some (Some smp_config_node) \<and>
     map_option p_parent (h smp_config_node) = Some (Some libcli_get_config_hook) \<and>
     map_option p_parent (h libcli_get_config_hook) = Some (Some libcli_get_root)"

lemma sample_facts_true:
  "sample_facts (\<lambda>h. True) []" "sample_facts (\<lambda>h. True) main3_steps"
  "sample_facts (\<lambda>h. True) (testapp_show_steps @ testapp_mtrace_steps)"
  by code_simp+

lemma main2_facts: "sample_facts main2_facts main2_steps" by code_simp

lemma main4_facts: "sample_facts main4_facts main4_steps" by code_simp

lemma fresh_buffer: "sb_tlvs (init_serialized_buffer_of_defined_size 1024) []"
  by (rule init_sb_tlvs) (simp_all add: i32_ok_def)

lemma sample_started:
  assumes "sample_facts facts steps" "m = sample_main steps" "builds app_rank sample_fresh (run_steps steps) {smp_no}"
  shows "\<exists>c. m = Some (Inr c) \<and> well_built app_rank (cl_params c) \<and> facts (cl_params c) \<and>
    is_cmd (cl_params c) libcli_get_config_hook ''config'' \<and> cli_starts c"
proof -
  obtain h where h: "sample_tree steps = Some (Inr h)" "facts h" "is_cmd h libcli_get_config_hook ''config''"
    using assms(1) by (auto simp: sample_facts_def split: option.splits sum.splits)
  obtain c0 where c0: "init_libcli = Inr c0" by (rule library_built)
  have "sample_main steps = obind (sample_tree steps) (\<lambda>h. Some (Inr (c0\<lparr>cl_params := h\<rparr>)))"
    unfolding sample_main_def sample_tree_def c0 library_params [OF c0] by (simp add: obind_assoc)
  then obtain c where c: "sample_main steps = Some (Inr c)" "facts (cl_params c)"
      "is_cmd (cl_params c) libcli_get_config_hook ''config''"
    using h by simp
  have "map_option p_kind (cl_params c libcli_get_config_hook) = Some (CmdP ''config'')"
    using c(3) by (simp add: is_cmd_def)
  from sample_starts_well_built [OF c(1) assms(3) this] c assms(2) show ?thesis by simp
qed

lemma programs_start:
  "\<exists>c. main1 = Some (Inr c) \<and> well_built app_rank (cl_params c) \<and> cli_starts c"
  "\<exists>c. main2 = Some (Inr c) \<and> well_built app_rank (cl_params c) \<and> cli_starts c \<and> main2_facts (cl_params c)"
  "\<exists>c. main3 = Some (Inr c) \<and> well_built app_rank (cl_params c) \<and> cli_starts c"
  "\<exists>c. main4 = Some (Inr c) \<and> well_built app_rank (cl_params c) \<and> cli_starts c \<and> main4_facts (cl_params c) \<and>
    is_cmd (cl_params c) libcli_get_config_hook ''config''"
  "\<exists>c. testapp_main = Some (Inr c) \<and> well_built app_rank (cl_params c) \<and> cli_starts c"
  using sample_started [OF sample_facts_true(1) main1_def sample_steps_build(1)]
    sample_started [OF main2_facts main2_def sample_steps_build(2)]
    sample_started [OF sample_facts_true(2) main3_def sample_steps_build(3)]
    sample_started [OF main4_facts main4_def sample_steps_build(4)]
    sample_started [OF sample_facts_true(3) testapp_main_def sample_steps_build(5)]
  by blast+

definition sample_programs :: "cli res option list" where
  "sample_programs = [main1, main2, main3, main4, testapp_main]"

text \<open>Every sample program starts, with a tree that the parser is proved right for.\<close>

theorem samples_start:
  assumes "m \<in> set sample_programs"
  shows "\<exists>c. m = Some (Inr c) \<and> tree_ok app_rank (cl_params c) \<and> values_ok (cl_params c) \<and>
    cl_cursor c = Some libcli_get_root \<and> sb_tlvs (cl_tlv_buff c) []"
proof -
  have "\<exists>c. m = Some (Inr c) \<and> well_built app_rank (cl_params c) \<and> cli_starts c"
    using assms programs_start unfolding sample_programs_def list.set by blast
  then show ?thesis using well_built_tree fresh_buffer unfolding cli_starts_def by fastforce
qed

text \<open>The code that \<^verbatim>\<open>main2.c\<close> means for the address ends up on the name.\<close>

theorem main2_codes:
  "\<exists>c x y. main2 = Some (Inr c) \<and> cl_params c smp_node_name = Some x \<and> p_CMDCODE x = CMDODE_SHOW_NODE_LOOPBACK \<and>
    cl_params c smp_loopback_address = Some y \<and> p_CMDCODE y = -1"
  using programs_start(2) by (force simp: main2_facts_def)

end
