(* ===== verification/SampleCommands.thy ===== *)
theory SampleCommands
  imports SampleTrees
begin

text \<open>
  Typing the configuration command of \<^verbatim>\<open>main4.c\<close>, and its negation: the whole way from
  the line to what the handler prints.
\<close>

section \<open>The tree of the program\<close>

definition main4_cli :: cli where
  "main4_cli = (case main4 of Some (Inr c) \<Rightarrow> c | _ \<Rightarrow> projr init_libcli)"

lemma main4_cli:
  "main4 = Some (Inr main4_cli)" "tree_ok app_rank (cl_params main4_cli)" "values_ok (cl_params main4_cli)"
  "cli_starts main4_cli" "main4_facts (cl_params main4_cli)"
  "is_cmd (cl_params main4_cli) libcli_get_config_hook ''config''"
proof -
  obtain c where c: "main4 = Some (Inr c)" "well_built app_rank (cl_params c)" "cli_starts c" "main4_facts (cl_params c)"
      "is_cmd (cl_params c) libcli_get_config_hook ''config''"
    using programs_start(4) by blast
  have e: "main4_cli = c" unfolding main4_cli_def c(1) option.case sum.case ..
  from c well_built_tree [OF c(2)] show
    "main4 = Some (Inr main4_cli)" "tree_ok app_rank (cl_params main4_cli)" "values_ok (cl_params main4_cli)"
    "cli_starts main4_cli" "main4_facts (cl_params main4_cli)"
    "is_cmd (cl_params main4_cli) libcli_get_config_hook ''config''" unfolding e by blast+
qed

section \<open>The path of the command\<close>

text \<open>The words, and the parameters they lead through; \<open>neg\<close> for the negated command.\<close>

definition node_words :: "bool \<Rightarrow> string \<Rightarrow> string \<Rightarrow> string list" where
  "node_words neg n a = [''config''] @ (if neg then [''no''] else []) @ [''node'', n, ''loopback'', a]"

definition node_params :: "bool \<Rightarrow> pptr list" where
  "node_params neg = [libcli_get_config_hook] @ (if neg then [smp_no] else []) @
     [smp_config_node, smp_config_node_name, smp_config_loopback, smp_config_loopback_address]"

definition plain_word :: "string \<Rightarrow> bool" where
  "plain_word w \<longleftrightarrow> \<not> prefix w ''/'' \<and> \<not> prefix w ''?'' \<and> \<not> prefix w ''.'' \<and> nul \<notin> set w \<and> length w < 64"

lemma node_path:
  assumes "plain_word n" "plain_word a"
  shows "word_path (main4_env junk u) (cl_params main4_cli) libcli_get_root (node_words neg n a) (node_params neg)"
proof -
  let ?h = "cl_params main4_cli" and ?ev = "main4_env junk u"
  note f = main4_cli(5) [unfolded main4_facts_def] main4_cli(6)
  obtain r cfg no nd nm lo la where c: "?h libcli_get_root = Some r" "?h libcli_get_config_hook = Some cfg" "?h smp_no = Some no"
      "?h smp_config_node = Some nd" "?h smp_config_node_name = Some nm" "?h smp_config_loopback = Some lo"
      "?h smp_config_loopback_address = Some la"
    using f by (auto simp: is_cmd_def)
  have "accepts ?ev cfg ''config''" "accepts ?ev no ''no''" "accepts ?ev nd ''node''" "accepts ?ev lo ''loopback''"
      "accepts ?ev nm n" "accepts ?ev la a"
    using f c assms
    by (simp_all add: is_cmd_def accepts_def INVOKE_LEAF_USER_VALIDATION_CALLBACK_def plain_word_def main4_env_def node_validations)
  moreover have "unambiguous ?h (p_options r) ''config'' libcli_get_config_hook" "unambiguous ?h (p_options cfg) ''no'' smp_no"
      "unambiguous ?h (p_options cfg) ''node'' smp_config_node" "unambiguous ?h (p_options no) ''node'' smp_config_node"
      "unambiguous ?h (p_options nm) ''loopback'' smp_config_loopback"
    using f c by simp_all
  moreover have "unambiguous ?h (p_options nd) n smp_config_node_name" "unambiguous ?h (p_options lo) a smp_config_loopback_address"
    using f c assms by (auto intro!: leaf_unambiguous simp: is_leaf_def plain_word_def)
  ultimately show ?thesis using c assms
    by (cases neg) (simp_all add: node_words_def node_params_def nul_def plain_word_def)
qed

text \<open>What the words put into the buffer, in every tree that differs in the values of leaves only.\<close>

lemma node_line:
  assumes "same_tree (cl_params main4_cli) h" "plain_word n" "plain_word a"
  shows "\<exists>c l1 l2. h smp_config_loopback_address = Some c \<and> p_callback c = Some (app_callback 1) \<and>
    p_CMDCODE c = CMDODE_CONFIG_NODE_LOOPBACK \<and>
    word_path (main4_env junk u) h libcli_get_root (node_words neg n a) (node_params neg) \<and>
    branch h smp_config_loopback_address [smp_config_loopback_address, smp_config_loopback, smp_config_node_name,
      smp_config_node, libcli_get_config_hook] \<and>
    lf_id l1 = ''node_name'' \<and> lf_id l2 = ''lo_address'' \<and>
    word_tlvs h (node_words neg n a) (node_params neg) = [leaf_tlv (l1\<lparr>lf_value := n\<rparr>), leaf_tlv (l2\<lparr>lf_value := a\<rparr>)] \<and>
    branch_mode libcli_get_config_hook (word_mode h (node_params neg) MODE_UNKNOWN) =
      (if neg then CONFIG_DISABLE else CONFIG_ENABLE)"
proof -
  let ?h = "cl_params main4_cli"
  note f = main4_cli(5) [unfolded main4_facts_def] main4_cli(6)
  obtain nm la no where nm: "?h smp_config_node_name = Some nm" "?h smp_config_loopback_address = Some la" "?h smp_no = Some no"
    using f by auto
  obtain nm' la' no' where c: "h smp_config_node_name = Some nm'" "cleared nm' = cleared nm"
      "h smp_config_loopback_address = Some la'" "cleared la' = cleared la" "h smp_no = Some no'" "cleared no' = cleared no"
    using same_tree_Some [OF assms(1) nm(1)] same_tree_Some [OF assms(1) nm(2)] same_tree_Some [OF assms(1) nm(3)] by blast
  obtain l1 where l1: "p_kind nm' = LeafP l1" "lf_id l1 = ''node_name''"
    using same_leaf [OF c(2)] f nm by force
  obtain l2 where l2: "p_kind la' = LeafP l2" "lf_id l2 = ''lo_address''"
    using same_leaf [OF c(4)] f nm by force
  have no': "p_kind no' = NoCmdP ''no''" using same_kind(2) [OF c(6)] f nm by simp
  have cb: "p_callback la' = Some (app_callback 1)" "p_CMDCODE la' = CMDODE_CONFIG_NODE_LOOPBACK"
    using cleared_eqD(3,4) [OF c(4)] f nm by auto
  obtain cfg nd lo where k: "h libcli_get_config_hook = Some cfg" "p_kind cfg = CmdP ''config''"
      "h smp_config_node = Some nd" "p_kind nd = CmdP ''node''" "h smp_config_loopback = Some lo" "p_kind lo = CmdP ''loopback''"
    using f is_cmd_same [OF assms(1)] by blast
  have "branch h smp_config_loopback_address [smp_config_loopback_address, smp_config_loopback, smp_config_node_name,
      smp_config_node, libcli_get_config_hook]"
    using f by (intro branch_same [OF assms(1)]) (auto simp: smp_defs hook_defs)
  moreover have "word_path (main4_env junk u) h libcli_get_root (node_words neg n a) (node_params neg)"
    using word_path_same [OF assms(1) node_path [OF assms(2,3)]] .
  ultimately show ?thesis
    using c l1 l2 cb k no' by (intro exI [of _ la'] exI [of _ l1] exI [of _ l2])
      (simp add: branch_mode_def node_words_def node_params_def)
qed

section \<open>The handler\<close>

lemma leaf_value_read:
  assumes "nul \<notin> set v" "length v < 64" "lf_id l = i" "nul \<notin> set i" "length i < 32"
  shows "cstr (tlv_leaf_id (leaf_tlv (l\<lparr>lf_value := v\<rparr>))) = i" "cstr (tlv_value (leaf_tlv (l\<lparr>lf_value := v\<rparr>))) = v"
proof -
  have c: "cstr w = w" if "nul \<notin> set w" for w using that by (auto simp: cstr_def takeWhile_eq_all_conv)
  have p: "cstr (w @ replicate (m - length w) nul) = w" if "nul \<notin> set w" "length w < m" for w m
    using that cstr_append [of w "replicate (m - length w - 1) nul"]
    by (cases "m - length w") simp_all
  show "cstr (tlv_leaf_id (leaf_tlv (l\<lparr>lf_value := v\<rparr>))) = i" "cstr (tlv_value (leaf_tlv (l\<lparr>lf_value := v\<rparr>))) = v"
    using assms c p by (simp_all add: leaf_tlv_def)
qed

definition node_report :: "bool \<Rightarrow> string \<Rightarrow> string \<Rightarrow> string list" where
  "node_report neg n a =
     [''node_loopback_callback_handler() is called ...'', ''cmd_code = 3'',
      ''node_name = '' @ n @ ''. lo-address = '' @ a @ '', op_code = '' @
        (if neg then ''CONFIG_DISABLE'' else ''CONFIG_ENABLE'')]"

lemma node_handler_reports:
  assumes "handler_sees t [leaf_tlv (l1\<lparr>lf_value := n\<rparr>), leaf_tlv (l2\<lparr>lf_value := a\<rparr>)] CMDODE_CONFIG_NODE_LOOPBACK"
    and "plain_word n" "plain_word a" "lf_id l1 = ''node_name''" "lf_id l2 = ''lo_address''"
  shows "main4_loopback_callback_handler (if neg then CONFIG_DISABLE else CONFIG_ENABLE) t =
    Inr (t\<lparr>sh_out := sh_out t @ node_report neg n a\<rparr>)"
proof -
  have i: "nul \<notin> set ''node_name''" "nul \<notin> set ''lo_address''" by (simp_all add: nul_def)
  note v1 = leaf_value_read [of n l1 "''node_name''"] and v2 = leaf_value_read [of a l2 "''lo_address''"]
  have "node_leaves [leaf_tlv (l1\<lparr>lf_value := n\<rparr>), leaf_tlv (l2\<lparr>lf_value := a\<rparr>)] None None = (Some n, Some a)"
    using v1 v2 assms(2-5) i by (simp add: plain_word_def strn_prefix_def Let_def)
  moreover have "print_d 3 = ''3''" by code_simp
  ultimately show ?thesis using assms(1)
    by (simp add: main4_loopback_callback_handler_def handler_sees_def CMDODE_CONFIG_NODE_LOOPBACK_def
        CMDODE_SHOW_NODE_LOOPBACK_def percent_s_def say_def node_report_def)
qed

section \<open>The command\<close>

theorem node_command:
  fixes s :: "'a shell"
  assumes root: "ready_at_root (cl_params main4_cli) s"
    and line: "holds input l" "length l < 2048" "strtok_all CHR '' '' (trim l) = node_words neg n a"
    and words: "plain_word n" "plain_word a"
  shows "\<exists>s'. parse_input_cmd (m + 2) (main4_env junk u) input s = Some (Inr (COMPLETE, False, s')) \<and>
    ready_at_root (cl_params main4_cli) s' \<and> sh_out s' = sh_out s @ ''Parse Success.'' # node_report neg n a"
proof -
  have r: "same_tree (cl_params main4_cli) (params s)" "cursor s = Some libcli_get_root" "sb_tlvs (tlv_buff s) []"
      "tokens_ok (cl_tokens (sh_cli s))" "shell_ok app_rank s"
    using root tree_ok_same [OF _ main4_cli(2)] by (simp_all add: ready_at_root_def shell_ok_def)
  obtain c l1 l2 where w: "params s smp_config_loopback_address = Some c" "p_callback c = Some (app_callback 1)"
      "p_CMDCODE c = CMDODE_CONFIG_NODE_LOOPBACK"
      "word_path (main4_env junk u :: 'a env) (params s) libcli_get_root (node_words neg n a) (node_params neg)"
      "branch (params s) smp_config_loopback_address [smp_config_loopback_address, smp_config_loopback, smp_config_node_name,
        smp_config_node, libcli_get_config_hook]"
      "lf_id l1 = ''node_name''" "lf_id l2 = ''lo_address''"
      "word_tlvs (params s) (node_words neg n a) (node_params neg) = [leaf_tlv (l1\<lparr>lf_value := n\<rparr>), leaf_tlv (l2\<lparr>lf_value := a\<rparr>)]"
      "branch_mode libcli_get_config_hook (word_mode (params s) (node_params neg) MODE_UNKNOWN) =
        (if neg then CONFIG_DISABLE else CONFIG_ENABLE)"
    using node_line [OF r(1) words] by blast
  have ln: "last (node_params neg) = smp_config_loopback_address" by (simp add: node_params_def)
  have nw: "node_words neg n a \<noteq> []" "length (node_words neg n a) \<le> 16" "\<forall>w \<in> set (node_words neg n a). length w < 64"
      "\<not> parser_word (libcli_get_root = libcli_get_root) (node_words neg n a)"
    using words by (auto simp: node_words_def plain_word_def parser_word_def)
  have lo: "i32_ok (p_CMDCODE c)" "\<not> special smp_config_loopback_address" "smp_config_loopback_address \<noteq> libcli_get_config_hook"
      "last [smp_config_loopback_address, smp_config_loopback, smp_config_node_name, smp_config_node, libcli_get_config_hook]
        \<noteq> libcli_get_repeat_hook"
    using w(3) by (simp_all add: i32_ok_def CMDODE_CONFIG_NODE_LOOPBACK_def special_def hook_defs smp_defs)
  obtain t where t: "parse_input_cmd (m + 2) (main4_env junk u) input s =
      obind (invoke (Suc m) (main4_env junk u) smp_config_loopback_address (app_callback 1)
        (if neg then CONFIG_DISABLE else CONFIG_ENABLE) t) (\<lambda>s.
        obind (Some (after_command s)) (\<lambda>s. Some (Inr (COMPLETE, False, s))))"
      "handler_sees t [leaf_tlv (l1\<lparr>lf_value := n\<rparr>), leaf_tlv (l2\<lparr>lf_value := a\<rparr>)] CMDODE_CONFIG_NODE_LOOPBACK"
      "cursor t = cursor s" "same_tree (params s) (params t)" "tokens_ok (cl_tokens (sh_cli t))" "shell_ok app_rank t"
      "\<exists>ts. sb_tlvs (tlv_buff t) ts" "sh_out t = sh_out s @ [''Parse Success.'']"
    using typed_command [OF r(5,2,3) _ line(1,2) r(4) line(3) nw w(4), unfolded ln, OF _ w(1,2) lo(1,2,3) w(5) lo(4), of "Suc m"]
      w(3,8,9) by auto
  let ?t = "t\<lparr>sh_out := sh_out t @ node_report neg n a\<rparr>"
  have "invoke (Suc m) (main4_env junk u) smp_config_loopback_address (app_callback 1)
      (if neg then CONFIG_DISABLE else CONFIG_ENABLE) t = Some (Inr ?t)"
    using node_handler_reports [OF t(2) words w(6,7)] by (simp add: invoke.simps run_callback_def main4_env_def)
  moreover have "shell_ok app_rank ?t" using t(6) by (simp add: shell_ok_def)
  then obtain s' where "after_command ?t = Inr s'" "ready_at_root (cl_params main4_cli) s'" "sh_out s' = sh_out ?t"
    using after_root_command [of ?t "cl_params main4_cli" app_rank] t(3,5,7) r(2) same_tree_trans [OF r(1) t(4)]
    by (auto simp: get_cmd_tree_cursor_def)
  ultimately show ?thesis using t(1,8) by simp
qed

end
