(* ===== verification/Spec2Isabelle.thy ===== *)
theory Spec2Isabelle
  imports ServerProps StringProps CmdHierProps GlThread Senders TestAppProps SessionProps SampleCommands
begin

text \<open>
  A model of the TCP server library of this repository and of the command-line library it carries
  along, with the theorems that make them correct.

  \<^bold>\<open>The program.\<close> A \<^verbatim>\<open>TcpServerController\<close> owns three parts: an acceptor
  (\<^verbatim>\<open>TcpNewConnectionAcceptor\<close>) whose thread accepts connections, a service manager
  (\<^verbatim>\<open>TcpClientServiceManager\<close>) whose thread polls the connected clients with epoll and
  reads from them, and a client database (\<^verbatim>\<open>TcpClientDbManager\<close>). Each \<^verbatim>\<open>TcpClient\<close> has a
  message demarcator (\<^verbatim>\<open>TcpMsgDemarcar\<close> and its two subclasses) that stores the bytes in a
  ring (\<^verbatim>\<open>ByteCircularBuffer\<close>) and hands complete messages to a callback of the application.
  Under \<^verbatim>\<open>CommandParser/\<close> stands a command-line library in C: a tree of parameters, a cursor in
  it, a prompt, the values of leaves collected as records in a growing buffer, string utilities
  and an intrusive linked list, a parser that walks the words of a line through the tree and calls
  the handler at its end, the handlers of the built-in commands, and a runner of test scripts. The
  application \<^verbatim>\<open>testapp.cpp\<close> brings the two together: it registers commands that create, start
  and stop servers.

  \<^bold>\<open>The theories\<close>, in the order of their imports:

  \<^item> \<open>Prelude\<close>: faults, results (\<open>Inl\<close> a fault, \<open>Inr\<close> the value), blocks of memory,
    the mutex, network byte order, list lemmas.
  \<^item> \<open>ByteBuffer\<close> (\<^verbatim>\<open>ByteCircularBuffer.cpp\<close>): the record \<open>bcb\<close> and one definition per
    function; the invariant \<open>bcb_inv\<close>, the bytes held (\<open>contents\<close>), the interface
    \<open>byte_fifo\<close> with its interpretation \<open>bq\<close>, and the refinement of a bounded queue
    (\<open>ring_run\<close> against \<open>fifo_run\<close>).
  \<^item> \<open>Demarcar\<close> (\<^verbatim>\<open>TcpMsg*Demarcar.cpp\<close>, \<^verbatim>\<open>send_msg\<close>): the demarcators; virtual calls
    branch on \<open>dm_class\<close>. \<open>Framing\<close>: what they compute, against the reference parsers
    \<open>parse_frames\<close> and \<open>parse_fixed\<close>.
  \<^item> \<open>TcpClient\<close>, \<open>SvcManager\<close>, \<open>Controller\<close>: the classes of the same names. A client is an
    address in a heap, so that a deleted client that is still in a list is visible; its pointer to a
    demarcator may be null or one that was never set (\<open>msgd_ptr\<close>); sockets are the
    bytes the kernel holds, and a schedule of numbers says how many bytes each read returns. The
    relation \<open>server_step\<close> interleaves application calls, thread steps and peers.
  \<^item> \<open>Delivery\<close>: what the receive loop delivers. \<open>ServerProps\<close>: the invariants of
    \<open>server_step\<close>, progress of the service thread, stopping. \<open>Senders\<close>: the programs that
    send to a server, and rounds in which their bytes arrive and the service thread runs
    (\<open>serve_rounds\<close>).
  \<^item> \<open>SerBuffer\<close> (\<^verbatim>\<open>serialize.c\<close>), \<open>GlThread\<close> (\<^verbatim>\<open>gluethread/\<close>), \<open>StringUtil\<close> and
    \<open>StringProps\<close> (\<^verbatim>\<open>string_util.c\<close>), \<open>CmdTlv\<close> (\<^verbatim>\<open>cmdtlv.h\<close>), \<open>CmdHier\<close> and
    \<open>CmdHierProps\<close> (\<^verbatim>\<open>cmd_hier.c\<close> and the token lookup of \<^verbatim>\<open>parser.c\<close>): state,
    operations and lemmas of the command-line library.
  \<^item> \<open>CmdShell\<close> (\<^verbatim>\<open>clistd.c\<close>): the state of the shell (standard input and files are strings,
    printed lines a list, and opening a file takes one of the descriptors that are left) and the handlers of the built-in commands. \<open>UtParser\<close>
    (\<^verbatim>\<open>ut_parser.c\<close>): test scripts. \<open>CmdParser\<close> (\<^verbatim>\<open>parser.c\<close>): the token loop, what a
    complete command does, the commands the parser knows itself and the shell loop. A handler that
    starts the parser again, or another handler, gets it as an argument.
  \<^item> \<open>CmdWalk\<close>: well-typed trees and what the token loop does to one. \<open>CmdMode\<close> and
    \<open>ModeCommands\<close>: the invariant of the mode, handler by handler and for whole lines.
    \<open>ParserDepth\<close>: the bound on nested calls does not matter once it is enough. \<open>TypedCommand\<close>: a
    line whose words follow a path of the tree.
  \<^item> \<open>NetUtils\<close> (\<^verbatim>\<open>network_utils.cpp\<close>): addresses as numbers and as text, each the inverse of the
    other. \<open>TestApp\<close> and \<open>TestAppProps\<close> (\<^verbatim>\<open>testapp.cpp\<close>): the application, its tree of
    commands by evaluation, and what typing its commands does.
  \<^item> \<open>TreeBuild\<close>: declaring, registering and negating parameters keeps a tree well-built.
    \<open>Samples\<close> (\<^verbatim>\<open>main1.c\<close> to \<^verbatim>\<open>main4.c\<close>, the \<^verbatim>\<open>testapp.c\<close> and
    \<^verbatim>\<open>gluethread/test.c\<close> of the library): the sample programs. \<open>SampleTrees\<close>: they start with
    well-built trees. \<open>SampleCommands\<close>: a command of \<^verbatim>\<open>main4.c\<close>, from the line to what it prints.
  \<^item> \<open>ShellInvariant\<close>: the locale of what a property of the shell has to survive so that every
    line keeps it, with all lines, files, scripts and handlers a line can start. \<open>SessionProps\<close>: two
    such properties, of the tree and of the servers, and sessions of the application in which lines and
    steps of the servers' threads interleave.

  \<^bold>\<open>Conventions.\<close> A definition has the name of the function it models, where HOL leaves the name
  free. Integers keep their width: \<^verbatim>\<open>uint16_t\<close> is a 16-bit word, an \<^verbatim>\<open>int\<close> is an integer that
  is checked for overflow. Null pointers, out-of-bounds accesses, use of freed objects, use of memory
  that was never set as a pointer or a lock, failed assertions, self-deadlock and signed overflow are the
  faults of the model. A loop that may run
  for ever is a partial function whose value \<open>None\<close> is not returning; the properties that say
  that the code returns say so explicitly. There are two bounds. The kernel's schedule of a receive
  loop has one number per turn; a loop that is still running when its schedule ends has the value
  \<open>None\<close>, so that only the breaks of the code end it, and a schedule longer than the number of
  pending bytes is enough, because every turn that does not end the loop takes at least one of them (C1,
  C2, C6, C9). The number in front of \<open>parse_input_cmd\<close> bounds the depth of calls of the parser
  from within handlers: 2 is enough for a line that starts no other line, twice the number of free
  descriptors and one more for a file that repeats its own loading (C40), and a
  result at one bound is the result at every larger one (\<open>parse_depth\<close>).

  \<^bold>\<open>The properties\<close> C1 to C40 below: delivery of what clients send (C1, C2), the demarcators
  and the senders they cannot serve (C3 to C7), the server as a transition system (C8, C9), accepting,
  stopping and restarting (C10 to C13), the ring and the sender (C14, C15), the serialize buffer (C16 to
  C18), the linked list (C19 to C21), strings (C22 to C25), the tree of commands (C26 to C30) and how
  programs build it (C31, C32), lines of the user (C33 to C35), sessions of the application (C36, C37) and
  its commands (C38 to C40). Several state a defect of the code: messages that wedge a connection (C5),
  programs whose connections always wedge (C6), a demarcator that hangs (C7), uninitialised
  memory used when a server stops (C11), a client used after it was freed (C12), a restart that crashes (C13), overruns (C15, C23), a buffer that never grows (C18), a
  server that is looked up after it was stopped (C39), loads of a file that nest until no descriptor is
  left (C40).

  \<^bold>\<open>Not modelled\<close>: the prompts and the socket set-up of the sender programs, which are console
  and socket I/O; what the validations of the sample programs print; the log file of the test runner,
  terminal colours, the prompt as it is printed, signal dispositions and the stub \<^verbatim>\<open>clicbext.c\<close>;
  the application's printing of a received message, which is not a string; the select branch of the
  service thread and \<^verbatim>\<open>gl_thread_search\<close>, which are compiled out. Allocations of the
  command-line library succeed, the stack is large enough, and data races between threads inside one step
  are outside the model. The descriptors of the shell's files are counted, those of the servers' sockets
  are not: in a session the number that is left may change between any two turns.
\<close>

section \<open>Example states\<close>

definition ex_client :: tcp_client where
  "ex_client = \<lparr>cl_ip_addr = 0, cl_port_no = 0, cl_server_ip_addr = 0, cl_server_port_no = 40000,
     cl_state_flags = 42, comm_fd = 5, cl_tcp_ctrlr = True,
     msgd = Msgd (TcpMsgVariabSizeDemarcar True True True)\<rparr>"

definition ex_mgr :: svc_mgr where
  "ex_mgr = \<lparr>max_fd = 5, epfd = Some 4, epoll_set = [5], svc_threads = [SvcRunning], svc_db = [0],
     is_ready = True\<rparr>"

definition ex_server :: "byte list \<Rightarrow> bool \<Rightarrow> server" where
  "ex_server bs gone = \<lparr>ctrl_ip_addr = 0, ctrl_port_no = 40000, ctrl_name = ''srv'', state_flags = 3,
     tcp_new_conn_acc = Some \<lparr>accept_fd = 3, acc_has_thread = True\<rparr>, tcp_client_db_mgr = Some [0],
     tcp_client_svc_mgr = Some ex_mgr, client_connected_fn = AppFn, client_disconected_fn = AppFn,
     client_msg_recvd_fn = AppFn, heap = [0 \<mapsto> ex_client], next_addr = 1,
     acc_threads = [(3, AccListening)],
     socks = (\<lambda>_. \<lparr>pending = bs, peer_closed = gone, sock_error = False\<rparr>),
     connected = [0], delivered = [], closed_fds = [], ctrl_alive = True, db_rwlock_ok = True\<rparr>"

definition ex_rx :: "byte list \<Rightarrow> rx" where
  "ex_rx bs = \<lparr>rx_heap = [0 \<mapsto> ex_client], rx_svc = ex_mgr,
     rx_socks = (\<lambda>_. \<lparr>pending = bs, peer_closed = False, sock_error = False\<rparr>), rx_out = [], rx_closed = []\<rparr>"

section \<open>Lemmas on the examples\<close>

lemma ex_client_ok:
  "conn_ok [0 \<mapsto> ex_client] 0" "conn_buffered [0 \<mapsto> ex_client] 0 = []" "conn_fd [0 \<mapsto> ex_client] 0 = 5"
  using new_demarcar_ok [of True True True 256 VariabSize]
  by (simp_all add: conn_defs ex_client_def TcpMsgVariabSizeDemarcar_def TcpMsgDemarcar_def)

lemma ex_rx_ok [simp]:
  "conn_ok (rx_heap (ex_rx bs)) 0" "conn_buffered (rx_heap (ex_rx bs)) 0 = []"
  "conn_sock (ex_rx bs) 0 = \<lparr>pending = bs, peer_closed = False, sock_error = False\<rparr>" "rx_out (ex_rx bs) = []"
  using ex_client_ok by (simp_all add: ex_rx_def conn_sock_def)

lemma ex_server_fields [simp]:
  "heap (ex_server bs g) = [0 \<mapsto> ex_client]" "tcp_client_svc_mgr (ex_server bs g) = Some ex_mgr"
  "client_msg_recvd_fn (ex_server bs g) = AppFn" "ctrl_alive (ex_server bs g)"
  "tcp_client_db_mgr (ex_server bs g) = Some [0]" "next_addr (ex_server bs g) = 1"
  "client_connected_fn (ex_server bs g) = AppFn" "closed_fds (ex_server bs g) = []"
  "delivered (ex_server bs g) = []" "db_rwlock_ok (ex_server bs g)"
  "socks (ex_server bs g) = (\<lambda>_. \<lparr>pending = bs, peer_closed = g, sock_error = False\<rparr>)"
  by (simp_all add: ex_server_def)

lemma ex_mgr_fields [simp]:
  "svc_db ex_mgr = [0]" "svc_threads ex_mgr = [SvcRunning]" "epfd ex_mgr = Some 4" "is_ready ex_mgr"
  by (simp_all add: ex_mgr_def)

lemma ex_server_flags: "flags_inv (ex_server bs g)"
  by (simp add: flags_inv_def IsBitSet_def flag_is_set_def server_flag_defs ex_server_def)

lemma ex_server_inv: "server_inv (ex_server bs g)"
proof -
  have "ready_inv (ex_server bs g)" by (simp add: ready_inv_def)
  moreover have "clients_inv (ex_server bs g)" by (simp add: clients_inv_def ex_client_def)
  moreover have "db_inv (ex_server bs g)" by (simp add: db_inv_def)
  ultimately show ?thesis using ex_server_flags by (simp add: server_inv_def)
qed

lemma ex_server_stoppable: "svc_stoppable (ex_server bs g)"
  by (simp add: svc_stoppable_def)

lemma ex_client_tame [simp]: "\<not> wild_client [0 \<mapsto> ex_client] 0"
  by (simp add: wild_client_def ex_client_def)

lemma ex_server_polled: "polled (ex_server bs g) 0 5"
  using ex_client_ok by (simp add: polled_def)

lemma ex_demarcar [simp]:
  "dm_ok (TcpMsgVariabSizeDemarcar True True True)" "dm_contents (TcpMsgVariabSizeDemarcar True True True) = []"
  "dm_cap (TcpMsgVariabSizeDemarcar True True True) = 256"
  "dm_class (TcpMsgVariabSizeDemarcar True True True) = VariabSize"
  "dm_ok (TcpMsgFixedSizeDemarcar True True True k)" "dm_contents (TcpMsgFixedSizeDemarcar True True True k) = []"
  "dm_cap (TcpMsgFixedSizeDemarcar True True True k) = 256"
  "dm_class (TcpMsgFixedSizeDemarcar True True True k) = FixedSize k"
  using new_demarcar_ok [of True True True 256 VariabSize] new_demarcar_ok [of True True True 256 "FixedSize k"]
  by (simp_all add: TcpMsgVariabSizeDemarcar_def TcpMsgFixedSizeDemarcar_def DEFAULT_CBC_SIZE_def TcpMsgDemarcar_def)

section \<open>The server receives what its clients send\<close>

lemma sent_frames:
  assumes "list_all2 (\<lambda>p bs. send_msg True p (of_nat (length p)) = Inr bs) ps bss"
    and "\<forall>p \<in> set ps. length p \<le> MAX_PAYLOAD"
  shows "concat bss = concat (map frame ps)"
  using assms
proof (induction rule: list_all2_induct)
  case (Cons p ps bs bss)
  then have "unat (of_nat (length p) :: u16) = length p"
    by (simp add: MAX_PAYLOAD_def unat_of_nat_u16 del: unat_of_nat)
  with Cons send_msg_frame [of "of_nat (length p)" p] show ?case by (simp add: MAX_PAYLOAD_def)
qed simp

text \<open>
  C1: What the sender program puts on the wire for a list of payloads of at most 254 bytes is what
  the application is given: one round of the service thread, run until the socket is empty, calls
  the message callback once per payload, with that payload, in order, whatever the sizes of the
  pieces the kernel hands out.
\<close>

theorem sent_payloads_delivered:
  assumes "tcp_client_svc_mgr s = Some m" "set (svc_db m) \<subseteq> dom (heap s)" "a \<in> set (svc_db m)"
    and "\<forall>x \<in> set (svc_db m). x \<noteq> a \<longrightarrow> conn_fd (heap s) x \<noteq> conn_fd (heap s) a"
    and "client_msg_recvd_fn s = AppFn" "conn_ok (heap s) a" "conn_buffered (heap s) a = []"
    and "list_all2 (\<lambda>p bs. send_msg True p (of_nat (length p)) = Inr bs) ps bss"
    and "\<forall>p \<in> set ps. length p \<le> MAX_PAYLOAD"
    and "socks s (conn_fd (heap s) a) = \<lparr>pending = concat bss, peer_closed = False, sock_error = False\<rparr>"
    and "length (concat bss) < length ks"
  shows "\<exists>s'. serve_round [(conn_fd (heap s) a, ks)] s = Some (Inr s') \<and>
    delivered s' = delivered s @ map (Pair a) ps \<and>
    conn_ok (heap s') a \<and> conn_buffered (heap s') a = []"
proof -
  let ?w = "\<lparr>rx_heap = heap s, rx_svc = m, rx_socks = socks s, rx_out = [], rx_closed = []\<rparr>"
  obtain c where c: "heap s a = Some c" "comm_fd c = conn_fd (heap s) a"
    using assms(2,3) by (auto simp: conn_fd_def)
  have found: "GetClientByFd (heap s) (svc_db m) (conn_fd (heap s) a) = Inr (Some a)"
    using assms(2-4) c by (intro GetClientByFd_found) auto
  have sent: "concat bss = concat (map frame ps)" using assms(8,9) by (rule sent_frames)
  obtain w' ps1 ps2 where w': "recv_loop True a (conn_fd (heap s) a) ks ?w = Some (Inr (WouldBlock, w'))"
      "ps = ps1 @ ps2" "rx_out w' = map (Pair a) ps1" "conn_ok (rx_heap w') a"
      "conn_buffered (rx_heap w') a = concat (map frame ps2)"
      "fst (parse_frames (conn_buffered (rx_heap w') a)) = []"
    using recv_loop_frames [of ?w a "[]" ps ks "conn_fd (heap s) a"] assms(6,7,9,10,11) sent
    by (auto simp: conn_sock_def)
  have "\<forall>p \<in> set ps2. length p \<le> 254" using assms(9) w'(2) by (auto simp: MAX_PAYLOAD_def)
  then have "\<forall>p \<in> set ps2. length p < 65536" by fastforce
  then have "ps2 = []" using parse_frames_concat [of ps2 "[]"] w'(5,6) by simp
  then show ?thesis
    using w' found assms(1,5) by (simp add: serve_round_def)
qed

theorem sent_payloads_delivered_witness:
  "\<exists>s'. serve_round [(5, replicate 12 0)] (ex_server [0, 2, 7, 8, 0, 0, 0, 1, 9] False) = Some (Inr s') \<and>
    delivered s' = [(0, [7, 8]), (0, []), (0, [9])] \<and>
    conn_ok (heap s') 0 \<and> conn_buffered (heap s') 0 = []"
proof -
  have "send_msg True [7, 8] 2 = Inr [0, 2, 7, 8]" "send_msg True [] 0 = Inr [0, 0]"
      "send_msg True [9] 1 = Inr [0, 1, 9]"
    using send_msg_frame [of 2 "[7, 8]"] send_msg_frame [of 0 "[]"] send_msg_frame [of 1 "[9]"]
    by (simp_all add: frame_def htons_bytes_def)
  then show ?thesis
    using sent_payloads_delivered [of "ex_server [0, 2, 7, 8, 0, 0, 0, 1, 9] False" ex_mgr 0
        "[[7, 8], [], [9]]" "[[0, 2, 7, 8], [0, 0], [0, 1, 9]]" "replicate 12 0"] ex_client_ok
    by (simp add: MAX_PAYLOAD_def)
qed

text \<open>
  C2: Whatever has arrived of the bytes of a peer that sends frames of payloads of at most 254 bytes
  each, the receive loop delivers exactly the payloads whose frames are complete, in order, and keeps
  the incomplete rest in the ring for the bytes to come: \<open>future\<close> is what the peer has yet to send.
\<close>

theorem complete_frames_delivered:
  assumes "conn_ok (rx_heap w) a" "length (conn_buffered (rx_heap w) a) < 256"
    and "\<not> sock_error (conn_sock w a)" "\<not> peer_closed (conn_sock w a)"
    and "conn_buffered (rx_heap w) a @ pending (conn_sock w a) @ future = concat (map frame ps)"
    and "\<forall>p \<in> set ps. length p \<le> MAX_PAYLOAD"
    and "length (pending (conn_sock w a)) < length ks"
    and "fst (parse_frames (conn_buffered (rx_heap w) a)) = []"
  shows "\<exists>w' ps1 ps2. recv_loop True a fd ks w = Some (Inr (WouldBlock, w')) \<and> ps = ps1 @ ps2 \<and>
    rx_out w' = rx_out w @ map (Pair a) ps1 \<and> conn_ok (rx_heap w') a \<and>
    pending (conn_sock w' a) = [] \<and>
    conn_buffered (rx_heap w') a @ future = concat (map frame ps2) \<and>
    length (conn_buffered (rx_heap w') a) < 256 \<and>
    fst (parse_frames (conn_buffered (rx_heap w') a)) = []"
  using assms by (rule recv_loop_frames)

theorem complete_frames_delivered_witness:
  "\<exists>w' ps1 ps2. recv_loop True 0 5 (replicate 9 1) (ex_rx [0, 2, 7, 8, 0, 1]) = Some (Inr (WouldBlock, w')) \<and>
    [[7, 8], [9]] = ps1 @ ps2 \<and> rx_out w' = map (Pair 0) ps1 \<and>
    conn_buffered (rx_heap w') 0 @ [9] = concat (map frame ps2)"
proof -
  have "[0, 2, 7, 8, 0, 1] @ [9] = concat (map frame [[7, 8], [9]])"
    by (simp add: frame_def htons_bytes_def)
  then show ?thesis
    using complete_frames_delivered [of "ex_rx [0, 2, 7, 8, 0, 1]" 0 "[9]" "[[7, 8], [9]]" "replicate 9 1" 5]
    by (fastforce simp: MAX_PAYLOAD_def)
qed

section \<open>The message demarcators\<close>

lemma parse_rest_le: "length (snd (parse_frames xs)) \<le> length xs"
  using parse_frames_bytes [of xs] by simp

lemma ProcessMsg_all:
  assumes "dm_ok d" "dm_class d = VariabSize" "length (dm_contents d) + length xs \<le> dm_cap d"
  shows "\<exists>d'. ProcessMsg True d xs (of_nat (length xs))
      = Some (Inr (d', fst (parse_frames (dm_contents d @ xs)))) \<and>
    dm_ok d' \<and> dm_class d' = VariabSize \<and> dm_cap d' = dm_cap d \<and>
    dm_contents d' = snd (parse_frames (dm_contents d @ xs))"
proof -
  have "dm_cap d \<le> 8192" using assms(1) by (auto simp: dm_cap_def elim: dm_okE)
  then have "unat (of_nat (length xs) :: u16) = length xs"
    using assms(3) by (simp add: unat_of_nat_u16 del: unat_of_nat)
  with ProcessMsg_variab [OF assms(1,2), of "of_nat (length xs)" xs] assms(3) show ?thesis by simp
qed

text \<open>
  C3: The demarcator of variable-size messages does not see how the bytes were cut: processing
  two pieces one after the other delivers the same messages and leaves the same bytes waiting as
  processing them at once, as long as they fit in the ring.
\<close>

theorem segmentation_irrelevant:
  assumes "dm_ok d" "dm_class d = VariabSize"
    and "length (dm_contents d) + length xs + length ys \<le> dm_cap d"
  shows "\<exists>d1 d2 d3 ms1 ms2.
    ProcessMsg True d xs (of_nat (length xs)) = Some (Inr (d1, ms1)) \<and>
    ProcessMsg True d1 ys (of_nat (length ys)) = Some (Inr (d2, ms2)) \<and>
    ProcessMsg True d (xs @ ys) (of_nat (length (xs @ ys))) = Some (Inr (d3, ms1 @ ms2)) \<and>
    dm_contents d2 = dm_contents d3 \<and> dm_ok d2 \<and> dm_ok d3"
proof -
  let ?c = "dm_contents d"
  obtain d1 where d1: "ProcessMsg True d xs (of_nat (length xs)) = Some (Inr (d1, fst (parse_frames (?c @ xs))))"
      "dm_ok d1" "dm_class d1 = VariabSize" "dm_cap d1 = dm_cap d" "dm_contents d1 = snd (parse_frames (?c @ xs))"
    using ProcessMsg_all [of d xs] assms by auto
  have "length (dm_contents d1) + length ys \<le> dm_cap d1"
    using parse_rest_le [of "?c @ xs"] assms(3) d1(4,5) by simp
  then obtain d2 where d2: "ProcessMsg True d1 ys (of_nat (length ys))
        = Some (Inr (d2, fst (parse_frames (dm_contents d1 @ ys))))"
      "dm_ok d2" "dm_contents d2 = snd (parse_frames (dm_contents d1 @ ys))"
    using ProcessMsg_all [OF d1(2,3)] by auto
  obtain d3 where d3: "ProcessMsg True d (xs @ ys) (of_nat (length (xs @ ys)))
        = Some (Inr (d3, fst (parse_frames (?c @ xs @ ys))))"
      "dm_ok d3" "dm_contents d3 = snd (parse_frames (?c @ xs @ ys))"
    using ProcessMsg_all [of d "xs @ ys"] assms by auto
  show ?thesis
    using d1 d2 d3 parse_frames_append [of "?c @ xs" ys] by auto
qed

theorem segmentation_irrelevant_witness:
  "\<exists>d1 d2 d3 ms1 ms2.
    ProcessMsg True (TcpMsgVariabSizeDemarcar True True True) [0, 2, 7] 3 = Some (Inr (d1, ms1)) \<and>
    ProcessMsg True d1 [8, 0, 0] 3 = Some (Inr (d2, ms2)) \<and>
    ProcessMsg True (TcpMsgVariabSizeDemarcar True True True) [0, 2, 7, 8, 0, 0] 6 = Some (Inr (d3, ms1 @ ms2)) \<and>
    dm_contents d2 = dm_contents d3"
  using segmentation_irrelevant [of "TcpMsgVariabSizeDemarcar True True True" "[0, 2, 7]" "[8, 0, 0]"] ex_demarcar
  by auto

text \<open>
  C4: When more bytes are handed to a demarcator than its ring has room for, it fills the ring,
  drops the rest of the bytes and returns without looking for messages, even when the ring now
  holds complete ones.
\<close>

theorem overflow_drops_bytes:
  assumes "dm_ok d" "dm_cap d < length (dm_contents d) + unat n" "unat n \<le> length msg"
  shows "\<exists>d'. ProcessMsg cb d msg n = Some (Inr (d', [])) \<and> dm_ok d' \<and>
    dm_contents d' = dm_contents d @ take (dm_cap d - length (dm_contents d)) msg"
  using feed_loop_overflow [OF assms] by (auto simp: ProcessMsg_def)

theorem overflow_drops_bytes_witness:
  "\<exists>d'. ProcessMsg True (TcpMsgVariabSizeDemarcar True True True) (replicate 300 0) 300 = Some (Inr (d', [])) \<and>
    dm_contents d' = replicate 256 0"
  using overflow_drops_bytes [of "TcpMsgVariabSizeDemarcar True True True" 300 "replicate 300 0" True] ex_demarcar
  by auto

text \<open>
  C5: A frame whose payload is longer than 254 bytes wedges the connection (the sender makes such
  frames without complaint up to 65533 bytes; C15). When the receive loop, with an empty ring, finds
  the whole frame in the socket, it fills the ring of 256 bytes with the start of the frame, delivers
  nothing, and from then on every round of the receive loop gives up at once without reading. Frames
  that arrive in parts over many rounds are the matter of C6.
\<close>

theorem oversized_payload_wedges:
  assumes "conn_ok (rx_heap w) a" "conn_buffered (rx_heap w) a = []" "\<not> sock_error (conn_sock w a)"
    and "pending (conn_sock w a) = frame p @ rest" "MAX_PAYLOAD < length p" "length p < 65536"
    and "length (pending (conn_sock w a)) < length ks"
  shows "\<exists>w'. recv_loop True a fd ks w = Some (Inr (BackPressure, w')) \<and> rx_out w' = rx_out w \<and>
    (\<forall>cb fd k js. recv_loop cb a fd (k # js) w' = Some (Inr (BackPressure, w')))"
proof -
  have "oversized (frame p @ rest)"
    using assms(5,6) ntohs_htons_bytes [of "of_nat (length p)"]
    by (simp add: oversized_def frame_def htons_bytes_def unat_of_nat_u16 del: unat_of_nat)
  then obtain w' where w': "recv_loop True a fd ks w = Some (Inr (BackPressure, w'))" "rx_out w' = rx_out w"
      "conn_ok (rx_heap w') a" "256 \<le> length (conn_buffered (rx_heap w') a)"
    using recv_loop_oversized [of w a ks fd] assms by (auto simp: MAX_PAYLOAD_def)
  then show ?thesis using recv_loop_full by blast
qed

theorem oversized_payload_wedges_witness:
  "\<exists>w'. recv_loop True 0 5 (replicate 300 0) (ex_rx (frame (replicate 255 1) @ [])) = Some (Inr (BackPressure, w')) \<and>
    rx_out w' = [] \<and> (\<forall>cb fd k js. recv_loop cb 0 fd (k # js) w' = Some (Inr (BackPressure, w')))"
  using oversized_payload_wedges [of "ex_rx (frame (replicate 255 1) @ [])" 0 "replicate 255 1" "[]" "replicate 300 0" 5]
  by (simp add: MAX_PAYLOAD_def)

text \<open>
  C6: Two of the programs that come with the server to send to it are never served: the structs of
  the one have their size in the byte order of the machine, the strings of the other have no header, and
  the server reads the first two bytes of either as the length of a message that its ring cannot hold.
  Whatever the user answers and however often they send, however their bytes are cut into arrivals and
  rounds of the service thread, and whatever pieces the kernel hands out in a round: every round returns,
  nothing is ever delivered, the ring keeps the first 256 bytes and the socket all later ones; and once
  256 bytes have come every later round of the receive loop gives up at once without reading.
\<close>

theorem other_senders_wedge:
  assumes "polled s a f" "conn_buffered (heap s) a = []"
    and "socks s f = \<lparr>pending = [], peer_closed = False, sock_error = False\<rparr>"
    and "concat (map fst rs) @ future = tcp_client_sends xs \<or>
      concat (map fst rs) @ future = string_sender_sends n"
    and "\<forall>(bs, ks) \<in> set rs. length (concat (map fst rs)) < length ks"
  shows "\<exists>s'. serve_rounds f rs s = Some (Inr s') \<and> delivered s' = delivered s \<and>
    conn_buffered (heap s') a = take 256 (concat (map fst rs)) \<and>
    pending (socks s' f) = drop 256 (concat (map fst rs)) \<and>
    (256 \<le> length (concat (map fst rs)) \<longrightarrow> (\<forall>cb fd k js w. rx_heap w = heap s' \<longrightarrow>
      recv_loop cb a fd (k # js) w = Some (Inr (BackPressure, w))))"
proof (rule oversized_stream_wedges [OF assms(1-3) _ assms(5)])
  have "0 < n" if "string_sender_sends n \<noteq> []" using that by (cases n) (simp_all add: string_sender_sends_def)
  then show "concat (map fst rs) = [] \<or> oversized (concat (map fst rs) @ future)"
    using assms(4) tcp_client_oversized string_sender_oversized by (metis append_is_Nil_conv)
qed

theorem other_senders_wedge_witness:
  "\<exists>s'. serve_rounds 5 (replicate 10 (string_sender_turn, replicate 300 0)) (ex_server [] False) = Some (Inr s') \<and>
    delivered s' = [] \<and> length (conn_buffered (heap s') 0) = 256 \<and> length (pending (socks s' 5)) = 14"
proof -
  have len: "length (string_sender_sends 10) = 270"
    by (simp add: string_sender_sends_def string_sender_turn_def numeral_Bit0 numeral_Bit1)
  have all: "concat (map fst (replicate 10 (string_sender_turn, replicate 300 (0 :: nat)))) = string_sender_sends 10"
    by (simp add: string_sender_sends_def)
  show ?thesis
    using other_senders_wedge [OF ex_server_polled, of "[]" False "replicate 10 (string_sender_turn, replicate 300 0)"
        "[]" "[]" 10, unfolded all] ex_client_ok len
    by (auto simp: set_replicate_conv_if)
qed

lemma parse_fixed_rest: "0 < k \<Longrightarrow> length (snd (parse_fixed k xs)) < k"
  by (induction k xs rule: parse_fixed.induct) (subst parse_fixed.simps, auto)

text \<open>
  C7: The demarcator of fixed-size messages cuts the bytes into pieces of its size and delivers
  them in order; but the read that ends its loop leaves the mutex of the ring locked, so that the
  next bytes handed to the demarcator hang the thread for ever.
\<close>

theorem fixed_size_delivers_then_hangs:
  assumes "dm_ok d" "dm_class d = FixedSize k" "k \<noteq> 0" "unat n \<le> length msg"
    and "length (dm_contents d) + unat n \<le> dm_cap d" "unat k \<le> length (dm_contents d) + unat n"
    and "dm_cap d < 8192"
  shows "\<exists>d'. ProcessMsg True d msg n
      = Some (Inr (d', fst (parse_fixed (unat k) (dm_contents d @ take (unat n) msg)))) \<and>
    dm_contents d' = snd (parse_fixed (unat k) (dm_contents d @ take (unat n) msg)) \<and>
    (\<forall>msg' n'. n' \<noteq> 0 \<longrightarrow> ProcessMsg True d' msg' n' = Some (Inl Deadlock))"
proof -
  let ?c = "dm_contents d @ take (unat n) msg"
  obtain d1 where d1: "feed_loop d msg n = Some (Inr (True, d1))" "dm_ok d1" "dm_class d1 = FixedSize k"
      "dm_cap d1 = dm_cap d" "dm_contents d1 = ?c"
    using feed_loop_fits [OF assms(1,5,4)] assms(2) by auto
  have k: "unat k < 8192" "0 < unat k" using assms(3,5,6,7) by (simp_all add: unat_gt_0)
  obtain d' where d': "ProcessClientMsg True d1 = Some (Inr (d', fst (parse_fixed (unat k) ?c)))"
      "dm_contents d' = snd (parse_fixed (unat k) ?c)" "dm_cap d' = dm_cap d"
      "if length ?c < unat k then dm_ok d' else dm_locked d'"
    using ProcessClientMsg_fixed [OF d1(2,3) assms(3) k(1)] d1(4,5) by auto
  have locked: "dm_locked d'" using d'(4) assms(4,6) by (auto split: if_splits)
  have room: "length (dm_contents d') < dm_cap d'"
    using parse_fixed_rest [OF k(2), of ?c] d'(2,3) assms(5,6) by simp
  have "ProcessMsg True d' msg' n' = Some (Inl Deadlock)" if "n' \<noteq> 0" for msg' n'
    using locked that room by (rule locked_write_deadlocks)
  then show ?thesis using d1(1) d' by (auto simp: ProcessMsg_def)
qed

theorem fixed_size_delivers_then_hangs_witness:
  "\<exists>d'. ProcessMsg True (TcpMsgFixedSizeDemarcar True True True 2) [1, 2, 3, 4, 5] 5
      = Some (Inr (d', [[1, 2], [3, 4]])) \<and> dm_contents d' = [5] \<and>
    ProcessMsg True d' [6] 1 = Some (Inl Deadlock)"
  using fixed_size_delivers_then_hangs [of "TcpMsgFixedSizeDemarcar True True True 2" 2 5 "[1, 2, 3, 4, 5]"]
    ex_demarcar
  by (fastforce simp: parse_fixed.simps)


section \<open>The server as a transition system\<close>

text \<open>A state in which the server has accepted a connection, reached from the constructor.\<close>

lemma ex_reachable:
  "\<exists>s m. reachable s \<and> ctrl_alive s \<and> tcp_client_svc_mgr s = Some m \<and> svc_db m = [1] \<and>
    (3, AccListening) \<in> set (acc_threads s)"
proof -
  let ?junk = "(ex_server [] False)\<lparr>heap := Map.empty, acc_threads := []\<rparr>"
  let ?m = "TcpClientServiceManager_new\<lparr>svc_threads := [SvcStarted]\<rparr>"
  let ?m' = "?m\<lparr>epfd := Some 4, is_ready := True, svc_threads := [SvcRunning]\<rparr>"
  obtain s0 where s0: "TcpServerController_new ?junk 0 40000 ''srv'' 3 = Inr s0"
    and f0: "tcp_client_svc_mgr s0 = Some TcpClientServiceManager_new" "acc_threads s0 = []"
      "tcp_new_conn_acc s0 = Some \<lparr>accept_fd = 3, acc_has_thread = True\<rparr>" "heap s0 = Map.empty"
      "tcp_client_db_mgr s0 = Some []" "ctrl_alive s0" "client_connected_fn s0 = AppFn" "next_addr s0 = 1"
    by (simp add: TcpServerController_new_def TcpNewConnectionAcceptor_new_def SetBit_def ex_server_def)
  have r0: "reachable s0" using s0 by (rule reachable.init) simp_all
  obtain s1 where s1: "Start True s0 = Inr s1"
    and f1: "tcp_client_svc_mgr s1 = Some ?m" "acc_threads s1 = [(3, AccWaiting)]" "heap s1 = Map.empty"
      "tcp_client_db_mgr s1 = Some []" "ctrl_alive s1" "client_connected_fn s1 = AppFn" "next_addr s1 = 1"
    using f0 by (simp add: Start_def StartTcpConnectionAcceptorThread_def SetBit_def
        StartTcpClientServiceManagerThread_def TcpClientServiceManager_new_def)
  have r1: "reachable s1" using r0 server_step.start [OF f0(6) s1] by (rule reachable.step)
  have "svc_thread_begin 0 (heap s1) 4 ?m = Inr ?m'"
    by (simp add: svc_thread_begin_def GetMaxFd_def TcpClientServiceManager_new_def)
  then have "server_step s1 (s1\<lparr>tcp_client_svc_mgr := Some ?m'\<rparr>)"
    using f1(1) by (intro server_step.svc_begin [of _ ?m 0]) simp_all
  with r1 have r2: "reachable (s1\<lparr>tcp_client_svc_mgr := Some ?m'\<rparr>)" by (rule reachable.step)
  let ?s2 = "s1\<lparr>tcp_client_svc_mgr := Some ?m'\<rparr>"
  let ?s3 = "?s2\<lparr>acc_threads := [(3, AccListening)]\<rparr>"
  have "acceptor_thread_begin 3 True ?s2 = Inr (Some ?s3)"
    using f1(2) by (simp add: acceptor_thread_begin_def WaitUntilReady_def)
  then have "server_step ?s2 ?s3" using f1 by (intro server_step.acc_begin) simp_all
  with r2 have r3: "reachable ?s3" by (rule reachable.step)
  obtain s4 m4 where s4: "accept_client 5 0 0 (True, True, True) ex_client ?s3 = Inr s4"
      "tcp_client_svc_mgr s4 = Some m4" "svc_db m4 = svc_db ?m' @ [1]"
    using accept_client_effect [of ?s3 "[]" ?m' 4 5 0 0 ex_client] f1 by auto
  have "server_step ?s3 s4" using f1 by (intro server_step.acc_turn [OF _ _ s4(1)]) simp_all
  with r3 have r4: "reachable s4" by (rule reachable.step)
  have "ctrl_alive s4 \<and> acc_threads s4 = [(3, AccListening)]"
    using s4(1) f1(5,6) by (auto simp: accept_client_def Let_def ProcessNewClient_def AddClienttoDb_def
        split: option.splits)
  then show ?thesis using r4 s4(2,3) by (auto simp: TcpClientServiceManager_new_def)
qed

text \<open>
  C8: In every state the server can reach by any interleaving of application calls, acceptor steps,
  service-thread steps and peers: the two stop flags say exactly whether the acceptor and the
  service manager are there; an acceptor accepts only once the service thread has its epoll
  descriptor; the polled clients are distinct, alive and have a demarcator; and, while the controller
  lives, its client database has every live client, once.
\<close>

theorem reachable_invariants:
  assumes "reachable s"
  shows "(IsBitSet TCP_SERVER_NOT_ACCEPTING_NEW_CONNECTIONS s = (tcp_new_conn_acc s = None)) \<and>
    (IsBitSet TCP_SERVER_NOT_LISTENING_CLIENTS s = (tcp_client_svc_mgr s = None)) \<and>
    (\<forall>m. tcp_client_svc_mgr s = Some m \<longrightarrow>
      ((\<exists>fd. (fd, AccListening) \<in> set (acc_threads s)) \<longrightarrow> is_ready m \<and> epfd m \<noteq> None) \<and>
      distinct (svc_db m) \<and> (\<forall>a \<in> set (svc_db m). \<exists>c d. heap s a = Some c \<and> msgd c = Msgd d)) \<and>
    (ctrl_alive s \<longrightarrow> (\<exists>db. tcp_client_db_mgr s = Some db \<and> distinct db \<and> dom (heap s) \<subseteq> set db))"
  using reachable_inv [OF assms] by (auto simp: server_inv_defs)

theorem reachable_invariants_witness:
  "\<exists>s m. reachable s \<and> tcp_client_svc_mgr s = Some m \<and> svc_db m = [1] \<and> is_ready m \<and> heap s 1 \<noteq> None \<and>
    tcp_new_conn_acc s \<noteq> None = (\<not> IsBitSet TCP_SERVER_NOT_ACCEPTING_NEW_CONNECTIONS s)"
proof -
  obtain s m where s: "reachable s" "ctrl_alive s" "tcp_client_svc_mgr s = Some m" "svc_db m = [1]"
      "(3, AccListening) \<in> set (acc_threads s)"
    using ex_reachable by blast
  with reachable_invariants [OF s(1)] have "is_ready m" "heap s 1 \<noteq> None"
      "tcp_new_conn_acc s \<noteq> None = (\<not> IsBitSet TCP_SERVER_NOT_ACCEPTING_NEW_CONNECTIONS s)"
    by auto
  with s show ?thesis by blast
qed

text \<open>
  C9: With the message callback set and a working demarcator in every polled client, a round of the
  service thread ends without a fault, whatever the events, the bytes, the closed connections and
  the errors are, and leaves the polled clients in the same shape for the next round. The receive loop
  of a socket really ends, by one of its breaks: it makes at most one turn more than there are bytes
  pending, in whatever pieces the kernel hands them out.
\<close>

theorem service_round_progresses:
  assumes "client_msg_recvd_fn s = AppFn" "tcp_client_svc_mgr s = Some m" "distinct (svc_db m)"
    and "\<forall>a \<in> set (svc_db m). conn_ok (heap s) a"
    and "\<forall>(fd, ks) \<in> set evs. length (pending (socks s fd)) < length ks"
  shows "\<exists>s' m'. serve_round evs s = Some (Inr s') \<and> tcp_client_svc_mgr s' = Some m' \<and>
    distinct (svc_db m') \<and> (\<forall>a \<in> set (svc_db m'). conn_ok (heap s') a)"
  using assms by (rule serve_round_progress)

theorem service_round_progresses_witness:
  "\<exists>s' m'. serve_round [(5, [0, 0, 1, 0, 7]), (9, [3, 3, 3, 3, 3]), (5, [0, 0, 0, 0, 0])] (ex_server [0, 1, 7, 0] True)
      = Some (Inr s') \<and> tcp_client_svc_mgr s' = Some m' \<and> distinct (svc_db m')"
  using service_round_progresses [of "ex_server [0, 1, 7, 0] True" ex_mgr
      "[(5, [0, 0, 1, 0, 7]), (9, [3, 3, 3, 3, 3]), (5, [0, 0, 0, 0, 0])]"]
    ex_client_ok by auto

section \<open>Accepting, stopping, restarting\<close>

text \<open>
  C10: Accepting a connection on a server whose service thread is up gives a client with an empty
  demarcator, announces it to the application, and enters it in the client database, in the list of
  polled clients and in the epoll set; the other clients are left alone.
\<close>

theorem accepted_client_is_served:
  assumes "tcp_client_db_mgr s = Some db" "tcp_client_svc_mgr s = Some m" "epfd m = Some e"
    and "client_connected_fn s \<noteq> GarbageFn"
  shows "\<exists>s' m'. accept_client fd ip port (True, True, True) junk s = Inr s' \<and>
    conn_ok (heap s') (next_addr s) \<and> conn_buffered (heap s') (next_addr s) = [] \<and>
    conn_fd (heap s') (next_addr s) = fd \<and>
    (\<forall>x. x \<noteq> next_addr s \<longrightarrow> heap s' x = heap s x) \<and> next_addr s' = Suc (next_addr s) \<and>
    tcp_client_db_mgr s' = Some (db @ [next_addr s]) \<and> tcp_client_svc_mgr s' = Some m' \<and>
    svc_db m' = svc_db m @ [next_addr s] \<and> fd \<in> set (epoll_set m') \<and>
    connected s' = (if client_connected_fn s = AppFn then connected s @ [next_addr s] else connected s)"
  using assms by (rule accept_client_effect)

theorem accepted_client_is_served_witness:
  "\<exists>s' m'. accept_client 6 0 1 (True, True, True) ex_client (ex_server [] False) = Inr s' \<and>
    conn_ok (heap s') 1 \<and> tcp_client_db_mgr s' = Some [0, 1] \<and> tcp_client_svc_mgr s' = Some m' \<and>
    svc_db m' = [0, 1] \<and> 6 \<in> set (epoll_set m')"
  using accepted_client_is_served [of "ex_server [] False" "[0]" ex_mgr 4 6 0 1 ex_client] by fastforce

text \<open>
  C11: Stopping a server that was started, while every client of the database is still alive. If the
  memory of the lock of the database, which no code initialises, is that of a free lock, and no client
  of the database has a pointer to a demarcator that was never set, then \<^verbatim>\<open>Stop\<close> frees every
  client, closes their sockets in the order of the database, takes down the database and the service
  manager and forgets the acceptor; the threads of the acceptor are left running. Otherwise it uses
  uninitialised memory: the lock, or the pointer of a client that \<^verbatim>\<open>CreateActiveAClient\<close>
  made.
\<close>

theorem stop_releases_clients:
  assumes "server_inv s" "ctrl_alive s" "tcp_client_db_mgr s = Some db" "set db \<subseteq> dom (heap s)"
    and "\<forall>m. tcp_client_svc_mgr s = Some m \<longrightarrow> svc_threads m \<noteq> []"
  shows "if db_rwlock_ok s \<and> (\<forall>a \<in> set db. \<not> wild_client (heap s) a)
    then \<exists>s'. Stop s = Inr s' \<and> heap s' = Map.empty \<and>
      closed_fds s' = closed_fds s @ filter (\<lambda>f. f \<noteq> 0) (map (conn_fd (heap s)) db) \<and>
      tcp_client_svc_mgr s' = None \<and> tcp_new_conn_acc s' = None \<and> tcp_client_db_mgr s' = None \<and>
      \<not> ctrl_alive s' \<and> acc_threads s' = acc_threads s
    else Stop s = Inl Uninitialised"
proof -
  have inv: "flags_inv s" "svc_stoppable s" "distinct db" "dom (heap s) \<subseteq> set db"
    using assms by (auto simp: server_inv_defs svc_stoppable_def)
  have "\<exists>s'. Stop s = Inr s' \<and> heap s' = Map.empty \<and>
      closed_fds s' = closed_fds s @ filter (\<lambda>f. f \<noteq> 0) (map (conn_fd (heap s)) db) \<and>
      tcp_client_svc_mgr s' = None \<and> tcp_new_conn_acc s' = None \<and> tcp_client_db_mgr s' = None \<and>
      \<not> ctrl_alive s' \<and> acc_threads s' = acc_threads s"
    if ok: "db_rwlock_ok s" "\<forall>a \<in> set db. \<not> wild_client (heap s) a"
  proof -
    have fds: "map (\<lambda>a. comm_fd (the (heap s a))) db = map (conn_fd (heap s)) db"
      using assms(4) by (auto simp: conn_fd_def)
    have none: "heap s |` (- set db) = Map.empty"
      using inv(4) by (auto simp: restrict_map_def fun_eq_iff)
    obtain s' where s': "Stop s = Inr s'" "heap s' = Map.empty" "acc_threads s' = acc_threads s"
        "closed_fds s' = closed_fds s @ filter (\<lambda>f. f \<noteq> 0) (map (conn_fd (heap s)) db)"
        "tcp_client_svc_mgr s' = None" "tcp_new_conn_acc s' = None" "tcp_client_db_mgr s' = None"
      using Stop_ok [OF inv(1,2) assms(3) inv(3) assms(4) ok] unfolding fds none by blast
    moreover have "\<not> ctrl_alive s'" using Stop_frame [OF s'(1) inv(1)] by simp
    ultimately show ?thesis by blast
  qed
  then show ?thesis using Stop_uninitialised [OF inv(1,2) assms(3) inv(3) assms(4)] by auto
qed

text \<open>The witness stops the example server, once as it is and once after it connected to another one.\<close>

theorem stop_releases_clients_witness:
  "(\<exists>s'. Stop (ex_server [] False) = Inr s' \<and> heap s' = Map.empty \<and> closed_fds s' = [5] \<and>
    acc_threads s' = acc_threads (ex_server [] False)) \<and>
   (\<exists>s1. CreateActiveAClient 1 40000 True ex_client (ex_server [] False) = Inr s1 \<and> Stop s1 = Inl Uninitialised)"
proof
  show "\<exists>s'. Stop (ex_server [] False) = Inr s' \<and> heap s' = Map.empty \<and> closed_fds s' = [5] \<and>
      acc_threads s' = acc_threads (ex_server [] False)"
    using stop_releases_clients [of "ex_server [] False" "[0]"] ex_server_inv ex_client_ok(3) by fastforce
  obtain s1 where s1: "CreateActiveAClient 1 40000 True ex_client (ex_server [] False) = Inr s1"
      "tcp_client_db_mgr s1 = Some [0, 1]" "dom (heap s1) = {0, 1}" "wild_client (heap s1) 1"
      "tcp_client_svc_mgr s1 = Some ex_mgr" "ctrl_alive s1"
    by (auto simp: CreateActiveAClient_def AddClienttoDb_def TcpClient_new_def msgd_left_def ex_client_def
        wild_client_def SetState_def Let_def)
  have "Stop s1 = Inl Uninitialised"
    using stop_releases_clients [OF CreateActiveAClient_inv [OF s1(1) ex_server_inv] s1(6,2)] s1(3-5) by auto
  with s1(1) show "\<exists>s1. CreateActiveAClient 1 40000 True ex_client (ex_server [] False) = Inr s1 \<and>
      Stop s1 = Inl Uninitialised" by blast
qed

text \<open>
  C12: When a client of a running server closes its connection, the service thread frees it but the
  client database keeps its address: after that round, both stopping the server and displaying it
  use the freed client. The server's lock is usable and no client of the database has a pointer to a
  demarcator that was never set, which \<^verbatim>\<open>Stop\<close> could run into first (C11).
\<close>

theorem disconnect_then_stop_uses_freed_client:
  assumes "server_inv s" "ctrl_alive s" "tcp_client_svc_mgr s = Some m" "svc_threads m \<noteq> []"
    and "a \<in> set (svc_db m)" "conn_ok (heap s) a" "length (conn_buffered (heap s) a) < 256"
    and "\<forall>x \<in> set (svc_db m). x \<noteq> a \<longrightarrow> conn_fd (heap s) x \<noteq> conn_fd (heap s) a"
    and "socks s (conn_fd (heap s) a) = \<lparr>pending = [], peer_closed = True, sock_error = False\<rparr>"
    and "IsBitSet TCP_SERVER_RUNNING s"
    and "db_rwlock_ok s" "\<forall>db. tcp_client_db_mgr s = Some db \<longrightarrow> (\<forall>x \<in> set db. \<not> wild_client (heap s) x)"
  shows "\<exists>s'. serve_round [(conn_fd (heap s) a, [k])] s = Some (Inr s') \<and>
    Stop s' = Inl UseAfterFree \<and> Display s' = Inl UseAfterFree"
proof -
  obtain s' db where s': "serve_round [(conn_fd (heap s) a, [k])] s = Some (Inr s')" "heap s' = (heap s)(a := None)"
      "tcp_client_db_mgr s' = Some db" "a \<in> set db" "distinct db" "flags_inv s'" "svc_stoppable s'"
      "state_flags s' = state_flags s" "db_rwlock_ok s' = db_rwlock_ok s" "tcp_client_db_mgr s = Some db"
    using disconnect_dangles [of s m a k] assms(1-9) by blast
  have tame: "\<forall>x \<in> set db. \<not> wild_client (heap s') x"
    using assms(12) s'(2,10) by (simp add: wild_client_def)
  have gone: "heap s' a = None" using s'(2) by simp
  have "Stop s' = Inl UseAfterFree"
    using s'(9) assms(11) by (intro Stop_dangling [OF s'(6,7,3,5,4) gone _ tame]) simp
  moreover have "Display s' = Inl UseAfterFree"
    using DisplayClientDb_dangling [of a db "heap s'"] gone s'(3,4,8) assms(10) by (simp add: Display_def IsBitSet_def)
  ultimately show ?thesis using s'(1) by blast
qed

theorem disconnect_then_stop_uses_freed_client_witness:
  "\<exists>s'. serve_round [(5, [0])] (ex_server [] True) = Some (Inr s') \<and>
    Stop s' = Inl UseAfterFree \<and> Display s' = Inl UseAfterFree"
proof -
  have "IsBitSet TCP_SERVER_RUNNING (ex_server [] True)"
    by (simp add: IsBitSet_def flag_is_set_def server_flag_defs ex_server_def)
  then show ?thesis
    using disconnect_then_stop_uses_freed_client [of "ex_server [] True" ex_mgr 0 0] ex_server_inv ex_client_ok
    by auto
qed

text \<open>
  C13: Stopping the service manager of a started server succeeds, and nothing brings it back:
  starting the server again dereferences the null pointer it leaves behind.
\<close>

theorem restart_after_service_stop_crashes:
  assumes "flags_inv s" "svc_stoppable s"
  shows "\<exists>s'. StopClientSvcMgr s = Inr s' \<and> Start created s' = Inl NullDeref \<and>
    Start created (StartClientSvcMgr s') = Inl NullDeref"
  using Start_after_StopClientSvcMgr [OF assms] by (simp add: StartClientSvcMgr_def)

theorem restart_after_service_stop_crashes_witness:
  "\<exists>s'. StopClientSvcMgr (ex_server [] False) = Inr s' \<and> Start True s' = Inl NullDeref"
  using restart_after_service_stop_crashes [of "ex_server [] False" True] ex_server_flags ex_server_stoppable
  by blast


section \<open>The byte ring\<close>

text \<open>
  C14: The ring buffer refines a bounded first-in first-out queue of bytes: any sequence of writes
  (accepted when they fit, refused whole otherwise) and of reads of no more than is there, with or
  without removal, gives on the ring the results it gives on the queue, wherever the indices stand
  and however often they wrap around.
\<close>

theorem ring_refines_bounded_fifo:
  assumes "bcb_ok b" "\<forall>d. Put d \<in> set ops \<longrightarrow> length d < 65536"
    and "fifo_run (unat (buffer_size b)) (contents b) ops = Some (outs, q)"
  shows "\<exists>b'. ring_run b ops = Inr (outs, b') \<and> bcb_ok b' \<and> contents b' = q"
  using assms by (rule ring_run_refines)

theorem ring_refines_bounded_fifo_witness:
  "\<exists>b b'. BCBCreateNew True True 4 = Some b \<and>
    ring_run b [Put [1, 2, 3], Get 2 True, Put [4, 5], Put [6, 7], Get 3 False, Get 3 True]
      = Inr ([Stored 3, Got [1, 2], Stored 2, Stored 0, Got [3, 4, 5], Got [3, 4, 5]], b') \<and> contents b' = []"
proof -
  obtain b where b: "BCBCreateNew True True 4 = Some b" by (simp add: BCBCreateNew_def)
  from BCBCreateNew_ok [OF this] have "bcb_ok b" "unat (buffer_size b) = 4" "contents b = []" by auto
  with ring_refines_bounded_fifo [of b
      "[Put [1, 2, 3], Get 2 True, Put [4, 5], Put [6, 7], Get 3 False, Get 3 True]"] b
  show ?thesis by auto
qed

text \<open>
  A read of more bytes than the ring holds returns 0 and keeps the contents, but leaves the
  mutex locked: the next read, and the next write that fits, hang.
\<close>

theorem short_read_locks_ring:
  assumes "bcb_ok b" "current_size b < n"
  shows "\<exists>b'. BCBRead (Some b) dst n rm = Inr (0, Some b', dst) \<and> contents b' = contents b \<and>
    BCBRead (Some b') dst' n' rm' = Inl Deadlock \<and>
    (unat (current_size b) + unat k \<le> unat (buffer_size b) \<longrightarrow> BCBWrite (Some b') (Some d) k = Inl Deadlock)"
proof -
  have "BCBRead (Some (b\<lparr>lock := True\<rparr>)) dst' n' rm' = Inl Deadlock"
    by (cases dst') (simp_all add: BCBRead.simps)
  then show ?thesis
    using BCBRead_short [of b n dst rm] assms by (simp add: bcb_ok_def no_room_iff BCBWrite.simps(3))
qed

theorem short_read_locks_ring_witness:
  "\<exists>b b'. BCBCreateNew True True 4 = Some b \<and> BCBRead (Some b) (Some [0]) 1 True = Inr (0, Some b', Some [0]) \<and>
    BCBRead (Some b') (Some []) 0 True = Inl Deadlock \<and> BCBWrite (Some b') (Some [9]) 1 = Inl Deadlock"
proof -
  obtain b where b: "BCBCreateNew True True 4 = Some b" by (simp add: BCBCreateNew_def)
  then have "bcb_ok b" "current_size b = 0" "unat (buffer_size b) = 4"
    using BCBCreateNew_ok [OF b] by (auto simp: BCBCreateNew_def)
  with short_read_locks_ring [of b 1 "Some [0]" True "Some []" 0 True 1 "[9]"] b show ?thesis by auto
qed

text \<open>
  C15: The sender computes the size of its send buffer in 16 bits: for a payload of 65534 or 65535
  bytes it wraps around and the copy runs off the buffer; up to 65533 bytes the send buffer is the
  frame.
\<close>

theorem sender_frames_or_overflows:
  assumes "unat n \<le> length p"
  shows "send_msg True p n = (if unat n \<le> 65533 then Inr (frame (take (unat n) p)) else Inl OutOfBounds)"
  using send_msg_frame [OF assms] send_msg_overflow [of n p] by simp

theorem sender_frames_or_overflows_witness:
  "send_msg True (replicate 65535 0) 65534 = Inl OutOfBounds \<and> send_msg True [7, 8, 9] 2 = Inr [0, 2, 7, 8]"
  using sender_frames_or_overflows [of 65534 "replicate 65535 0"] sender_frames_or_overflows [of 2 "[7, 8, 9]"]
  by (simp add: frame_def htons_bytes_def)

section \<open>The serialize buffer\<close>

text \<open>
  C16: Serializing a string into a buffer of non-zero size appends its bytes, growing the buffer as
  often as it takes; the buffer stays well formed and the checkpoint stays where it was.
\<close>

theorem serialize_appends:
  assumes "sb_ok b" "0 < sb_size b" "sb_next b + int (length data) \<le> 1073741824"
  shows "\<exists>b'. serialize_string junk (Some b) data (int (length data)) = Some (Inr b') \<and> sb_ok b' \<and>
    sb_bytes b' = sb_bytes b @ data \<and> sb_next b' = sb_next b + int (length data) \<and>
    sb_checkpoint b' = sb_checkpoint b \<and> 0 < sb_size b'"
  using assms by (rule serialize_string_appends)

theorem serialize_appends_witness:
  "\<exists>b'. serialize_string (\<lambda>_. 7) (Some (init_serialized_buffer_of_defined_size 3)) (replicate 100 1) 100
      = Some (Inr b') \<and> sb_bytes b' = replicate 100 1"
proof -
  have "sb_bytes (init_serialized_buffer_of_defined_size 3) = []" "sb_ok (init_serialized_buffer_of_defined_size 3)"
    by (simp_all add: sb_bytes_def init_serialized_buffer_of_defined_size_def init_sized_sb_ok i32_ok_def sb_ok_def)
  then show ?thesis
    using serialize_appends [of "init_serialized_buffer_of_defined_size 3" "replicate 100 1" "\<lambda>_. 7"]
    by (auto simp: init_serialized_buffer_of_defined_size_def)
qed

text \<open>
  C17: Marking a checkpoint, serializing a string, going back to the checkpoint and reading gives
  the string back and leaves the buffer where serializing left it, even when serializing moved the
  buffer to a larger block.
\<close>

theorem checkpoint_reads_back:
  assumes "sb_ok b" "0 < sb_size b" "data \<noteq> []" "sb_next b + int (length data) \<le> 1073741824"
  shows "\<exists>b1 b2 b3 b4. mark_checkpoint_serialize_buffer (Some b) = Inr b1 \<and>
    serialize_string junk (Some b1) data (int (length data)) = Some (Inr b2) \<and>
    restore_checkpoint_serialize_buffer (Some b2) = Inr b3 \<and> sb_next b3 = sb_next b \<and>
    de_serialize_string (Some b3) (int (length data)) = Inr (data, b4) \<and> sb_next b4 = sb_next b2 \<and>
    sb_bytes b4 = sb_bytes b @ data"
  using assms by (rule checkpoint_roundtrip)

theorem checkpoint_reads_back_witness:
  "\<exists>b1 b2 b3 b4. mark_checkpoint_serialize_buffer (Some init_serialized_buffer) = Inr b1 \<and>
    serialize_string (\<lambda>_. 0) (Some b1) [1, 2, 3] 3 = Some (Inr b2) \<and>
    restore_checkpoint_serialize_buffer (Some b2) = Inr b3 \<and>
    de_serialize_string (Some b3) 3 = Inr ([1, 2, 3], b4) \<and> sb_bytes b4 = [1, 2, 3]"
proof -
  have "0 < sb_size init_serialized_buffer" "sb_next init_serialized_buffer = 0"
    by (simp_all add: init_serialized_buffer_def SERIALIZE_BUFFER_DEFAULT_SIZE_def)
  then show ?thesis
    using checkpoint_reads_back [of init_serialized_buffer "[1, 2, 3]" "\<lambda>_. 0"] by auto
qed

text \<open>
  C18: Truncating keeps the serialized bytes and cuts the buffer to them; truncating an empty buffer
  gives one of size 0, into which serializing a non-empty string never returns: doubling 0 never
  makes room.
\<close>

theorem truncate_then_serialize:
  assumes "sb_ok b"
  shows "\<exists>b'. truncate_serialize_buffer b = Inr b' \<and> sb_ok b' \<and> sb_bytes b' = sb_bytes b \<and>
    sb_size b' = sb_next b \<and>
    (sb_next b = 0 \<and> data \<noteq> [] \<longrightarrow> serialize_string junk (Some b') data (int (length data)) = None)"
  using truncate_keeps [OF assms] serialize_string_size_0 by fastforce

theorem truncate_then_serialize_witness:
  "\<exists>b'. truncate_serialize_buffer init_serialized_buffer = Inr b' \<and> sb_bytes b' = [] \<and>
    serialize_string (\<lambda>_. 0) (Some b') [1] 1 = None"
proof -
  have "sb_next init_serialized_buffer = 0" by (simp add: init_serialized_buffer_def)
  then show ?thesis
    using truncate_then_serialize [of init_serialized_buffer "[1]" "\<lambda>_. 0"] by auto
qed

section \<open>The linked list\<close>

lemma ex_list:
  "gl_list [0 \<mapsto> \<lparr>left_ptr = None, right_ptr = Some 1\<rparr>, 1 \<mapsto> \<lparr>left_ptr = Some 0, right_ptr = Some 2\<rparr>,
     2 \<mapsto> \<lparr>left_ptr = Some 1, right_ptr = None\<rparr>, 3 \<mapsto> \<lparr>left_ptr = None, right_ptr = None\<rparr>] 0 [1, 2]"
  "gl_free [0 \<mapsto> \<lparr>left_ptr = None, right_ptr = Some 1\<rparr>, 1 \<mapsto> \<lparr>left_ptr = Some 0, right_ptr = Some 2\<rparr>,
     2 \<mapsto> \<lparr>left_ptr = Some 1, right_ptr = None\<rparr>, 3 \<mapsto> \<lparr>left_ptr = None, right_ptr = None\<rparr>] 3"
  by (simp_all add: gl_list_def gl_free_def linked_def right_of_def left_of_def)

text \<open>
  C19: Adding a free node last to the list of a head gives the list with that node at its end, which
  then counts one more element.
\<close>

theorem add_last_appends:
  assumes "gl_list h head xs" "new \<notin> set (head # xs)" "gl_free h new"
  shows "\<exists>h'. glthread_add_last head new h = Some (Inr h') \<and> gl_list h' head (xs @ [new]) \<and>
    get_glthread_list_count head h' = Some (Inr (of_nat (length xs + 1)))"
proof -
  obtain h' where "glthread_add_last head new h = Some (Inr h')" "gl_list h' head (xs @ [new])"
    using add_last_list [OF assms] by blast
  with count_list [OF this(2)] show ?thesis by auto
qed

theorem add_last_appends_witness:
  "\<exists>h h'. gl_list h 0 [1, 2] \<and> glthread_add_last 0 3 h = Some (Inr h') \<and> gl_list h' 0 [1, 2, 3] \<and>
    get_glthread_list_count 0 h' = Some (Inr 3)"
  using add_last_appends [OF ex_list(1) _ ex_list(2)] ex_list(1) by fastforce

text \<open>
  C20: Removing a node takes it out of its list, wherever it stands, and leaves it free; the other
  nodes keep their order, and nodes outside the list are not touched.
\<close>

theorem remove_unlinks:
  assumes "gl_list h head (xs @ x # ys)"
  shows "\<exists>h'. remove_glthread x h = Inr h' \<and> dom h' = dom h \<and> gl_list h' head (xs @ ys) \<and> gl_free h' x \<and>
    (\<forall>p. p \<notin> set (head # xs @ x # ys) \<longrightarrow> right_of h' p = right_of h p \<and> left_of h' p = left_of h p)"
  using assms by (rule remove_list)

theorem remove_unlinks_witness:
  "\<exists>h h'. gl_list h 0 [1, 2] \<and> remove_glthread 1 h = Inr h' \<and> gl_list h' 0 [2] \<and> gl_free h' 1"
  using remove_unlinks [of _ 0 "[]" 1 "[2]"] ex_list(1) by fastforce

text \<open>
  C21: Inserting by priority with the comparison of the sample program keeps a list sorted by age,
  oldest first, puts the new person behind those of the same age, and loses nobody.
\<close>

theorem priority_insert_sorts:
  assumes "gl_list h head xs" "new \<in> dom h" "new \<notin> set (head # xs)"
    and "sorted (map (\<lambda>p. - age (mem (GLTHREAD_GET_USER_DATA_FROM_OFFSET p offset))) xs)"
  shows "\<exists>h' ys. glthread_priority_insert (senior_citizen mem) offset head new h = Some (Inr h') \<and>
    gl_list h' head ys \<and> sorted (map (\<lambda>p. - age (mem (GLTHREAD_GET_USER_DATA_FROM_OFFSET p offset))) ys) \<and>
    set ys = insert new (set xs) \<and>
    ys = priority_place (senior_citizen mem) offset new xs"
proof -
  have "senior.node_key mem offset = (\<lambda>p. - age (mem (GLTHREAD_GET_USER_DATA_FROM_OFFSET p offset)))"
    by (simp add: senior.node_key_def fun_eq_iff)
  with assms(4) senior.place_sorted [of mem offset xs new] show ?thesis
    using priority_insert_list [OF assms(1-3)] set_priority_place by fastforce
qed

theorem priority_insert_sorts_witness:
  "\<exists>h h'. glthread_priority_insert (senior_citizen (\<lambda>p. \<lparr>age = if p = 1 then 60 else if p = 2 then 30 else 60, weight = 70\<rparr>))
      0 0 3 h = Some (Inr h') \<and> gl_list h' 0 [1, 3, 2]"
proof -
  let ?mem = "\<lambda>p. \<lparr>age = if p = 1 then 60 else if p = 2 then 30 else 60, weight = 70 :: int\<rparr>"
  have "sorted (map (\<lambda>p. - age (?mem (GLTHREAD_GET_USER_DATA_FROM_OFFSET p 0))) [1, 2])"
    by (simp add: GLTHREAD_GET_USER_DATA_FROM_OFFSET_def)
  moreover have "priority_place (senior_citizen ?mem) 0 3 [1, 2] = [1, 3, 2]"
    by (simp add: priority_place_def precedes_def senior_citizen_def GLTHREAD_GET_USER_DATA_FROM_OFFSET_def)
  ultimately show ?thesis
    using priority_insert_sorts [OF ex_list(1), of 3 ?mem 0] by fastforce
qed

text \<open>
  Taking the first node from a list gives its first node and leaves the others; emptying a list
  removes every node and leaves each free.
\<close>

theorem dequeue_and_delete:
  assumes "gl_list h head (x # xs)"
  shows "\<exists>h' h''. dequeue_glthread_first head h = Inr (Some x, h') \<and> gl_list h' head xs \<and> gl_free h' x \<and>
    delete_glthread_list head h' = Some (Inr h'') \<and> gl_list h'' head [] \<and> (\<forall>y \<in> set xs. gl_free h'' y) \<and>
    dequeue_glthread_first head h'' = Inr (None, h'')"
proof -
  obtain h' where h': "dequeue_glthread_first head h = Inr (Some x, h')" "gl_list h' head xs" "gl_free h' x"
    using dequeue_list [OF assms] by blast
  then obtain h'' where "delete_glthread_list head h' = Some (Inr h'')" "gl_list h'' head []"
      "\<forall>y \<in> set xs. gl_free h'' y"
    using delete_list by blast
  with h' dequeue_empty show ?thesis by blast
qed

theorem dequeue_and_delete_witness:
  "\<exists>h h' h''. dequeue_glthread_first 0 h = Inr (Some 1, h') \<and> gl_list h' 0 [2] \<and>
    delete_glthread_list 0 h' = Some (Inr h'') \<and> gl_free h'' 2"
  using dequeue_and_delete [OF ex_list(1)] by fastforce


section \<open>Strings\<close>

text \<open>
  C22: The tokenizer copies the words of the trimmed line, in order, into the token array and
  returns their number, for lines of at most 16 words of at most 63 characters.
\<close>

theorem tokenizer_splits_words:
  assumes "holds blk s" "length s < 2048" "tokens_ok ts"
    and "length (strtok_all d (trim s)) \<le> 16" "\<forall>w \<in> set (strtok_all d (trim s)). length w < 64"
  shows "\<exists>ts'. tokenizer blk d ts =
      Inr (ts', strtok_all d (trim s) \<noteq> [], length (strtok_all d (trim s))) \<and> tokens_ok ts' \<and>
    (\<forall>k < length (strtok_all d (trim s)). holds (ts' ! k) (strtok_all d (trim s) ! k))"
  using assms by (rule tokenizer_words)

theorem tokenizer_splits_words_witness:
  "\<exists>ts'. tokenizer ('' show  ip '' @ [nul]) CHR '' '' init_token_array = Inr (ts', True, 2) \<and>
    holds (ts' ! 0) ''show'' \<and> holds (ts' ! 1) ''ip''"
proof -
  have w: "strtok_all CHR '' '' (trim '' show  ip '') = [''show'', ''ip'']" by code_simp
  have "holds ('' show  ip '' @ [nul]) '' show  ip ''" by code_simp
  from tokenizer_splits_words [OF this, of init_token_array "CHR '' ''", unfolded w] show ?thesis
    by (auto simp: less_Suc_eq)
qed

text \<open>
  C23: A line of more than 16 words makes the tokenizer write beyond the token array: its own check
  of the number of words comes after the word has been stored.
\<close>

theorem tokenizer_overruns:
  assumes "holds blk s" "length s < 2048" "length ts = 16" "16 < length (strtok_all d (trim s))"
  shows "tokenizer blk d ts = Inl OutOfBounds"
  using assms by (rule tokenizer_too_many)

theorem tokenizer_overruns_witness:
  "tokenizer (concat (replicate 17 ''a '') @ [nul]) CHR '' '' init_token_array = Inl OutOfBounds"
proof -
  have h: "holds (concat (replicate 17 ''a '') @ [nul]) (concat (replicate 17 ''a ''))" by code_simp
  have l: "length (concat (replicate 17 ''a '')) < 2048" by code_simp
  have w: "16 < length (strtok_all CHR '' '' (trim (concat (replicate 17 ''a ''))))" by code_simp
  show ?thesis using h l _ w by (rule tokenizer_overruns) (simp add: init_token_array_def MAX_CMD_TREE_DEPTH_def)
qed

text \<open>
  C24: Filtering a buffer by a pattern leaves in it exactly the non-empty lines that contain the
  pattern, in order, each ended by a newline, and returns their total length.
\<close>

theorem grep_keeps_matching_lines:
  assumes "holds b s" "length s < n" "n \<le> length b"
    and "length (matching_lines p (strtok_all (CHR 0x0A) s)) < length b"
  shows "\<exists>b'. grep b n p = Inr (b', length (matching_lines p (strtok_all (CHR 0x0A) s))) \<and>
    holds b' (matching_lines p (strtok_all (CHR 0x0A) s)) \<and> length b' = length b"
  using assms by (rule grep_lines)

theorem grep_keeps_matching_lines_witness:
  "\<exists>b'. grep (''ab'' @ [CHR 0x0A] @ ''cd'' @ [CHR 0x0A] @ ''xb'' @ [nul, nul]) 10 ''b'' = Inr (b', 6) \<and>
    holds b' (''ab'' @ [CHR 0x0A] @ ''xb'' @ [CHR 0x0A])"
proof -
  have l: "matching_lines ''b'' (strtok_all (CHR 0x0A) (''ab'' @ [CHR 0x0A] @ ''cd'' @ [CHR 0x0A] @ ''xb''))
      = ''ab'' @ [CHR 0x0A] @ ''xb'' @ [CHR 0x0A]" by code_simp
  have "holds (''ab'' @ [CHR 0x0A] @ ''cd'' @ [CHR 0x0A] @ ''xb'' @ [nul, nul])
      (''ab'' @ [CHR 0x0A] @ ''cd'' @ [CHR 0x0A] @ ''xb'')" by code_simp
  from grep_keeps_matching_lines [OF this, of 10 "''b''", unfolded l] show ?thesis
    by (auto simp: eval_nat_numeral)
qed

text \<open>
  Fetching the \<open>index\<close>-th integer of a string gives the value of the \<open>index\<close>-th of its
  words that consist of digits, counted from 1, and 0 when there is none; the value is computed in
  a C \<^verbatim>\<open>int\<close>.
\<close>

theorem fetches_nth_number:
  assumes "holds b s" "length s < n" "n \<le> length b"
  shows "string_fetch_integer b n index =
    (let ns = filter is_number (strtok_all CHR 0x20 s) in
     if 0 < index \<and> index \<le> int (length ns) then i32 (atoi_digits (ns ! nat (index - 1))) else Inr 0)"
  using assms by (rule fetch_integer_nth)

theorem fetches_nth_number_witness:
  "string_fetch_integer (''uptime 12 h 345'' @ [nul]) 16 2 = Inr 345"
proof -
  have n: "filter is_number (strtok_all CHR 0x20 ''uptime 12 h 345'') = [''12'', ''345'']" by code_simp
  have "holds (''uptime 12 h 345'' @ [nul]) ''uptime 12 h 345''" by code_simp
  from fetches_nth_number [OF this, of 16 2, unfolded n] show ?thesis
    by (simp add: atoi_digits_def i32_def i32_ok_def)
qed

text \<open>
  C25: Replacing a substring that occurs once, not at the end of the string, and whose first
  character occurs nowhere else, gives the string with the new text in its place; the rest of the
  block absorbs the difference of the lengths.
\<close>

theorem replace_substitutes:
  assumes "w \<noteq> []" "hd w \<notin> set pre" "hd w \<notin> set post" "nul \<notin> set (pre @ w @ c # post)"
    and "length new \<le> length w + length r" "nul \<notin> set new"
  shows "\<exists>r'. replaceSubstring (pre @ w @ c # post @ nul # r) (w @ [nul]) (new @ [nul]) =
    Inr (pre @ new @ c # post @ nul # r') \<and> length new + length r' = length w + length r"
  using assms by (rule replace_occurrence)

theorem replace_substitutes_witness:
  "\<exists>r'. replaceSubstring (''SHOW'' @ ''ip'' @ CHR '' '' # ''x'' @ nul # [nul, nul]) (''ip'' @ [nul]) (''ipv6'' @ [nul]) =
    Inr (''SHOW'' @ ''ipv6'' @ CHR '' '' # ''x'' @ nul # r') \<and> r' = []"
  using replace_substitutes [of "''ip''" "''SHOW''" "''x''" "CHR '' ''" "''ipv6''" "[nul, nul]"]
  by (fastforce simp: nul_def)

text \<open>
  When the substring stands at the end of the string, the comparison runs on past the end of
  the pattern: the NUL of the string matches the NUL of the pattern.
\<close>

theorem replace_at_end_overruns:
  assumes "w \<noteq> []" "hd w \<notin> set pre" "nul \<notin> set (pre @ w)" "nul \<in> set new"
  shows "replaceSubstring (pre @ w @ nul # r) (w @ [nul]) new = Inl OutOfBounds"
  using assms by (rule replace_at_end_out_of_bounds)

theorem replace_at_end_overruns_witness:
  "replaceSubstring (''show '' @ ''ip'' @ nul # [nul, nul]) (''ip'' @ [nul]) (''x'' @ [nul]) = Inl OutOfBounds"
  by (rule replace_at_end_overruns) (simp_all add: nul_def)

section \<open>The command line\<close>

text \<open>
  The command tree that the library builds at start-up, with the branch \<^verbatim>\<open>debug ut ut-enable\<close>.
\<close>

definition ut_leaf :: leaf_t where
  "ut_leaf = \<lparr>lf_type = LT_STRING, lf_value = replicate 64 nul,
     lf_user_validation = Some enable_disable_validation_handler, lf_id = ''ut-enable''\<rparr>"

definition started_ok :: "cli \<Rightarrow> param_t \<Rightarrow> bool" where
  "started_ok s r \<longleftrightarrow>
     cl_cursor s = Some libcli_get_root \<and> cl_tokens s = init_token_array \<and>
     holds (cl_console s) ''TcpServerProject>'' \<and> length (cl_console s) = 2048 \<and> p_kind r = CmdP ''ROOT'' \<and>
     live_options (p_options r) = [10, 11, 12, 2, 3, 5, 6, 7, 8, 32, 33, 34] \<and>
     list_all (\<lambda>p. cl_params s p \<noteq> None \<and> \<not> is_leaf (cl_params s) p) (live_options (p_options r)) \<and>
     map (name_of (cl_params s)) (live_options (p_options r)) =
       [''/'', ''?'', ''.'', ''show'', ''debug'', ''config'', ''clear'', ''run'', ''repeat'', ''cls'', ''cd..'', ''cd''] \<and>
     map_option p_kind (cl_params s 3) = Some (CmdP ''debug'') \<and>
     map_option p_parent (cl_params s 3) = Some (Some 0) \<and>
     map_option p_kind (cl_params s 18) = Some (CmdP ''ut'') \<and>
     map_option p_parent (cl_params s 18) = Some (Some 3) \<and>
     map_option p_kind (cl_params s 19) = Some (LeafP ut_leaf) \<and>
     map_option p_parent (cl_params s 19) = Some (Some 18)"

definition started :: cli where
  "started = projr init_libcli"

definition root_param :: param_t where
  "root_param = the (cl_params started libcli_get_root)"

lemma started:
  "init_libcli = Inr started \<and> cl_params started libcli_get_root = Some root_param \<and> started_ok started root_param"
proof -
  have "case init_libcli of Inl _ \<Rightarrow> False | Inr s \<Rightarrow>
      (case cl_params s libcli_get_root of None \<Rightarrow> False | Some r \<Rightarrow> started_ok s r)"
    by code_simp
  then obtain s r where s: "init_libcli = Inr s" "cl_params s libcli_get_root = Some r" "started_ok s r"
    by (auto split: sum.splits option.splits)
  have e: "started = s" unfolding started_def s(1) by (rule sum.sel(2))
  have "root_param = r" unfolding root_param_def e s(2) by (rule option.sel)
  with s e show ?thesis by blast
qed

lemmas started_facts = started [THEN conjunct2, THEN conjunct2, unfolded started_ok_def]

lemma started_state:
  "init_libcli = Inr started" "cl_cursor started = Some libcli_get_root" "cl_tokens started = init_token_array"
  "holds (cl_console started) ''TcpServerProject>''" "length (cl_console started) = 2048"
  "cl_params started libcli_get_root = Some root_param" "p_kind root_param = CmdP ''ROOT''"
  using started started_facts by blast+

lemma started_options:
  "live_options (p_options root_param) = [10, 11, 12, 2, 3, 5, 6, 7, 8, 32, 33, 34]"
  "map (name_of (cl_params started)) (live_options (p_options root_param)) =
     [''/'', ''?'', ''.'', ''show'', ''debug'', ''config'', ''clear'', ''run'', ''repeat'', ''cls'', ''cd..'', ''cd'']"
  "\<forall>p \<in> set (live_options (p_options root_param)). p \<in> dom (cl_params started) \<and> \<not> is_leaf (cl_params started) p"
proof -
  have "list_all (\<lambda>p. cl_params started p \<noteq> None \<and> \<not> is_leaf (cl_params started) p)
     (live_options (p_options root_param))" using started_facts by blast
  then show "\<forall>p \<in> set (live_options (p_options root_param)). p \<in> dom (cl_params started) \<and> \<not> is_leaf (cl_params started) p"
    by (auto simp: list_all_iff)
qed (use started_facts in blast)+

lemma started_branch: "branch (cl_params started) 19 [19, 18, 3]" "plain (cl_params started) [19, 18, 3]"
  "leaf_tlvs (cl_params started) (rev [19, 18, 3]) = [leaf_tlv ut_leaf]"
proof -
  have f: "map_option p_kind (cl_params started 3) = Some (CmdP ''debug'')"
    "map_option p_parent (cl_params started 3) = Some (Some 0)"
    "map_option p_kind (cl_params started 18) = Some (CmdP ''ut'')"
    "map_option p_parent (cl_params started 18) = Some (Some 3)"
    "map_option p_kind (cl_params started 19) = Some (LeafP ut_leaf)"
    "map_option p_parent (cl_params started 19) = Some (Some 18)"
    using started_facts by blast+
  then show "branch (cl_params started) 19 [19, 18, 3]" by (auto simp: libcli_get_root_def)
  have "leaf_ok ut_leaf" by code_simp
  with f show "plain (cl_params started) [19, 18, 3]" by (auto simp: plain_def)
  from f show "leaf_tlvs (cl_params started) (rev [19, 18, 3]) = [leaf_tlv ut_leaf]" by auto
qed

text \<open>
  C26: Leaves collected into the serialize buffer followed by a leaf that holds the printed command
  code are read back by the handler: its loop over the leaves gives them in order without the last,
  and the command code is the number that was printed.
\<close>

theorem leaves_and_code_read_back:
  assumes "\<forall>t \<in> set ts. tlv_ok t" "tlv_ok code" "length ts < 10000000"
    and "cstr (tlv_value code) = print_d n" "i32_ok n"
  shows "\<exists>b. collect_all junk (init_serialized_buffer_of_defined_size 1024) (ts @ [code]) = Some (Inr b) \<and>
    TLV_LOOP (Some b) = Inr ts \<and> EXTRACT_CMD_CODE b = Inr n"
proof -
  obtain b where "collect_all junk (init_serialized_buffer_of_defined_size 1024) (ts @ [code]) = Some (Inr b)"
      "sb_tlvs b (ts @ [code])"
    using collect_all_appends [OF init_sb_tlvs [of 1024], of "ts @ [code]" junk] assms(1-3)
    by (auto simp: i32_ok_def)
  with TLV_LOOP_leaves [OF this(2)] atoi_print_d [OF assms(5)] assms(4) show ?thesis by auto
qed

theorem leaves_and_code_read_back_witness:
  "\<exists>b. collect_all (\<lambda>_. 0) (init_serialized_buffer_of_defined_size 1024)
      ([tlv_zero] @ [tlv_zero\<lparr>tlv_value := ''-42'' @ replicate 61 nul\<rparr>]) = Some (Inr b) \<and>
    TLV_LOOP (Some b) = Inr [tlv_zero] \<and> EXTRACT_CMD_CODE b = Inr (-42)"
proof -
  have "cstr (tlv_value (tlv_zero\<lparr>tlv_value := ''-42'' @ replicate 61 nul\<rparr>)) = print_d (-42)" by code_simp
  then show ?thesis
    by (intro leaves_and_code_read_back) (simp_all add: tlv_ok_def tlv_zero_ok [unfolded tlv_ok_def] i32_ok_def)
qed

text \<open>
  C27: A token that is the full name of a command finds that command, whatever other commands it
  abbreviates and whatever leaves stand beside it, provided at most nine commands before it start
  with the token.
\<close>

theorem full_name_finds_command:
  assumes "live_options os = as @ p # bs" "set (as @ [p]) \<subseteq> dom h" "\<not> is_leaf h p" "name_of h p = name"
    and "\<forall>q \<in> set as. is_leaf h q \<or> name_of h q \<noteq> name" "length (candidates h name as) \<le> 9"
  shows "find_matching_param h choice os name = Inr (Some p)"
  using assms by (rule find_exact)

theorem full_name_finds_command_witness:
  "init_libcli = Inr started \<and> cl_params started libcli_get_root = Some root_param \<and>
    find_matching_param (cl_params started) (-1) (p_options root_param) ''cd'' = Inr (Some 34)"
  using full_name_finds_command [of "p_options root_param" "[10, 11, 12, 2, 3, 5, 6, 7, 8, 32, 33]" 34 "[]"
      "cl_params started" "''cd''" "-1"] started_options started_state
  by (auto simp: candidates_def)

text \<open>
  C28: A token that is no full name finds the only command it abbreviates; when it abbreviates
  several, the one the user chooses; and when it abbreviates none, it is taken as the value of the
  last leaf of the options, if there is one.
\<close>

theorem abbreviation_finds_command:
  assumes "set (live_options os) \<subseteq> dom h" "length (candidates h name (live_options os)) \<le> 9"
    and "\<forall>p \<in> set (live_options os). is_leaf h p \<or> name_of h p \<noteq> name"
  shows "find_matching_param h choice os name =
    Inr (case candidates h name (live_options os) of
           [] \<Rightarrow> (let ls = filter (is_leaf h) (live_options os) in if ls = [] then None else Some (last ls))
         | [p] \<Rightarrow> Some p
         | ps \<Rightarrow> if choice < 0 \<or> int (length ps) \<le> choice then None else Some (ps ! nat choice))"
  using assms by (rule find_abbreviation)


theorem abbreviation_finds_command_witness:
  "init_libcli = Inr started \<and> cl_params started libcli_get_root = Some root_param \<and>
    find_matching_param (cl_params started) (-1) (p_options root_param) ''sh'' = Inr (Some 2) \<and>
    find_matching_param (cl_params started) 1 (p_options root_param) ''c'' = Inr (Some 6) \<and>
    find_matching_param (cl_params started) 1 (p_options root_param) ''foo'' = Inr None"
  using abbreviation_finds_command [of "p_options root_param" "cl_params started" "''sh''" "-1"]
    abbreviation_finds_command [of "p_options root_param" "cl_params started" "''c''" 1]
    abbreviation_finds_command [of "p_options root_param" "cl_params started" "''foo''" 1]
    started_options started_state
  by (auto simp: candidates_def)

text \<open>
  C29: Rebuilding the leaves of a branch collects exactly one record per leaf between the root and
  the cursor, from the top of the branch down, with the leaf's type, identifier and value.
\<close>

theorem branch_leaves_rebuilt:
  assumes "branch h p ps" "plain h ps" "root_ok h" "sb_ok b" "0 < sb_size b" "length ps < 10000000"
  shows "\<exists>b'. build_cmd_tree_leaves_data junk h (Some b) (Some libcli_get_root) (Some p) = Some (Inr b') \<and>
    sb_tlvs b' (leaf_tlvs h (rev ps))"
  using assms by (rule build_leaves_data)

theorem branch_leaves_rebuilt_witness:
  "\<exists>b. build_cmd_tree_leaves_data (\<lambda>_. 0) (cl_params started) (Some (init_serialized_buffer_of_defined_size 1024))
      (Some libcli_get_root) (Some 19) = Some (Inr b) \<and>
    sb_tlvs b [\<lparr>tlv_leaf_type = LT_STRING, tlv_leaf_id = ''ut-enable'' @ replicate 23 nul,
      tlv_value = replicate 64 nul\<rparr>]"
proof -
  have r: "root_ok (cl_params started)" using started_state by (auto simp: root_ok_def)
  have b: "sb_ok (init_serialized_buffer_of_defined_size 1024)" "0 < sb_size (init_serialized_buffer_of_defined_size 1024)"
    using init_sb_tlvs [of 1024] by (simp_all add: sb_tlvs_def i32_ok_def)
  have "leaf_tlv ut_leaf = \<lparr>tlv_leaf_type = LT_STRING, tlv_leaf_id = ''ut-enable'' @ replicate 23 nul,
      tlv_value = replicate 64 nul\<rparr>" by code_simp
  with branch_leaves_rebuilt [OF started_branch(1,2) r b, of "\<lambda>_. 0"] started_branch(3) show ?thesis by simp
qed

text \<open>
  C30: Going to the top from inside a mode clears the values of the leaves of the branch and nothing
  else in the command tree, puts the cursor on the root, empties the buffer of collected leaves and
  cuts the prompt back to the device name.
\<close>

theorem goto_top_clears_branch:
  assumes "branch (cl_params s) p ps" "plain (cl_params s) ps" "distinct ps"
    and "holds (cl_console s) str" "length str < 2048" "length (cl_console s) = 2048"
    and "tokens_ok (cl_tokens s)" "strtok_all CHR ''>'' (trim str) = name # ws" "length ws < 16"
    and "\<forall>w \<in> set (name # ws). length w < 64"
  shows "\<exists>s'. goto_top_of_cmd_tree (Some p) s = Some (Inr s') \<and> cl_cursor s' = Some libcli_get_root \<and>
    cl_params s' = (\<lambda>q. if q \<in> set ps then map_option cleared (cl_params s q) else cl_params s q) \<and>
    holds (cl_console s') (name @ ''>'') \<and> is_serialized_buffer_empty (cl_tlv_buff s')"
  using assms by (rule goto_top_resets)


theorem goto_top_clears_branch_witness:
  "\<exists>s. goto_top_of_cmd_tree (Some 19) started = Some (Inr s) \<and> cl_cursor s = Some libcli_get_root \<and>
    holds (cl_console s) ''TcpServerProject>''"
proof -
  have "strtok_all CHR ''>'' (trim ''TcpServerProject>'') = [''TcpServerProject'']" by code_simp
  then show ?thesis
    using goto_top_clears_branch [OF started_branch(1,2) _ started_state(4) _ started_state(5),
        of "''TcpServerProject''" "[]"] started_state(3)
    by auto
qed

text \<open>
  The library starts up: it builds its command tree without hitting any of its assertions,
  leaves the cursor on the root and the prompt on the device name, and the root offers the mode,
  option and expansion characters followed by its nine commands, in that order.
\<close>

theorem library_starts_up:
  "\<exists>s r. init_libcli = Inr s \<and> cl_cursor s = Some libcli_get_root \<and>
    holds (cl_console s) ''TcpServerProject>'' \<and> cl_params s libcli_get_root = Some r \<and>
    map (name_of (cl_params s)) (live_options (p_options r)) =
      [''/'', ''?'', ''.'', ''show'', ''debug'', ''config'', ''clear'', ''run'', ''repeat'', ''cls'', ''cd..'', ''cd'']"
  by (intro exI [of _ started] exI [of _ root_param] conjI started_state started_options)

section \<open>Lines of the user\<close>

text \<open>
  C31: Declaring a parameter and registering it under another one of a tree the library accepts keeps
  the tree well-built, or fails with the assertion when all slots for children are taken, and in no
  other way. Afterwards the parent offers the new parameter and all it offered before, the new
  parameter leads back to it, and no third parameter has changed. Well-built trees are well-typed, and
  what is an option of a parameter is declared, behind it in the order of the tree, and has a parent.
\<close>

theorem registering_keeps_tree:
  assumes "well_built rk h" "h q = Some pc" "h p = None" "app_param rk p" "can_offer rk q" "rk q < rk p" "ty \<noteq> NO_CMD"
    and "cb = None \<or> (\<exists>k. cb = Some (app_callback k))" "init_param p ty n cb uv lt lid help h = Inr h1"
  shows "(case child_slot (p_options pc) of
       None \<Rightarrow> libcli_register_param (Some q) p h1 = Inl AssertFail
     | Some i \<Rightarrow> \<exists>h' c qc. libcli_register_param (Some q) p h1 = Inr h' \<and> well_built rk h' \<and>
         tree_ok rk h' \<and> values_ok h' \<and> h' p = Some c \<and> p_parent c = Some q \<and> h' q = Some qc \<and>
         p_options qc ! i = Some p \<and> (\<forall>r. Some r \<in> set (p_options pc) \<longrightarrow> Some r \<in> set (p_options qc)) \<and>
         (\<forall>x. x \<noteq> p \<longrightarrow> x \<noteq> q \<longrightarrow> h' x = h x))"
  using declared_param_registered [OF assms] well_built_tree by (auto split: option.splits)

theorem registering_keeps_tree_witness:
  "\<exists>c h1 h' x. init_libcli = Inr c \<and> init_cmd 56 ''node'' None ''Help : node'' (cl_params c) = Inr h1 \<and>
    libcli_register_param (Some libcli_get_show_hook) 56 h1 = Inr h' \<and> tree_ok app_rank h' \<and> h' 56 = Some x \<and>
    p_parent x = Some libcli_get_show_hook"
proof -
  obtain c where c: "init_libcli = Inr c" "well_built app_rank (cl_params c)" "dom (cl_params c) \<subseteq> {..<55}"
    by (rule library_built)
  have "case init_params of Inr h \<Rightarrow>
      (case h libcli_get_show_hook of Some x \<Rightarrow> child_slot (p_options x) = Some 6 | None \<Rightarrow> False) | Inl e \<Rightarrow> False"
    by code_simp
  then have "case cl_params c libcli_get_show_hook of Some x \<Rightarrow> child_slot (p_options x) = Some 6 | None \<Rightarrow> False"
    unfolding library_params [OF c(1)] sum.case .
  then obtain x where x: "cl_params c libcli_get_show_hook = Some x" "child_slot (p_options x) = Some 6"
    by (auto split: option.splits)
  have "cl_params c 56 = None" using c(3) by auto
  moreover obtain h1 where h1: "init_cmd 56 ''node'' None ''Help : node'' (cl_params c) = Inr h1"
    by (simp add: init_cmd_def init_param_def)
  ultimately show ?thesis
    using registering_keeps_tree [OF c(2) x(1) _ _ _ _ _ _ h1 [unfolded init_cmd_def]] c(1) x(2) sample_params by auto
qed

text \<open>
  C32: Every program that builds a tree of commands, the server application and the five samples of the
  library, starts without hitting any of the assertions of the library, and the tree it builds is
  well-typed: options point at parameters of the tree, parents lead back to the root or to a hook,
  identifiers fit the records, values of leaves are NUL-terminated blocks of 64 characters, and handlers
  that move the cursor sit where the parser expects them. The cursor stands on the root and no leaf is
  collected.
\<close>

theorem programs_start_well_typed:
  assumes "m \<in> set (main_shell # sample_programs)"
  shows "\<exists>c. m = Some (Inr c) \<and> tree_ok app_rank (cl_params c) \<and> values_ok (cl_params c) \<and>
    cl_cursor c = Some libcli_get_root \<and> sb_tlvs (cl_tlv_buff c) []"
proof (cases "m = main_shell")
  case True
  then show ?thesis using app_cli app_tree app_buffer by blast
next
  case False
  with assms have "m \<in> set sample_programs" by simp
  then show ?thesis by (rule samples_start)
qed

theorem programs_start_well_typed_witness:
  "\<exists>c. main4 = Some (Inr c) \<and> tree_ok app_rank (cl_params c) \<and> cl_cursor c = Some libcli_get_root"
  using programs_start_well_typed [of main4] unfolding sample_programs_def list.set by blast

text \<open>
  C33: A line whose words follow a path of the command tree, from wherever the cursor stands, calls
  the handler of the last parameter of the path once, in configuration mode where the branch is the
  configuration's. The handler finds in the buffer the leaves of the mode, then those of the line
  with the values typed, and the command code of that parameter. Up to the call the cursor and the
  application's state do not change, and the tree changes in the values of leaves only; after the
  call come the clean-up and the status of a complete command. The line does not start with a word the
  parser takes itself (\<open>parser_word\<close>), and its path ends neither at one of the special characters nor
  at the hook of the configuration, nor in the branch of \<^verbatim>\<open>repeat\<close>.
\<close>

theorem typed_command_runs_handler:
  assumes "shell_ok rk s" "cursor s = Some x" "sb_tlvs (tlv_buff s) ts" "length ts \<le> 1001"
    and "holds input l" "length l < 2048" "tokens_ok (cl_tokens (sh_cli s))" "strtok_all CHR '' '' (trim l) = ws"
    and "ws \<noteq> []" "length ws \<le> 16" "\<forall>w \<in> set ws. length w < 64" "\<not> parser_word (x = libcli_get_root) ws"
    and "word_path ev (params s) x ws ps" "params s (last ps) = Some c" "p_callback c = Some cb" "i32_ok (p_CMDCODE c)"
    and "\<not> special (last ps)" "last ps \<noteq> libcli_get_config_hook" "branch (params s) (last ps) bs"
    and "last bs \<noteq> libcli_get_repeat_hook"
  shows "\<exists>t. parse_input_cmd (Suc n) ev input s =
      obind (invoke n ev (last ps) cb (branch_mode (last bs) (word_mode (params s) ps MODE_UNKNOWN)) t) (\<lambda>s.
        obind (Some (after_command s)) (\<lambda>s. Some (Inr (COMPLETE, False, s)))) \<and>
    handler_sees t (ts @ word_tlvs (params s) ws ps) (p_CMDCODE c) \<and> cursor t = cursor s \<and> sh_app t = sh_app s \<and>
    same_tree (params s) (params t) \<and> tokens_ok (cl_tokens (sh_cli t)) \<and> shell_ok rk t"
  using typed_command [OF assms, of n] by blast

definition ex_machine :: machine where
  "ex_machine = \<lparr>mc_socket = (\<lambda>_. 3), mc_thread = (\<lambda>_. True), mc_host = (\<lambda>_. True),
     mc_server = (\<lambda>_. ex_server [] False), mc_client = (\<lambda>_. ex_client)\<rparr>"

abbreviation ex_env :: "app env" where "ex_env \<equiv> app_env ex_machine (\<lambda>_. 0) 0"

lemma ex_socket [simp]: "mc_socket ex_machine p = 3"
  by (simp add: ex_machine_def)

definition ex_line :: string where "ex_line = ''config tcp-server S1''"

lemma ex_line [simp]:
  "holds (ex_line @ [nul]) ex_line" "length ex_line < 2048"
  "strtok_all CHR '' '' (trim ex_line) = [''config'', ''tcp-server'', ''S1'']"
  by code_simp+

definition ex_shell :: "app shell" where "ex_shell = session app_cli (\<lambda>_. None) [nul] no_servers"

lemma ex_shell [simp]:
  "app_at_root ex_shell" "mode_inv app_rank ex_shell" "sh_app ex_shell = no_servers"
proof -
  show "app_at_root ex_shell" unfolding ex_shell_def by (rule session_at_root)
  show "mode_inv app_rank ex_shell" unfolding ex_shell_def by (rule session_mode_inv)
  show "sh_app ex_shell = no_servers" by (simp add: ex_shell_def session_def)
qed

lemma ex_lookup [simp]: "TcpServer_lookup (ctrl_heap no_servers) (tcp_server_lst no_servers) n = Inr None"
  by (simp add: no_servers_def)

lemma S1_ok: "nul \<notin> set ''S1''" "length ''S1'' < 64" "\<not> prefix ''S1'' ''/''" "\<not> prefix ''S1'' ''?''" "\<not> prefix ''S1'' ''.''"
  by (simp_all add: nul_def)

theorem typed_command_runs_handler_witness:
  "\<exists>t l. lf_id l = ''tcp-server-name'' \<and> parse_input_cmd 2 ex_env (ex_line @ [nul]) ex_shell =
      obind (invoke 1 ex_env app_tcp_server_name (app_callback APP_CONFIG) CONFIG_ENABLE t) (\<lambda>s.
        obind (Some (after_command s)) (\<lambda>s. Some (Inr (COMPLETE, False, s)))) \<and>
    handler_sees t [leaf_tlv (l\<lparr>lf_value := ''S1''\<rparr>)] TCP_SERVER_CREATE"
proof -
  let ?ps = "[libcli_get_config_hook, app_tcp_server, app_tcp_server_name]"
  obtain c l where w: "params ex_shell app_tcp_server_name = Some c" "p_callback c = Some (app_callback APP_CONFIG)"
      "p_CMDCODE c = TCP_SERVER_CREATE" "lf_id l = ''tcp-server-name''"
      "word_path ex_env (params ex_shell) libcli_get_root [''config'', ''tcp-server'', ''S1''] ?ps"
      "branch (params ex_shell) app_tcp_server_name [app_tcp_server_name, app_tcp_server, libcli_get_config_hook]"
      "word_tlvs (params ex_shell) [''config'', ''tcp-server'', ''S1''] ?ps = [leaf_tlv (l\<lparr>lf_value := ''S1''\<rparr>)]"
      "branch_mode libcli_get_config_hook (word_mode (params ex_shell) ?ps MODE_UNKNOWN) = CONFIG_ENABLE"
    using server_line [OF ex_shell(1) S1_ok] by blast
  note e = server_line_end [OF w(1,3) S1_ok(2)]
  have L: "last ?ps = app_tcp_server_name"
      "last [app_tcp_server_name, app_tcp_server, libcli_get_config_hook] = libcli_get_config_hook" by simp_all
  have br: "branch (params ex_shell) (last ?ps) [app_tcp_server_name, app_tcp_server, libcli_get_config_hook]"
    unfolding L by (rule w(6))
  have r: "cursor ex_shell = Some libcli_get_root" "sb_tlvs (tlv_buff ex_shell) []" "tokens_ok (cl_tokens (sh_cli ex_shell))"
    using ex_shell(1) by (simp_all add: app_at_root_def)
  have n: "Suc 1 = 2" by simp
  show ?thesis
    using typed_command_runs_handler [OF app_shell_ok [OF ex_shell(1)] r(1,2) e(6) ex_line(1,2) r(3) ex_line(3) e(7-10)
        w(5) e(1) w(2) e(2-4) br e(5), of 1, unfolded L w(3,7,8) append_Nil n] w(4) by blast
qed

text \<open>
  C34: Every line the user types keeps the invariant of the mode: the tree stays well-typed, the
  cursor is on a parameter of it that is reached from the top, the buffer holds the leaves between the
  top and the cursor in order, and the checkpoint marks exactly those, so that the next command sees
  the leaves of its mode and nothing else. This holds for lines whose handler parses no other line
  and for a handler of the application that leaves the library's state alone; loading a file and
  entering the configuration mode with the mode character are excluded, since they break it. The
  result does not depend on the bound on nested calls.
\<close>

theorem line_keeps_mode_invariant:
  assumes "parse_input_body ev no_parse (invoke (Suc 0) ev) input s = Some (Inr (st, rep, s'))" "app_quiet ev"
    and "mode_inv rk s" "tokenizer input CHR '' '' (cl_tokens (sh_cli s)) = Inr (ts, arr, cnt)"
    and "\<not> loads_file (s\<lparr>sh_cli := (sh_cli s)\<lparr>cl_tokens := ts\<rparr>\<rparr>) cnt"
    and "slash (s\<lparr>sh_cli := (sh_cli s)\<lparr>cl_tokens := ts\<rparr>\<rparr>) (cnt - 1) \<Longrightarrow> cursor s' \<noteq> Some libcli_get_config_hook"
  shows "mode_inv rk s' \<and> parse_input_cmd (n + 2) ev input s = Some (Inr (st, rep, s'))"
proof
  show "mode_inv rk s'" using line_keeps_mode [OF assms(1-4) refl assms(5,6)] .
  have "parse_below no_parse (parse_input_cmd (n + 1) ev)" by (simp add: parse_below_def)
  moreover have "invoke_below (invoke (Suc 0) ev) (invoke (n + 1) ev)" using depth_below [of "Suc 0" ev n] by simp
  ultimately have "below (parse_input_body ev no_parse (invoke (Suc 0) ev) input s)
      (parse_input_body ev (parse_input_cmd (n + 1) ev) (invoke (n + 1) ev) input s)"
    by (rule parse_input_body_below)
  with assms(1) show "parse_input_cmd (n + 2) ev input s = Some (Inr (st, rep, s'))"
    by (simp add: below_def parse_input_cmd.simps numeral_2_eq_2)
qed

theorem line_keeps_mode_invariant_witness:
  "\<exists>s'. parse_input_cmd 7 ex_env (ex_line @ [nul]) ex_shell = Some (Inr (COMPLETE, False, s')) \<and>
    mode_inv app_rank s' \<and> tcp_server_lst (sh_app s') = [0]"
proof -
  have zero: "next_ctrl no_servers = 0" "tcp_server_lst no_servers = []" by (simp_all add: no_servers_def)
  obtain s' where s': "parse_input_body ex_env no_parse (invoke (Suc 0) ex_env) (ex_line @ [nul]) ex_shell =
      Some (Inr (COMPLETE, False, s'))" "app_at_root s'" "tcp_server_lst (sh_app s') = [0]"
    using create_server_body [OF ex_shell(1) ex_line S1_ok(2-5), where mc = ex_machine and parse = no_parse and n = 0 and junk = "\<lambda>_. 0" and u = 0] zero by auto
  have root: "tokens_ok (cl_tokens (sh_cli ex_shell))" "cursor s' = Some libcli_get_root"
    using ex_shell(1) s'(2) by (simp_all add: app_at_root_def)
  obtain ts where ts: "tokenizer (ex_line @ [nul]) CHR '' '' (cl_tokens (sh_cli ex_shell)) = Inr (ts, True, 3)"
      "holds (ts ! 1) ''tcp-server''" "tokens_ok ts"
    using tokenizer_words [OF ex_line(1,2) root(1), of "CHR '' ''", unfolded ex_line(3)] by force
  have "\<not> loads_file (ex_shell\<lparr>sh_cli := (sh_cli ex_shell)\<lparr>cl_tokens := ts\<rparr>\<rparr>) 3"
    using ts(2,3) strlen_holds
    by (auto simp: loads_file_def token_str_def get_token_def tokens_ok_def holds_def strn_prefix_def split: sum.splits)
  moreover have "cursor s' \<noteq> Some libcli_get_config_hook" using root(2) by (simp add: hook_defs)
  ultimately show ?thesis
    using line_keeps_mode_invariant [OF s'(1) app_env_quiet ex_shell(2) ts(1), of 5] s'(3) by auto
qed

text \<open>
  C35: In the sample \<^verbatim>\<open>main4.c\<close>, the line that configures the loopback address of a node,
  typed at the root, runs the handler once, which prints the name and the address of the line and that
  the command is enabled; the same line with \<open>no\<close> after its first word, which goes through the
  parameter that the negation of the configuration added, runs the same handler, which prints that it
  is disabled. The shell is at the root again, ready for the next command. Not counted among what is
  printed is what the validations print of the two words.
\<close>

theorem negated_command_runs_disabled:
  assumes "ready_at_root (cl_params main4_cli) s" "holds input l" "length l < 2048"
    and "strtok_all CHR '' '' (trim l) = [''config''] @ (if neg then [''no''] else []) @ [''node'', n, ''loopback'', a]"
    and "plain_word n" "plain_word a"
  shows "\<exists>s'. parse_input_cmd (m + 2) (main4_env junk u) input s = Some (Inr (COMPLETE, False, s')) \<and>
    ready_at_root (cl_params main4_cli) s' \<and>
    sh_out s' = sh_out s @ [''Parse Success.'', ''node_loopback_callback_handler() is called ...'', ''cmd_code = 3'',
      ''node_name = '' @ n @ ''. lo-address = '' @ a @ '', op_code = '' @
        (if neg then ''CONFIG_DISABLE'' else ''CONFIG_ENABLE'')]"
  using node_command [OF assms(1-3) assms(4) [folded node_words_def] assms(5,6), of m junk u]
  by (simp only: node_report_def)

theorem negated_command_runs_disabled_witness:
  "\<exists>s'. parse_input_cmd 2 (main4_env (\<lambda>_. 0) 0) (''config no node N1 loopback 10.1.1.1'' @ [nul])
      (session main4_cli (\<lambda>_. None) [nul] no_servers) = Some (Inr (COMPLETE, False, s')) \<and>
    sh_out s' = [''Parse Success.'', ''node_loopback_callback_handler() is called ...'', ''cmd_code = 3'',
      ''node_name = N1. lo-address = 10.1.1.1, op_code = CONFIG_DISABLE'']"
proof -
  let ?l = "''config no node N1 loopback 10.1.1.1''" and ?s = "session main4_cli (\<lambda>_. None) [nul] no_servers"
  have l: "holds (?l @ [nul]) ?l" "length ?l < 2048" "strtok_all CHR '' '' (trim ?l) =
      [''config''] @ (if True then [''no''] else []) @ [''node'', ''N1'', ''loopback'', ''10.1.1.1'']"
    "plain_word ''N1''" "plain_word ''10.1.1.1''" by code_simp+
  have root: "ready_at_root (cl_params main4_cli) ?s"
    using main4_cli(3,4) fresh_buffer session_code_ok [of main4_cli "\<lambda>_. None" "[nul]" no_servers]
    by (simp add: ready_at_root_def session_def cli_starts_def get_cmd_tree_cursor_def)
  obtain s' where s': "parse_input_cmd (0 + 2) (main4_env (\<lambda>_. 0) 0) (?l @ [nul]) ?s = Some (Inr (COMPLETE, False, s'))"
      "sh_out s' = sh_out ?s @ [''Parse Success.'', ''node_loopback_callback_handler() is called ...'', ''cmd_code = 3'',
        ''node_name = '' @ ''N1'' @ ''. lo-address = '' @ ''10.1.1.1'' @ '', op_code = '' @
          (if True then ''CONFIG_DISABLE'' else ''CONFIG_ENABLE'')]"
    using negated_command_runs_disabled [OF root l] by blast
  have o: "sh_out ?s = []" by (simp add: session_def)
  show ?thesis
    using s'(1) s'(2) [unfolded o append_Nil if_True] unfolding add_0_left by (intro exI [of _ s'] conjI) simp_all
qed

text \<open>
  C36: Nothing that a session does, whatever lines, files of commands, scripts and repetitions it runs
  and to whatever depth, changes the tree of commands of the application except in the values of its
  leaves; and these stay NUL-terminated blocks of 64 characters, and the record of the command code
  keeps its shape.
\<close>

theorem session_keeps_tree:
  assumes "app_session s"
  shows "same_tree (cl_params app_cli) (params s) \<and> tree_ok app_rank (params s) \<and> values_ok (params s) \<and>
    tlv_ok (sh_code s)"
  using session_typed [OF assms] by (simp add: typed_shell_def shell_ok_def)

text \<open>A session in which the user has created a server.\<close>

lemma ex_machine_fresh: "fresh_machine (ex_machine\<lparr>mc_server := \<lambda>_. (ex_server [] False)\<lparr>heap := Map.empty, acc_threads := []\<rparr>\<rparr>)"
  by (simp add: fresh_machine_def)

lemma ex_session: "\<exists>s c. app_session s \<and> ctrl_heap (sh_app s) 0 = Some c \<and> ctrl_name c = ''S1''"
proof -
  let ?mc = "ex_machine\<lparr>mc_server := \<lambda>_. (ex_server [] False)\<lparr>heap := Map.empty, acc_threads := []\<rparr>\<rparr>"
  let ?s = "ex_shell\<lparr>sh_stdin := ex_line @ newline # []\<rparr>"
  have s: "app_session ?s" unfolding ex_shell_def using app_cli by (intro app_session.typed app_session.begins) simp
  have root: "app_at_root ?s" using ex_shell(1) by (simp add: app_at_root_def get_cmd_tree_cursor_def)
  have blank: "sh_input ?s = replicate CONS_INPUT_BUFFER_SIZE nul" by (simp add: ex_shell_def session_def)
  have l: "nul \<notin> set ex_line" "newline \<notin> set ex_line" "ex_line \<noteq> []" "length ex_line < 2046"
    by (simp_all add: ex_line_def nul_def newline_def)
  have mc: "0 \<le> mc_socket ?mc p" for p by (simp add: ex_machine_def)
  have look: "TcpServer_lookup (ctrl_heap (sh_app ?s)) (tcp_server_lst (sh_app ?s)) n = Inr None" for n by simp
  have app: "sh_app ?s = no_servers" "next_ctrl no_servers = 0" by (simp_all add: no_servers_def)
  have fds: "0 < sh_free_fds ?s" by (simp add: ex_shell_def session_def)
  obtain s' c where "shell_turn (0 + 2) (app_env ?mc (\<lambda>_. 0) 0) ?s = Some (Inr s')"
      "ctrl_heap (sh_app s') = (ctrl_heap (sh_app ?s))(next_ctrl (sh_app ?s) \<mapsto> c)" "ctrl_name c = ''S1''"
    using create_server_turn [OF root _ blank l ex_line(3) S1_ok(2-5) look mc fds, where n = 0 and rest = "[]" and junk = "\<lambda>_. 0" and u = 0]
    by auto
  with app_session.turn [OF s ex_machine_fresh this(1)] app show ?thesis by auto
qed

theorem session_keeps_tree_witness:
  "\<exists>s c. app_session s \<and> ctrl_heap (sh_app s) 0 = Some c \<and> same_tree (cl_params app_cli) (params s) \<and> values_ok (params s)"
  using ex_session session_keeps_tree by blast

text \<open>
  C37: In every session, whatever the user types and however the threads of the servers run in
  between, a controller that a command can find is alive and in a state its own operations lead to:
  its stop flags say whether its acceptor and its service manager are there, the clients it polls are
  distinct, alive and have demarcators, and its database has every live client, once. The list of
  servers has no address twice, and no address that will be given to a later server.
\<close>

theorem session_controllers_sound:
  assumes "app_session s" "ctrl_heap (sh_app s) a = Some c"
  shows "ctrl_alive c \<and> reachable c \<and>
    (IsBitSet TCP_SERVER_NOT_ACCEPTING_NEW_CONNECTIONS c = (tcp_new_conn_acc c = None)) \<and>
    (IsBitSet TCP_SERVER_NOT_LISTENING_CLIENTS c = (tcp_client_svc_mgr c = None)) \<and>
    (\<forall>m. tcp_client_svc_mgr c = Some m \<longrightarrow>
      distinct (svc_db m) \<and> (\<forall>b \<in> set (svc_db m). \<exists>d r. heap c b = Some d \<and> msgd d = Msgd r)) \<and>
    (\<exists>db. tcp_client_db_mgr c = Some db \<and> distinct db \<and> dom (heap c) \<subseteq> set db) \<and>
    a \<in> set (tcp_server_lst (sh_app s)) \<and> distinct (tcp_server_lst (sh_app s)) \<and>
    (\<forall>b \<in> set (tcp_server_lst (sh_app s)). b < next_ctrl (sh_app s))"
proof -
  have s: "reachable c" "ctrl_alive c" using session_servers_ok [OF assms(1)] assms(2) by (auto simp: servers_ok_def)
  show ?thesis using reachable_inv [OF s(1)] s session_servers_ok [OF assms(1)] assms(2)
    by (auto simp: server_inv_defs servers_ok_def)
qed

theorem session_controllers_sound_witness:
  "\<exists>s c. app_session s \<and> ctrl_heap (sh_app s) 0 = Some c \<and> ctrl_name c = ''S1'' \<and> 0 \<in> set (tcp_server_lst (sh_app s)) \<and>
    (\<exists>db. tcp_client_db_mgr c = Some db \<and> dom (heap c) \<subseteq> set db)"
proof -
  obtain s c where s: "app_session s" "ctrl_heap (sh_app s) 0 = Some c" "ctrl_name c = ''S1''" using ex_session by blast
  from session_controllers_sound [OF s(1,2)] s show ?thesis by blast
qed

text \<open>
  C38: At the root, the line that configures a TCP server by a name that no server of the list has
  creates a controller of that name, with the default address and port, just initialized, and appends
  it to the list; the shell is at the root again with an empty buffer, ready for the next command.
  Names are any words that are no abbreviation of the three special characters.
\<close>

theorem typing_creates_server:
  assumes "app_at_root s" "holds input l" "length l < 2048"
    and "strtok_all CHR '' '' (trim l) = [''config'', ''tcp-server'', name]" "length name < 64"
    and "\<not> prefix name ''/''" "\<not> prefix name ''?''" "\<not> prefix name ''.''"
    and "TcpServer_lookup (ctrl_heap (sh_app s)) (tcp_server_lst (sh_app s)) name = Inr None"
    and "0 \<le> mc_socket mc (sh_app s)"
  shows "\<exists>s' c. parse_input_cmd (n + 2) (app_env mc junk u) input s = Some (Inr (COMPLETE, False, s')) \<and>
    app_at_root s' \<and> tcp_server_lst (sh_app s') = tcp_server_lst (sh_app s) @ [next_ctrl (sh_app s)] \<and>
    ctrl_heap (sh_app s') = (ctrl_heap (sh_app s))(next_ctrl (sh_app s) \<mapsto> c) \<and>
    ctrl_name c = name \<and> ctrl_ip_addr c = 0x7F000001 \<and> ctrl_port_no c = 40000 \<and>
    state_flags c = TCP_SERVER_INITIALIZED \<and> ctrl_alive c"
  using create_server_body [OF assms, where parse = "parse_input_cmd (Suc n) (app_env mc junk u)" and n = n and junk = junk and u = u]
  unfolding add_2_eq_Suc' parse_input_cmd.simps by blast

theorem typing_creates_server_witness:
  "\<exists>s' c. parse_input_cmd 2 ex_env (ex_line @ [nul]) ex_shell = Some (Inr (COMPLETE, False, s')) \<and>
    tcp_server_lst (sh_app s') = [0] \<and> ctrl_heap (sh_app s') = [0 \<mapsto> c] \<and> ctrl_name c = ''S1'' \<and> ctrl_port_no c = 40000"
proof -
  have z: "next_ctrl no_servers = 0" "tcp_server_lst no_servers = []" "ctrl_heap no_servers = Map.empty"
    by (simp_all add: no_servers_def)
  show ?thesis
    using typing_creates_server [OF ex_shell(1) ex_line S1_ok(2-5), where mc = ex_machine and n = 0 and junk = "\<lambda>_. 0" and u = 0] z
    by (auto simp: numeral_2_eq_2)
qed

text \<open>
  C39: Stopping a server by its name frees its controller but leaves the pointer in the list: the next
  lookup, of whatever name, that gets as far as the stopped server uses the freed controller.
\<close>

theorem stopped_server_used_again:
  assumes "handler_sees t ts TCP_SERVER_STOP" "read_leaves ts default_args = Inr a" "la_server_name a = Some name"
    and "TcpServer_lookup (ctrl_heap (sh_app t)) (tcp_server_lst (sh_app t)) name = Inr (Some p)"
    and "ctrl_heap (sh_app t) p = Some c" "Stop c = Inr c'"
    and "\<forall>b \<in> set (takeWhile (\<lambda>b. b \<noteq> p) (tcp_server_lst (sh_app t))).
      \<forall>d. ctrl_heap (sh_app t) b = Some d \<longrightarrow> ctrl_name d \<noteq> m"
  shows "\<exists>t'. config_tcp_server_handler mc CONFIG_ENABLE t = Inr t' \<and> p \<in> set (tcp_server_lst (sh_app t')) \<and>
    app_lookup (Some m) t' = Inl UseAfterFree"
  using assms by (rule stop_keeps_pointer)

definition ex_servers :: app where
  "ex_servers = \<lparr>tcp_server_lst = [0], ctrl_heap = [0 \<mapsto> ex_server [] False], next_ctrl = 1\<rparr>"

definition ex_name :: leaf_t where
  "ex_name = \<lparr>lf_type = LT_STRING, lf_value = ''srv'', lf_user_validation = None, lf_id = ''tcp-server-name''\<rparr>"

lemma stop_command: "\<exists>t. handler_sees t [leaf_tlv ex_name] TCP_SERVER_STOP \<and> sh_app t = ex_servers"
proof -
  have s: "sb_tlvs (tlv_buff ex_shell) []" "tlv_ok (sh_code ex_shell)"
    using ex_shell(1) by (simp_all add: app_at_root_def)
  have "tlv_ok (leaf_tlv ex_name)" by code_simp
  then obtain b where b: "sb_tlvs b [leaf_tlv ex_name]"
    using collect_tlv_appends [OF s(1), of "leaf_tlv ex_name" "\<lambda>_. 0"] by auto
  let ?s = "ex_shell\<lparr>sh_app := ex_servers, sh_cli := (sh_cli ex_shell)\<lparr>cl_tlv_buff := b\<rparr>\<rparr>"
  obtain s1 s2 where "handler_sees s2 [leaf_tlv ex_name] TCP_SERVER_STOP"
      "\<exists>v b. s2 = ?s\<lparr>sh_code := (sh_code ?s)\<lparr>tlv_value := v\<rparr>, sh_cli := (sh_cli ?s)\<lparr>cl_tlv_buff := b\<rparr>\<rparr>"
    using command_code_collected [of TCP_SERVER_STOP ?s "[leaf_tlv ex_name]"] b s(2) by (force simp: app_code_defs i32_ok_def)
  then show ?thesis by force
qed

theorem stopped_server_used_again_witness:
  "\<exists>t t'. handler_sees t [leaf_tlv ex_name] TCP_SERVER_STOP \<and>
    config_tcp_server_handler ex_machine CONFIG_ENABLE t = Inr t' \<and> app_lookup (Some ''S2'') t' = Inl UseAfterFree"
proof -
  obtain t where t: "handler_sees t [leaf_tlv ex_name] TCP_SERVER_STOP" "sh_app t = ex_servers"
    using stop_command by blast
  have "ex_name = ex_name\<lparr>lf_value := ''srv''\<rparr>" "lf_id ex_name = ''tcp-server-name''" by (simp_all add: ex_name_def)
  moreover have "nul \<notin> set ''srv''" "length ''srv'' < 64" by (simp_all add: nul_def)
  ultimately have "read_leaves [leaf_tlv ex_name] default_args = Inr (default_args\<lparr>la_server_name := Some ''srv''\<rparr>)"
    using read_name by metis
  moreover obtain c' where "Stop (ex_server [] False) = Inr c'"
    using Stop_ok [OF ex_server_flags ex_server_stoppable, of "[]" False "[0]"] by auto
  ultimately have "\<exists>t'. config_tcp_server_handler ex_machine CONFIG_ENABLE t = Inr t' \<and> 0 \<in> set (tcp_server_lst (sh_app t')) \<and>
      app_lookup (Some ''S2'') t' = Inl UseAfterFree"
    using t(2) by (intro stopped_server_used_again [OF t(1)]) (simp_all add: ex_servers_def, simp add: ex_server_def)
  with t(1) show ?thesis by blast
qed

text \<open>
  C40: The user's last command loaded a file whose only line is \<^verbatim>\<open>repeat\<close>, and the user types
  that command again. Every repetition loads the file again from within the loading of the file, which is
  still open, so the loads nest as deep as the process has descriptors: with \<open>k\<close> of them left, the
  file is opened \<open>k\<close> times, the line executed and a key awaited each time, until an open fails; then the
  whole recursion returns, the command counts as complete, all descriptors are free again, and the
  recording of commands is off. A bound of \<open>2 k + 1\<close> nested calls is enough.
\<close>

theorem repeat_in_file_exhausts_descriptors:
  assumes "repeats_itself l f s" "holds input l" "length l < 2048"
    and "strtok_all CHR '' '' (trim l) = [''config'', ''load'', f]" "length f < 64"
    and "2 * sh_free_fds s < n"
  shows "\<exists>s'. parse_input_cmd n ev input s = Some (Inr (COMPLETE, False, s')) \<and> repeats_itself l f s' \<and>
    sh_out s' = sh_out s @
      concat (replicate (sh_free_fds s) [''Executing : '' @ repeat_file, ''Parse Success.'', ''prev : '' @ l]) @
      [''Error : Could not open log file '' @ f] \<and>
    sh_stdin s' = drop (sh_free_fds s) (sh_stdin s) \<and> sh_app s' = sh_app s \<and> sh_free_fds s' = sh_free_fds s \<and>
    sh_recording s' = (sh_recording s \<and> sh_free_fds s = 0)"
  using repeated_load [OF assms, of ev] by (auto simp: advances_def nested_loads_def)

theorem repeat_in_file_exhausts_descriptors_witness:
  "\<exists>s'. parse_input_cmd 2043 ex_env (''config load f'' @ [nul])
      (session app_cli (\<lambda>_. Some repeat_file) (''config load f'' @ [nul]) no_servers) = Some (Inr (COMPLETE, False, s')) \<and>
    length (sh_out s') = 3064 \<and> last (sh_out s') = ''Error : Could not open log file f'' \<and> sh_free_fds s' = 1021"
proof -
  let ?l = "''config load f''" and ?s = "session app_cli (\<lambda>_. Some repeat_file) (''config load f'' @ [nul]) no_servers"
  have l: "holds (?l @ [nul]) ?l" "length ?l < 2048" "strtok_all CHR '' '' (trim ?l) = [''config'', ''load'', ''f'']"
      "length ''f'' < 64"
    by code_simp+
  have "app_at_root ?s" by (rule session_at_root)
  moreover have "sh_last ?s = ?l @ [nul]" "sh_files ?s ''f'' = Some repeat_file" by (simp_all add: session_def)
  moreover have "0 < sb_size (tlv_buff ?s)" using app_buffer by (simp add: session_def sb_tlvs_def)
  ultimately have start: "repeats_itself ?l ''f'' ?s"
    using l(1) by (simp only: repeats_itself_def app_at_root_def sb_tlvs_def)
  have fds: "sh_free_fds ?s = 1021" "sh_out ?s = []" by (simp_all add: session_def)
  have "2 * sh_free_fds ?s < 2043" unfolding fds by simp
  from repeat_in_file_exhausts_descriptors [OF start l this, of ex_env] show ?thesis
    unfolding fds by (auto simp: length_concat sum_list_replicate map_replicate_const)
qed

end
